(* ===== verification/Prelude.thy ===== *)
theory Prelude
  imports
    Main
    "HOL-Library.AList"
    "HOL-Library.Char_ord"
    "HOL-Library.List_Lexorder"
    "HOL-Library.Sublist"
    "HOL-Library.Word"
begin

text \<open>
  What the components share: Go's byte strings (as \<^typ>\<open>string\<close>, a list of bytes) with the functions
  of package \<open>strings\<close> the sources call, Go maps as association lists with distinct keys,
  instants and durations in nanoseconds, integers converted to a fixed width, and decimal printing.
  The collections below gather the equations the component proofs rewrite with.
\<close>

named_theorems go_string \<open>equations of the Go string functions\<close>
named_theorems go_map \<open>equations of Go maps as association lists\<close>
named_theorems store_laws \<open>laws of the metadata store interface\<close>

section \<open>Byte strings\<close>

text \<open>\<open>strings.HasPrefix(s, p)\<close>, \<open>strings.HasSuffix(s, p)\<close> and \<open>strings.Contains(s, sub)\<close>.\<close>

abbreviation HasPrefix :: "string \<Rightarrow> string \<Rightarrow> bool" where
  "HasPrefix s p \<equiv> prefix p s"

abbreviation HasSuffix :: "string \<Rightarrow> string \<Rightarrow> bool" where
  "HasSuffix s p \<equiv> suffix p s"

abbreviation Contains :: "string \<Rightarrow> string \<Rightarrow> bool" where
  "Contains s sub \<equiv> sublist sub s"

text \<open>\<open>strings.TrimPrefix\<close> and \<open>strings.TrimSuffix\<close> remove one occurrence, if there is one.\<close>

definition TrimPrefix :: "string \<Rightarrow> string \<Rightarrow> string" where
  "TrimPrefix s p = (if prefix p s then drop (length p) s else s)"

definition TrimSuffix :: "string \<Rightarrow> string \<Rightarrow> string" where
  "TrimSuffix s p = (if suffix p s then take (length s - length p) s else s)"

text \<open>
  \<open>strings.Split(s, sep)\<close> for a separator of one byte: never empty, and one part more than there
  are separators.
\<close>

fun split_on :: "char \<Rightarrow> string \<Rightarrow> string list" where
  "split_on c [] = [[]]"
| "split_on c (x # xs) =
     (if x = c then [] # split_on c xs
      else (case split_on c xs of [] \<Rightarrow> [[x]] | y # ys \<Rightarrow> (x # y) # ys))"

text \<open>\<open>strings.Join(parts, sep)\<close>.\<close>

fun join :: "string \<Rightarrow> string list \<Rightarrow> string" where
  "join sep [] = []"
| "join sep [x] = x"
| "join sep (x # y # ys) = x @ sep @ join sep (y # ys)"

text \<open>\<open>strings.Cut(s, sep)\<close> for a separator of one byte, without its found flag.\<close>

definition Cut :: "char \<Rightarrow> string \<Rightarrow> string \<times> string" where
  "Cut c s = (takeWhile (\<lambda>x. x \<noteq> c) s, drop 1 (dropWhile (\<lambda>x. x \<noteq> c) s))"

text \<open>\<open>strings.Index(s, sub)\<close>, with \<open>None\<close> for -1.\<close>

fun Index :: "string \<Rightarrow> string \<Rightarrow> nat option" where
  "Index [] sub = (if sub = [] then Some 0 else None)"
| "Index (x # xs) sub =
     (if prefix sub (x # xs) then Some 0 else map_option Suc (Index xs sub))"

text \<open>\<open>s[strings.LastIndex(s, "/")+1:]\<close>, the part after the last separator, or all of \<open>s\<close>.\<close>

definition after_last :: "char \<Rightarrow> string \<Rightarrow> string" where
  "after_last c s = rev (takeWhile (\<lambda>x. x \<noteq> c) (rev s))"

text \<open>
  \<open>strings.ToLower\<close> on bytes. Bytes outside ASCII are left alone: no rune outside ASCII has a
  lower-case form among the letters the sources look for in the result.
\<close>

definition lower_char :: "char \<Rightarrow> char" where
  "lower_char c = (if CHR ''A'' \<le> c \<and> c \<le> CHR ''Z'' then char_of (of_char c + (32::nat)) else c)"

definition ToLower :: "string \<Rightarrow> string" where
  "ToLower = map lower_char"

definition upper_char :: "char \<Rightarrow> char" where
  "upper_char c = (if CHR ''a'' \<le> c \<and> c \<le> CHR ''z'' then char_of (of_char c - (32::nat)) else c)"

definition ToUpper :: "string \<Rightarrow> string" where
  "ToUpper = map upper_char"

text \<open>The ASCII bytes \<open>unicode.IsSpace\<close> accepts, and \<open>strings.TrimSpace\<close> over them.\<close>

definition is_space :: "char \<Rightarrow> bool" where
  "is_space c \<longleftrightarrow> c \<in> set [CHR '' '', CHR 0x09, CHR 0x0A, CHR 0x0B, CHR 0x0C, CHR 0x0D]"

definition TrimSpace :: "string \<Rightarrow> string" where
  "TrimSpace s = rev (dropWhile is_space (rev (dropWhile is_space s)))"

text \<open>
  \<open>strings.TrimSpace(s) == ""\<close>: every rune is white space. Outside ASCII the runes are U+0085, U+00A0,
  U+1680, U+2000 to U+200A, U+2028, U+2029, U+202F, U+205F and U+3000, here in UTF-8.
\<close>

definition space2 :: "char \<Rightarrow> char \<Rightarrow> bool" where
  "space2 a b \<longleftrightarrow> a = CHR 0xC2 \<and> (b = CHR 0x85 \<or> b = CHR 0xA0)"

definition space3 :: "char \<Rightarrow> char \<Rightarrow> char \<Rightarrow> bool" where
  "space3 a b c \<longleftrightarrow>
     a = CHR 0xE1 \<and> b = CHR 0x9A \<and> c = CHR 0x80 \<or>
     a = CHR 0xE2 \<and> b = CHR 0x80 \<and> (CHR 0x80 \<le> c \<and> c \<le> CHR 0x8A \<or> c \<in> set [CHR 0xA8, CHR 0xA9, CHR 0xAF]) \<or>
     a = CHR 0xE2 \<and> b = CHR 0x81 \<and> c = CHR 0x9F \<or>
     a = CHR 0xE3 \<and> b = CHR 0x80 \<and> c = CHR 0x80"

fun blank :: "string \<Rightarrow> bool" where
  "blank [] = True"
| "blank (a # s) =
     (if is_space a then blank s
      else case s of
        [] \<Rightarrow> False
      | b # r \<Rightarrow>
          if space2 a b then blank r
          else case r of [] \<Rightarrow> False | c # r' \<Rightarrow> space3 a b c \<and> blank r')"

text \<open>
  \<open>strings.EqualFold\<close>. Bytes outside ASCII are compared as they are: the sources compare names of
  HTTP headers with it, which are ASCII in any request that can be sent.
\<close>

definition EqualFold :: "string \<Rightarrow> string \<Rightarrow> bool" where
  "EqualFold s t \<longleftrightarrow> ToLower s = ToLower t"

section \<open>Character classes of the regular expressions\<close>

definition is_lower :: "char \<Rightarrow> bool" where
  "is_lower c \<longleftrightarrow> CHR ''a'' \<le> c \<and> c \<le> CHR ''z''"

definition is_upper :: "char \<Rightarrow> bool" where
  "is_upper c \<longleftrightarrow> CHR ''A'' \<le> c \<and> c \<le> CHR ''Z''"

definition is_digit :: "char \<Rightarrow> bool" where
  "is_digit c \<longleftrightarrow> CHR ''0'' \<le> c \<and> c \<le> CHR ''9''"

definition is_alnum :: "char \<Rightarrow> bool" where
  "is_alnum c \<longleftrightarrow> is_lower c \<or> is_upper c \<or> is_digit c"

lemmas char_class_defs = is_lower_def is_upper_def is_digit_def is_alnum_def

section \<open>Decimal numbers\<close>

text \<open>\<open>fmt\<close>'s \<open>%d\<close>.\<close>

definition digit_char :: "nat \<Rightarrow> char" where
  "digit_char d = char_of (48 + d)"

fun nat_dec :: "nat \<Rightarrow> string" where
  "nat_dec n = (if n < 10 then [digit_char n] else nat_dec (n div 10) @ [digit_char (n mod 10)])"

declare nat_dec.simps [simp del]

definition int_dec :: "int \<Rightarrow> string" where
  "int_dec i = (if i < 0 then CHR ''-'' # nat_dec (nat (- i)) else nat_dec (nat i))"

text \<open>The value of a string of digits, read back.\<close>

definition dec_val :: "string \<Rightarrow> nat" where
  "dec_val s = foldl (\<lambda>a c. 10 * a + (of_char c - 48)) 0 s"

text \<open>\<open>strconv.Atoi\<close>: an optional sign and at least one digit, within 64 bits.\<close>

definition Atoi :: "string \<Rightarrow> int option" where
  "Atoi s =
     (let neg = (s \<noteq> [] \<and> hd s = CHR ''-'');
          ds = (if s \<noteq> [] \<and> (hd s = CHR ''-'' \<or> hd s = CHR ''+'') then tl s else s);
          v = (if neg then - int (dec_val ds) else int (dec_val ds))
      in if ds \<noteq> [] \<and> list_all is_digit ds \<and> - (2 ^ 63) \<le> v \<and> v < 2 ^ 63 then Some v else None)"

section \<open>Time\<close>

text \<open>
  A \<open>time.Time\<close> is its instant in nanoseconds since Go's zero time (1 January of the year 1, UTC),
  so \<open>t.IsZero()\<close> is \<open>t = 0\<close> and \<open>Before\<close>, \<open>After\<close> and \<open>Equal\<close> compare integers. A
  \<open>time.Duration\<close> counts nanoseconds. \<open>Sub\<close> saturates at the range of \<open>int64\<close>.
\<close>

type_synonym time = int
type_synonym duration = int

abbreviation zero_time :: time where
  "zero_time \<equiv> 0"

definition Millisecond :: duration where "Millisecond = 1000000"
definition Second :: duration where "Second = 1000000000"
definition Minute :: duration where "Minute = 60000000000"
definition Hour :: duration where "Hour = 3600000000000"

lemmas duration_defs = Millisecond_def Second_def Minute_def Hour_def

definition max_int64 :: int where "max_int64 = 9223372036854775807"
definition min_int64 :: int where "min_int64 = - 9223372036854775808"

definition time_sub :: "time \<Rightarrow> time \<Rightarrow> duration" where
  "time_sub a b = max min_int64 (min max_int64 (a - b))"

text \<open>
  \<open>json.Marshal\<close> refuses an instant outside the years 0 to 9999: 366 days before Go's zero time to
  3652059 days after.
\<close>

definition nanos_per_day :: int where
  "nanos_per_day = 86400000000000"

definition time_json_ok :: "time \<Rightarrow> bool" where
  "time_json_ok t \<longleftrightarrow> - 366 * nanos_per_day \<le> t \<and> t < 3652059 * nanos_per_day"

lemma zero_time_ok [simp]: "time_json_ok zero_time"
  by (simp add: time_json_ok_def nanos_per_day_def)

section \<open>Integers of a fixed width\<close>

text \<open>\<open>int32(x)\<close> keeps the low 32 bits, read as two's complement.\<close>

definition to_int32 :: "int \<Rightarrow> int" where
  "to_int32 x = sint (word_of_int x :: 32 word)"

text \<open>Arithmetic on \<open>int\<close> and \<open>int64\<close> wraps around likewise.\<close>

definition to_int64 :: "int \<Rightarrow> int" where
  "to_int64 x = sint (word_of_int x :: 64 word)"

section \<open>Maps\<close>

text \<open>
  A Go map is an association list; \<open>range\<close> visits it in an order the program does not control,
  and every listing the sources make from one is sorted.
\<close>

type_synonym 'v gomap = "(string \<times> 'v) list"

definition gokeys :: "'v gomap \<Rightarrow> string list" where
  "gokeys m = map fst m"

definition gomap_ok :: "'v gomap \<Rightarrow> bool" where
  "gomap_ok m \<longleftrightarrow> distinct (map fst m)"

section \<open>Lemmas\<close>

lemma split_on_not_Nil [simp, go_string]: "split_on c s \<noteq> []"
  by (induction s) (auto split: list.splits)

lemma join_split_on [simp, go_string]: "join [c] (split_on c s) = s"
proof (induction s)
  case Nil
  show ?case by simp
next
  case (Cons x xs)
  obtain y ys where "split_on c xs = y # ys" by (cases "split_on c xs") auto
  with Cons show ?case by (cases ys) auto
qed

lemma split_on_append_sep:
  "c \<notin> set x \<Longrightarrow> split_on c (x @ c # s) = x # split_on c s"
  by (induction x) auto

lemma split_on_no_sep: "c \<notin> set x \<Longrightarrow> split_on c x = [x]"
  by (induction x) auto

lemma split_on_join [go_string]:
  "ps \<noteq> [] \<Longrightarrow> \<forall>p \<in> set ps. c \<notin> set p \<Longrightarrow> split_on c (join [c] ps) = ps"
proof (induction "[c]" ps rule: join.induct)
  case (3 x y ys)
  then show ?case by (simp add: split_on_append_sep)
qed (auto simp: split_on_no_sep)

lemma split_on_parts: "p \<in> set (split_on c s) \<Longrightarrow> c \<notin> set p"
proof (induction s arbitrary: p)
  case Nil
  then show ?case by simp
next
  case (Cons x xs)
  obtain y ys where y: "split_on c xs = y # ys" by (cases "split_on c xs") auto
  then have "c \<notin> set y" using Cons.IH by simp
  with y Cons show ?case by (auto split: if_splits)
qed

lemma set_join_subset: "set (join sep ps) \<subseteq> set sep \<union> (\<Union>p \<in> set ps. set p)"
  by (induction sep ps rule: join.induct) auto

lemma set_map_filter: "set (List.map_filter f xs) = {y. \<exists>x \<in> set xs. f x = Some y}"
  by (force simp: map_filter_def)

text \<open>Lower case leaves what is not a letter alone.\<close>

lemma of_char_lower: "(of_char (lower_char c) :: nat) =
    (if 65 \<le> (of_char c :: nat) \<and> (of_char c :: nat) \<le> 90 then of_char c + 32 else of_char c)"
  by (simp add: lower_char_def less_eq_char_def)

lemma lower_char_special [simp]:
  "lower_char c = CHR 0x5C \<longleftrightarrow> c = CHR 0x5C" "lower_char c = CHR 0x00 \<longleftrightarrow> c = CHR 0x00"
  "lower_char c = CHR ''%'' \<longleftrightarrow> c = CHR ''%''" "lower_char c = CHR ''.'' \<longleftrightarrow> c = CHR ''.''"
  by (subst (1 2) of_char_eq_iff [where ?'a = nat, symmetric], simp add: of_char_lower)+

lemmas special_lower_char [simp] = lower_char_special [THEN eq_iff_swap]

lemma Index_Some:
  "Index s sub = Some i \<Longrightarrow> prefix sub (drop i s) \<and> i + length sub \<le> length s"
proof (induction s arbitrary: i)
  case Nil
  then show ?case by (auto split: if_splits)
next
  case (Cons x xs)
  then show ?case by (auto split: if_splits dest: prefix_length_le)
qed

lemma Index_None: "Index s sub = None \<longleftrightarrow> \<not> sublist sub s"
  by (induction s) (auto simp: sublist_Cons_right)

text \<open>Decimal printing is injective: reading the digits back gives the number.\<close>

lemma dec_val_append1: "dec_val (s @ [c]) = 10 * dec_val s + (of_char c - 48)"
  by (simp add: dec_val_def)

lemma of_char_digit: "d < 10 \<Longrightarrow> of_char (digit_char d) = (48 + d :: nat)"
  by (simp add: digit_char_def)

lemma dec_val_nat_dec [simp]: "dec_val (nat_dec n) = n"
proof (induction n rule: nat_dec.induct)
  case (1 n)
  show ?case
  proof (cases "n < 10")
    case True
    then show ?thesis
      by (simp add: nat_dec.simps [of n] dec_val_def of_char_digit)
  next
    case False
    then have "of_char (digit_char (n mod 10)) = 48 + n mod 10"
      by (intro of_char_digit) simp
    with False 1 show ?thesis
      by (simp add: nat_dec.simps [of n] dec_val_append1)
  qed
qed

lemma nat_dec_inject [simp]: "nat_dec m = nat_dec n \<longleftrightarrow> m = n"
  by (metis dec_val_nat_dec)

lemma nat_dec_digits: "c \<in> set (nat_dec n) \<Longrightarrow> is_digit c"
proof (induction n rule: nat_dec.induct)
  case (1 n)
  have "is_digit (digit_char d)" if "d < 10" for d
    using that by (auto simp: is_digit_def less_eq_char_def of_char_digit)
  with 1 show ?case
    by (auto simp: nat_dec.simps [of n] split: if_splits)
qed

lemma nat_dec_not_Nil [simp]: "nat_dec n \<noteq> []"
  by (subst nat_dec.simps) simp

text \<open>Association lists as maps.\<close>

declare AList.update_conv' [go_map] AList.delete_conv' [go_map]

lemma gomap_ok_update [simp, go_map]: "gomap_ok m \<Longrightarrow> gomap_ok (AList.update k v m)"
  by (simp add: gomap_ok_def distinct_update)

lemma gomap_ok_delete [simp, go_map]: "gomap_ok m \<Longrightarrow> gomap_ok (AList.delete k m)"
  by (simp add: gomap_ok_def distinct_delete)

lemma gomap_ok_Nil [simp, go_map]: "gomap_ok []"
  by (simp add: gomap_ok_def)

lemma set_gokeys: "set (gokeys m) = dom (map_of m)"
  by (simp add: gokeys_def dom_map_of_conv_image_fst)

lemma distinct_gokeys: "gomap_ok m \<Longrightarrow> distinct (gokeys m)"
  by (simp add: gokeys_def gomap_ok_def)

lemma to_int32_id: "- (2 ^ 31) \<le> x \<Longrightarrow> x < 2 ^ 31 \<Longrightarrow> to_int32 x = x"
  by (simp add: to_int32_def signed_of_int signed_take_bit_int_eq_self)

lemma to_int32_range: "- (2 ^ 31) \<le> to_int32 x \<and> to_int32 x < 2 ^ 31"
  using sint_ge [of "word_of_int x :: 32 word"] sint_lt [of "word_of_int x :: 32 word"]
  by (simp add: to_int32_def)

lemma to_int64_id: "min_int64 \<le> x \<Longrightarrow> x \<le> max_int64 \<Longrightarrow> to_int64 x = x"
  by (simp add: to_int64_def signed_of_int signed_take_bit_int_eq_self min_int64_def max_int64_def)

lemma to_int64_range: "min_int64 \<le> to_int64 x \<and> to_int64 x \<le> max_int64"
  using sint_ge [of "word_of_int x :: 64 word"] sint_lt [of "word_of_int x :: 64 word"]
  by (simp add: to_int64_def min_int64_def max_int64_def)

text \<open>Two sorted lists without repetition that hold the same elements are equal.\<close>

lemma sorted_distinct_set_eq:
  "sorted xs \<Longrightarrow> distinct xs \<Longrightarrow> sorted ys \<Longrightarrow> distinct ys \<Longrightarrow> set xs = set ys \<Longrightarrow> xs = ys"
  by (rule sorted_distinct_set_unique)

end
