(* ===== verification/Apierror.thy ===== *)
theory Apierror
  imports Prelude
begin

text \<open>
  Package \<open>internal/apierror\<close>: one error value, rendered as a gRPC status and as a JSON body.
  Three things the package calls live outside the repository and are arguments of the definitions
  that use them: \<open>status.FromError\<close> of grpc-go (\<open>status_from\<close>, \<open>None\<close> for its "not a
  status" answer), the name of a canonical code (\<open>code_name\<close>, \<open>rpccode.Code.String\<close>) and
  \<open>protojson.Marshal\<close> of one detail (\<open>marshal_any\<close>, \<open>None\<close> when the detail's type is not
  linked). The theories of the services carry errors as their \<^emph>\<open>code\<close>: message texts matter
  only here.
\<close>

section \<open>Codes and errors\<close>

text \<open>\<open>codes.Code\<close> is an unsigned integer; the values outside google.rpc.Code are \<open>OtherCode\<close>.\<close>

datatype code =
    OK | Canceled | Unknown | InvalidArgument | DeadlineExceeded | NotFound | AlreadyExists
  | PermissionDenied | ResourceExhausted | FailedPrecondition | Aborted | OutOfRange
  | Unimplemented | Internal | Unavailable | DataLoss | Unauthenticated | OtherCode nat

text \<open>
  The \<open>error\<close> interface: a plain error, one wrapped by \<open>fmt.Errorf("...%w")\<close> (with its whole
  text), a gRPC status error, and \<open>*Error\<close>, whose fields are the code, the message, the reason,
  the cause and the details.
\<close>

datatype 'd go_error =
    Plain string
  | Wrapped string "'d go_error"
  | StatusErr code string "'d list"
  | ApiErr "'d api_error"
and 'd api_error =
    ApiError (err_code: code) (err_message: string) (err_reason: string)
      (err_cause: "'d go_error option") (err_details: "'d list")

text \<open>A gRPC status: code, message and details.\<close>

datatype 'd grpc_status = GStatus (st_code: code) (st_message: string) (st_details: "'d list")

section \<open>The HTTP status of a code\<close>

fun httpStatus :: "code \<Rightarrow> nat" where
  "httpStatus OK = 200"
| "httpStatus InvalidArgument = 400"
| "httpStatus FailedPrecondition = 400"
| "httpStatus OutOfRange = 400"
| "httpStatus Unauthenticated = 401"
| "httpStatus PermissionDenied = 403"
| "httpStatus NotFound = 404"
| "httpStatus AlreadyExists = 409"
| "httpStatus Aborted = 409"
| "httpStatus ResourceExhausted = 429"
| "httpStatus Canceled = 499"
| "httpStatus Unimplemented = 501"
| "httpStatus Unavailable = 503"
| "httpStatus DeadlineExceeded = 504"
| "httpStatus _ = 500"

definition HTTPStatus :: "'d api_error \<Rightarrow> nat" where
  "HTTPStatus e = httpStatus (err_code e)"

text \<open>
  \<open>GRPCStatus\<close>: \<open>status.New\<close> without details, \<open>status.FromProto\<close> with them; both keep the code
  and the message.
\<close>

definition GRPCStatus :: "'d api_error \<Rightarrow> 'd grpc_status" where
  "GRPCStatus e =
     (if err_details e = [] then GStatus (err_code e) (err_message e) []
      else GStatus (err_code e) (err_message e) (err_details e))"

section \<open>Constructors\<close>

definition new_NotFound :: "string \<Rightarrow> 'd api_error" where
  "new_NotFound msg = ApiError NotFound msg ''notFound'' None []"

definition new_AlreadyExists :: "string \<Rightarrow> 'd api_error" where
  "new_AlreadyExists msg = ApiError AlreadyExists msg ''alreadyExists'' None []"

definition new_InvalidArgument :: "string \<Rightarrow> 'd api_error" where
  "new_InvalidArgument msg = ApiError InvalidArgument msg ''invalid'' None []"

definition new_FailedPrecondition :: "string \<Rightarrow> 'd api_error" where
  "new_FailedPrecondition msg = ApiError FailedPrecondition msg ''conditionNotMet'' None []"

definition new_Aborted :: "string \<Rightarrow> 'd api_error" where
  "new_Aborted msg = ApiError Aborted msg ''aborted'' None []"

definition new_Unimplemented :: "string \<Rightarrow> 'd api_error" where
  "new_Unimplemented msg = ApiError Unimplemented msg ''notImplemented'' None []"

definition new_Internal :: "'d go_error \<Rightarrow> string \<Rightarrow> 'd api_error" where
  "new_Internal cause msg = ApiError Internal msg ''internalError'' (Some cause) []"

section \<open>Converting any error\<close>

text \<open>\<open>errors.As(err, &e)\<close> for \<open>*Error\<close>: the first one on the chain of wrapped errors.\<close>

fun as_api :: "'d go_error \<Rightarrow> 'd api_error option" where
  "as_api (ApiErr e) = Some e"
| "as_api (Wrapped _ e) = as_api e"
| "as_api _ = None"

text \<open>The map \<open>statusReasons\<close>; a code it lacks reads as the empty string.\<close>

definition statusReasons :: "code \<Rightarrow> string" where
  "statusReasons c =
     (case c of
        NotFound \<Rightarrow> ''notFound'' | AlreadyExists \<Rightarrow> ''alreadyExists''
      | InvalidArgument \<Rightarrow> ''invalid'' | FailedPrecondition \<Rightarrow> ''conditionNotMet''
      | Unimplemented \<Rightarrow> ''notImplemented'' | Aborted \<Rightarrow> ''aborted''
      | PermissionDenied \<Rightarrow> ''forbidden'' | Unauthenticated \<Rightarrow> ''unauthorized''
      | Unavailable \<Rightarrow> ''backendError'' | _ \<Rightarrow> [])"

text \<open>\<open>From(nil)\<close> is the nil \<open>*Error\<close>, here \<open>None\<close>.\<close>

definition From ::
  "('d go_error \<Rightarrow> 'd grpc_status option) \<Rightarrow> 'd go_error option \<Rightarrow> 'd api_error option" where
  "From status_from err =
     (case err of
        None \<Rightarrow> None
      | Some er \<Rightarrow>
          (case as_api er of
             Some e \<Rightarrow> Some e
           | None \<Rightarrow>
               (case status_from er of
                  Some st \<Rightarrow>
                    if st_code st \<noteq> Unknown
                    then Some (ApiError (st_code st) (st_message st) (statusReasons (st_code st))
                                 None (st_details st))
                    else Some (new_Internal er ''internal error'')
                | None \<Rightarrow> Some (new_Internal er ''internal error''))))"

text \<open>
  An \<open>error\<close> interface value has a dynamic type: the nil interface is \<open>NilIface\<close>, and a nil
  \<open>*Error\<close> stored in the interface is \<open>TypedNil\<close>, which does not compare equal to nil.
\<close>

datatype 'd iface = NilIface | TypedNil | IsErr "'d go_error"

definition iface_of_ptr :: "'d api_error option \<Rightarrow> 'd iface" where
  "iface_of_ptr p = (case p of None \<Rightarrow> TypedNil | Some e \<Rightarrow> IsErr (ApiErr e))"

definition Wrap ::
  "('d go_error \<Rightarrow> 'd grpc_status option) \<Rightarrow> 'd go_error option \<Rightarrow> 'd iface" where
  "Wrap status_from err =
     (case err of None \<Rightarrow> NilIface | Some er \<Rightarrow> iface_of_ptr (From status_from (Some er)))"

section \<open>The JSON bodies\<close>

record 'j status_error =
  se_code :: nat
  se_message :: string
  se_status :: string
  se_details :: "'j list"

record json_detail =
  jd_message :: string
  jd_domain :: string
  jd_reason :: string

record storage_error =
  so_code :: nat
  so_message :: string
  so_errors :: "json_detail list"

record 'b http_response =
  rs_content_type :: string
  rs_status :: nat
  rs_body :: 'b

definition statusBody ::
  "(code \<Rightarrow> string) \<Rightarrow> ('d \<Rightarrow> 'j option) \<Rightarrow> 'd api_error \<Rightarrow> 'j status_error" where
  "statusBody code_name marshal_any e =
     \<lparr>se_code = HTTPStatus e, se_message = err_message e, se_status = code_name (err_code e),
      se_details = List.map_filter marshal_any (err_details e)\<rparr>"

definition write_response :: "nat \<Rightarrow> 'b \<Rightarrow> 'b http_response" where
  "write_response c body =
     \<lparr>rs_content_type = ''application/json; charset=UTF-8'', rs_status = c, rs_body = body\<rparr>"

definition WriteJSON ::
  "('d go_error \<Rightarrow> 'd grpc_status option) \<Rightarrow> (code \<Rightarrow> string) \<Rightarrow> ('d \<Rightarrow> 'j option) \<Rightarrow> 'd go_error
     \<Rightarrow> 'j status_error http_response option" where
  "WriteJSON status_from code_name marshal_any err =
     map_option (\<lambda>e. write_response (HTTPStatus e) (statusBody code_name marshal_any e))
       (From status_from (Some err))"

definition WriteStorageJSON ::
  "('d go_error \<Rightarrow> 'd grpc_status option) \<Rightarrow> 'd go_error \<Rightarrow> storage_error http_response option" where
  "WriteStorageJSON status_from err =
     map_option
       (\<lambda>e. write_response (HTTPStatus e)
          \<lparr>so_code = HTTPStatus e, so_message = err_message e,
           so_errors = [\<lparr>jd_message = err_message e, jd_domain = ''global'',
                         jd_reason = err_reason e\<rparr>]\<rparr>)
       (From status_from (Some err))"

text \<open>What \<open>DecodeJSON\<close> reads back from either envelope: code, message and the first reason.\<close>

definition DecodeJSON :: "storage_error \<Rightarrow> nat \<times> string \<times> string" where
  "DecodeJSON body =
     (so_code body, so_message body,
      (case so_errors body of [] \<Rightarrow> [] | d # _ \<Rightarrow> jd_reason d))"

section \<open>Lemmas\<close>

lemma From_Some: "\<exists>e. From status_from (Some err) = Some e"
  by (auto simp: From_def split: option.splits)

lemma From_ApiErr [simp]: "From status_from (Some (ApiErr e)) = Some e"
  by (simp add: From_def)

lemma GRPCStatus_fields:
  "st_code (GRPCStatus e) = err_code e" "st_message (GRPCStatus e) = err_message e"
  "st_details (GRPCStatus e) = err_details e"
  by (simp_all add: GRPCStatus_def)

lemma httpStatus_200_iff: "httpStatus c = 200 \<longleftrightarrow> c = OK"
  by (cases c) auto

section \<open>Properties\<close>


text \<open>\<open>Wrap\<close> is safe at a return site and \<open>From\<close> is not. \<open>Wrap\<close> gives the nil interface
  exactly for a nil error, and it never gives a typed nil, the interface value that makes a success
  look like a failure; returning \<open>From(nil)\<close> through the interface does.
\<close>

theorem Wrap_nil_iff:
  "(Wrap status_from err = NilIface \<longleftrightarrow> err = None) \<and> Wrap status_from err \<noteq> TypedNil \<and>
   iface_of_ptr (From status_from None) = TypedNil"
proof -
  have "\<exists>e. From status_from (Some er) = Some e" for er
    by (rule From_Some)
  then show ?thesis
    by (auto simp: Wrap_def iface_of_ptr_def From_def split: option.splits)
qed

end
