(* ===== verification/Resource.thy ===== *)
theory Resource
  imports Prelude
begin

unbundle bit_operations_syntax

text \<open>
  Package \<open>internal/resource\<close>: the syntax of resource names. The regular expressions are
  recognisers here, and \<open>recognisers_are_the_regexps\<close> proves them equal to the languages the
  patterns denote. Every refusal of the parsers is \<open>ErrMalformed\<close>, here \<open>None\<close>.
\<close>

section \<open>The regular expressions\<close>

text \<open>\<open>projectRE\<close>: \<open>^[a-z][a-z0-9-]{4,28}[a-z0-9]$\<close>.\<close>

definition projectRE :: "string \<Rightarrow> bool" where
  "projectRE s \<longleftrightarrow>
     6 \<le> length s \<and> length s \<le> 30 \<and> is_lower (hd s) \<and>
     list_all (\<lambda>c. is_lower c \<or> is_digit c \<or> c = CHR ''-'') s \<and>
     (is_lower (last s) \<or> is_digit (last s))"

text \<open>\<open>locationRE\<close>: \<open>^[a-z]+(-[a-z0-9]+)*$\<close>.\<close>

definition locationRE :: "string \<Rightarrow> bool" where
  "locationRE s \<longleftrightarrow>
     (case split_on (CHR ''-'') s of
        [] \<Rightarrow> False
      | p # ps \<Rightarrow> p \<noteq> [] \<and> list_all is_lower p \<and>
          list_all (\<lambda>q. q \<noteq> [] \<and> list_all (\<lambda>c. is_lower c \<or> is_digit c) q) ps)"

text \<open>\<open>idRE\<close>: \<open>^[a-zA-Z0-9][a-zA-Z0-9._~%+-]{0,499}$\<close>.\<close>

definition id_char :: "char \<Rightarrow> bool" where
  "id_char c \<longleftrightarrow> is_alnum c \<or> c \<in> set ''._~%+-''"

definition idRE :: "string \<Rightarrow> bool" where
  "idRE s \<longleftrightarrow> s \<noteq> [] \<and> length s \<le> 500 \<and> is_alnum (hd s) \<and> list_all id_char s"

text \<open>\<open>logIDRE\<close>: \<open>^[A-Za-z0-9/_.-]{1,511}$\<close>.\<close>

definition logIDRE :: "string \<Rightarrow> bool" where
  "logIDRE s \<longleftrightarrow> s \<noteq> [] \<and> length s \<le> 511 \<and> list_all (\<lambda>c. is_alnum c \<or> c \<in> set ''/_.-'') s"

section \<open>Names\<close>

record name =
  Project :: string
  Location :: string
  Collection :: string
  ID :: string
  ParentCollection :: string
  ParentID :: string

definition bad_id_parts :: "string list" where
  "bad_id_parts = [''%2f'', ''%5c'', ''%2e%2e'', ''..'', [CHR 0x00]]"

definition ValidID :: "string \<Rightarrow> bool" where
  "ValidID s \<longleftrightarrow>
     \<not> (s = [] \<or> s = ''.'' \<or> s = ''..'') \<and>
     \<not> list_ex (\<lambda>c. c = CHR ''/'' \<or> c = CHR 0x5C) s \<and>
     list_all (\<lambda>bad. \<not> Contains (ToLower s) bad) bad_id_parts \<and>
     idRE s"

definition ValidProjectID :: "string \<Rightarrow> bool" where
  "ValidProjectID s = projectRE s"

definition ParseProject :: "string \<Rightarrow> string option" where
  "ParseProject nm =
     (case split_on (CHR ''/'') nm of
        [a, p] \<Rightarrow> if a = ''projects'' \<and> projectRE p then Some p else None
      | _ \<Rightarrow> None)"

text \<open>\<open>url.PathUnescape\<close>: \<open>%XX\<close> decoded, a malformed escape refused, \<open>+\<close> left alone.\<close>

definition is_hex :: "char \<Rightarrow> bool" where
  "is_hex c \<longleftrightarrow> is_digit c \<or> (CHR ''a'' \<le> c \<and> c \<le> CHR ''f'') \<or> (CHR ''A'' \<le> c \<and> c \<le> CHR ''F'')"

definition unhex :: "char \<Rightarrow> nat" where
  "unhex c = (if is_digit c then of_char c - 48
     else if CHR ''a'' \<le> c then of_char c - 87 else of_char c - 55)"

fun PathUnescape :: "string \<Rightarrow> string option" where
  "PathUnescape [] = Some []"
| "PathUnescape (c # cs) =
     (if c \<noteq> CHR ''%'' then map_option (Cons c) (PathUnescape cs)
      else (case cs of
              a # b # r \<Rightarrow> if is_hex a \<and> is_hex b
                then map_option (Cons (char_of (16 * unhex a + unhex b))) (PathUnescape r) else None
            | _ \<Rightarrow> None))"

definition ParseLogName :: "string \<Rightarrow> (string \<times> string) option" where
  "ParseLogName nm =
     (case split_on (CHR ''/'') (TrimPrefix nm ''/'') of
        [a, p, b, l] \<Rightarrow>
          if a \<noteq> ''projects'' \<or> b \<noteq> ''logs'' then None
          else if \<not> projectRE p then None
          else (case PathUnescape l of
                  None \<Rightarrow> None
                | Some i \<Rightarrow> if logIDRE i then Some (p, i) else None)
      | _ \<Rightarrow> None)"

definition ParseLocation :: "string \<Rightarrow> (string \<times> string) option" where
  "ParseLocation nm =
     (case split_on (CHR ''/'') nm of
        [a, p, b, l] \<Rightarrow>
          if a \<noteq> ''projects'' \<or> b \<noteq> ''locations'' then None
          else if \<not> projectRE p then None
          else if \<not> locationRE l then None
          else Some (p, l)
      | _ \<Rightarrow> None)"

definition Parse :: "string \<Rightarrow> name option" where
  "Parse nm =
     (let parts = split_on (CHR ''/'') nm in
      if length parts \<noteq> 6 \<and> length parts \<noteq> 8 then None
      else
        (case ParseLocation (join ''/'' (take 4 parts)) of
           None \<Rightarrow> None
         | Some (p, l) \<Rightarrow>
             if parts ! 4 = [] \<or> \<not> ValidID (parts ! 5) then None
             else
               let n = \<lparr>Project = p, Location = l, Collection = parts ! 4, ID = parts ! 5,
                        ParentCollection = [], ParentID = []\<rparr> in
               if length parts = 8 then
                 if parts ! 6 = [] \<or> \<not> ValidID (parts ! 7) then None
                 else Some (n\<lparr>ParentCollection := Collection n, ParentID := ID n,
                              Collection := parts ! 6, ID := parts ! 7\<rparr>)
               else Some n))"

definition LocationName :: "name \<Rightarrow> string" where
  "LocationName n = ''projects/'' @ Project n @ ''/locations/'' @ Location n"

definition Name_String :: "name \<Rightarrow> string" where
  "Name_String n =
     (let base = ''projects/'' @ Project n @ ''/locations/'' @ Location n in
      if ParentCollection n \<noteq> []
      then base @ ''/'' @ ParentCollection n @ ''/'' @ ParentID n @ ''/'' @ Collection n @ ''/'' @ ID n
      else base @ ''/'' @ Collection n @ ''/'' @ ID n)"

definition Key :: "name \<Rightarrow> string" where
  "Key n = Name_String n"

section \<open>Project numbers\<close>

text \<open>FNV-1a over the bytes of the ID, on 64-bit words, reduced to twelve digits.\<close>

definition fnv1a :: "string \<Rightarrow> 64 word" where
  "fnv1a s = foldl (\<lambda>h c. (h XOR of_nat (of_char c)) * 1099511628211) 14695981039346656037 s"

definition DerivedProjectNumber :: "string \<Rightarrow> int" where
  "DerivedProjectNumber s = uint (fnv1a s mod 900000000000) + 100000000000"

text \<open>The resolver is what \<open>SetProjectNumberResolver\<close> stored last, \<open>None\<close> for none.\<close>

definition ProjectNumber :: "(string \<Rightarrow> int option) option \<Rightarrow> string \<Rightarrow> int" where
  "ProjectNumber resolver s =
     (case resolver of
        Some fn \<Rightarrow> (case fn s of Some n \<Rightarrow> n | None \<Rightarrow> DerivedProjectNumber s)
      | None \<Rightarrow> DerivedProjectNumber s)"

definition SetProjectNumberResolver ::
  "(string \<Rightarrow> int option) option \<Rightarrow> (string \<Rightarrow> int option) option \<Rightarrow> (string \<Rightarrow> int option) option" where
  "SetProjectNumberResolver fn resolver = fn"

section \<open>Languages of the patterns\<close>

text \<open>The reference: what a pattern denotes, as a set of strings.\<close>

definition cls :: "(char \<Rightarrow> bool) \<Rightarrow> string set" where
  "cls P = {[c] | c. P c}"

definition conc :: "string set \<Rightarrow> string set \<Rightarrow> string set" where
  "conc A B = {a @ b | a b. a \<in> A \<and> b \<in> B}"

fun rep_n :: "nat \<Rightarrow> string set \<Rightarrow> string set" where
  "rep_n 0 A = {[]}"
| "rep_n (Suc n) A = conc A (rep_n n A)"

definition rep :: "nat \<Rightarrow> nat \<Rightarrow> string set \<Rightarrow> string set" where
  "rep m n A = (\<Union>i \<in> {m..n}. rep_n i A)"

definition lang_star :: "string set \<Rightarrow> string set" where
  "lang_star A = (\<Union>i. rep_n i A)"

definition lang_plus :: "string set \<Rightarrow> string set" where
  "lang_plus A = conc A (lang_star A)"

lemma conc_cls_left: "s \<in> conc (cls P) B \<longleftrightarrow> (\<exists>c t. s = c # t \<and> P c \<and> t \<in> B)"
proof
  assume "\<exists>c t. s = c # t \<and> P c \<and> t \<in> B"
  then obtain c t where "s = [c] @ t" "[c] \<in> cls P" "t \<in> B" by (auto simp: cls_def)
  then show "s \<in> conc (cls P) B" unfolding conc_def by blast
qed (auto simp: conc_def cls_def)

lemma conc_cls_right: "s \<in> conc A (cls P) \<longleftrightarrow> (\<exists>t c. s = t @ [c] \<and> t \<in> A \<and> P c)"
  by (auto simp: conc_def cls_def)

lemma rep_n_cls: "rep_n n (cls P) = {s. length s = n \<and> list_all P s}"
proof (induction n)
  case 0
  show ?case by auto
next
  case (Suc n)
  have "s \<in> rep_n (Suc n) (cls P) \<longleftrightarrow> length s = Suc n \<and> list_all P s" for s
    by (cases s) (auto simp: Suc conc_cls_left)
  then show ?case by blast
qed

lemma rep_cls: "rep m n (cls P) = {s. m \<le> length s \<and> length s \<le> n \<and> list_all P s}"
  by (auto simp: rep_def rep_n_cls)

lemma lstar_cls: "lang_star (cls P) = {s. list_all P s}"
  by (auto simp: lang_star_def rep_n_cls)

lemma lplus_cls: "lang_plus (cls P) = {s. s \<noteq> [] \<and> list_all P s}"
proof -
  have "s \<in> lang_plus (cls P) \<longleftrightarrow> s \<noteq> [] \<and> list_all P s" for s
    by (cases s) (auto simp: lang_plus_def lstar_cls conc_cls_left)
  then show ?thesis by blast
qed

abbreviation dash_char :: "char \<Rightarrow> bool" where
  "dash_char \<equiv> \<lambda>c. is_lower c \<or> is_digit c \<or> c = CHR ''-''"

abbreviation low_or_digit :: "char \<Rightarrow> bool" where
  "low_or_digit \<equiv> \<lambda>c. is_lower c \<or> is_digit c"

definition projectRE_lang :: "string set" where
  "projectRE_lang = conc (cls is_lower) (conc (rep 4 28 (cls dash_char)) (cls low_or_digit))"

definition locationRE_lang :: "string set" where
  "locationRE_lang = conc (lang_plus (cls is_lower)) (lang_star (conc {''-''} (lang_plus (cls low_or_digit))))"

definition idRE_lang :: "string set" where
  "idRE_lang = conc (cls is_alnum) (rep 0 499 (cls id_char))"

definition logIDRE_lang :: "string set" where
  "logIDRE_lang = rep 1 511 (cls (\<lambda>c. is_alnum c \<or> c \<in> set ''/_.-''))"

lemma projectRE_iff_lang: "projectRE s \<longleftrightarrow> s \<in> projectRE_lang"
proof
  assume s: "projectRE s"
  then obtain a t where at: "s = a # t" by (cases s) (auto simp: projectRE_def)
  with s obtain m z where mz: "t = m @ [z]"
    by (cases t rule: rev_cases) (auto simp: projectRE_def)
  with s at show "s \<in> projectRE_lang"
    by (simp add: projectRE_def projectRE_lang_def conc_cls_left conc_cls_right rep_cls)
next
  assume "s \<in> projectRE_lang"
  then show "projectRE s"
    by (auto simp: projectRE_def projectRE_lang_def conc_cls_left conc_cls_right rep_cls)
qed

lemma join_eq_concat: "join [d] (p # qs) = p @ concat (map (Cons d) qs)"
  by (induction qs arbitrary: p) auto

lemma conc_dash: "conc {[d]} (lang_plus (cls Q)) = {d # q | q. q \<noteq> [] \<and> list_all Q q}"
  by (auto simp: conc_def lplus_cls)

lemma rep_n_dashed:
  "t \<in> rep_n n {d # q | q. q \<noteq> [] \<and> list_all Q q} \<longleftrightarrow>
     (\<exists>qs. t = concat (map (Cons d) qs) \<and> length qs = n \<and>
           list_all (\<lambda>q. q \<noteq> [] \<and> list_all Q q) qs)"
proof (induction n arbitrary: t)
  case 0
  show ?case by auto
next
  case (Suc n)
  show ?case (is "?L \<longleftrightarrow> ?R")
  proof
    assume ?L
    then obtain q u where "t = (d # q) @ u" "q \<noteq> []" "list_all Q q"
      "u \<in> rep_n n {d # q | q. q \<noteq> [] \<and> list_all Q q}"
      by (auto simp: conc_def)
    moreover from this(4) Suc obtain qs where "u = concat (map (Cons d) qs)" "length qs = n"
      "list_all (\<lambda>q. q \<noteq> [] \<and> list_all Q q) qs"
      by blast
    ultimately show ?R by (intro exI [of _ "q # qs"]) simp
  next
    assume ?R
    then obtain q qs where "t = (d # q) @ concat (map (Cons d) qs)" "q \<noteq> []" "list_all Q q"
      "length qs = n" "list_all (\<lambda>q. q \<noteq> [] \<and> list_all Q q) qs"
      by (auto simp: length_Suc_conv)
    moreover from this(4,5) Suc
    have "concat (map (Cons d) qs) \<in> rep_n n {d # q | q. q \<noteq> [] \<and> list_all Q q}"
      by blast
    moreover from \<open>q \<noteq> []\<close> \<open>list_all Q q\<close>
    have "d # q \<in> {d # q | q. q \<noteq> [] \<and> list_all Q q}" by simp
    ultimately show ?L unfolding rep_n.simps conc_def by blast
  qed
qed

lemma locationRE_iff_lang: "locationRE s \<longleftrightarrow> s \<in> locationRE_lang"
proof -
  let ?d = "CHR ''-''"
  let ?good = "\<lambda>q. q \<noteq> [] \<and> list_all low_or_digit q"
  have nod: "?d \<notin> set q" if "list_all is_lower q \<or> list_all low_or_digit q" for q
    using that by (auto simp: list_all_iff char_class_defs)
  have "s \<in> locationRE_lang \<longleftrightarrow>
      (\<exists>p qs. s = p @ concat (map (Cons ?d) qs) \<and> p \<noteq> [] \<and> list_all is_lower p \<and> list_all ?good qs)"
    (is "_ \<longleftrightarrow> ?R")
  proof -
    have "t \<in> lang_star (conc {''-''} (lang_plus (cls low_or_digit))) \<longleftrightarrow>
        (\<exists>qs. t = concat (map (Cons ?d) qs) \<and> list_all ?good qs)" for t
      by (simp add: lang_star_def conc_dash rep_n_dashed)
    then show ?thesis
      unfolding locationRE_lang_def conc_def lplus_cls by blast
  qed
  also have "\<dots> \<longleftrightarrow>
      (\<exists>p qs. s = join [?d] (p # qs) \<and> p \<noteq> [] \<and> list_all is_lower p \<and> list_all ?good qs)"
    by (simp add: join_eq_concat)
  also have "\<dots> \<longleftrightarrow> locationRE s"
  proof
    assume "\<exists>p qs. s = join [?d] (p # qs) \<and> p \<noteq> [] \<and> list_all is_lower p \<and> list_all ?good qs"
    then obtain p qs where s: "s = join [?d] (p # qs)"
      and ok: "p \<noteq> []" "list_all is_lower p" "list_all ?good qs" by blast
    have "split_on ?d s = p # qs"
      unfolding s using ok nod by (intro split_on_join) (auto simp: list_all_iff)
    with ok show "locationRE s" by (simp add: locationRE_def)
  next
    assume "locationRE s"
    then obtain p qs where "split_on ?d s = p # qs" and ok: "p \<noteq> []" "list_all is_lower p"
      "list_all ?good qs"
      by (auto simp: locationRE_def split: list.splits)
    then have "s = join [?d] (p # qs)" by (metis join_split_on)
    with ok show "\<exists>p qs. s = join [?d] (p # qs) \<and> p \<noteq> [] \<and> list_all is_lower p \<and> list_all ?good qs"
      by blast
  qed
  finally show ?thesis by simp
qed

lemma idRE_iff_lang: "idRE s \<longleftrightarrow> s \<in> idRE_lang"
  by (cases s) (auto simp: idRE_def idRE_lang_def conc_cls_left rep_cls id_char_def)

lemma logIDRE_iff_lang: "logIDRE s \<longleftrightarrow> s \<in> logIDRE_lang"
  by (cases s) (auto simp: logIDRE_def logIDRE_lang_def rep_cls)

section \<open>Parsing and printing\<close>

definition name_parts :: "name \<Rightarrow> string list" where
  "name_parts n =
     [''projects'', Project n, ''locations'', Location n] @
     (if ParentCollection n \<noteq> [] then [ParentCollection n, ParentID n] else []) @
     [Collection n, ID n]"

text \<open>The names \<open>Parse\<close> can return: the well-formedness invariant of \<^typ>\<open>name\<close>.\<close>

definition name_ok :: "name \<Rightarrow> bool" where
  "name_ok n \<longleftrightarrow>
     projectRE (Project n) \<and> locationRE (Location n) \<and>
     Collection n \<noteq> [] \<and> CHR ''/'' \<notin> set (Collection n) \<and> ValidID (ID n) \<and>
     (if ParentCollection n = [] then ParentID n = []
      else CHR ''/'' \<notin> set (ParentCollection n) \<and> ValidID (ParentID n))"

lemma projectRE_no_slash: "projectRE p \<Longrightarrow> CHR ''/'' \<notin> set p"
  by (auto simp: projectRE_def list_all_iff char_class_defs)

lemma locationRE_no_slash:
  assumes "locationRE l"
  shows "CHR ''/'' \<notin> set l"
proof -
  obtain p ps where s: "split_on (CHR ''-'') l = p # ps" "list_all is_lower p"
    "list_all (\<lambda>q. q \<noteq> [] \<and> list_all low_or_digit q) ps"
    using assms by (auto simp: locationRE_def split: list.splits)
  have "set l \<subseteq> {CHR ''-''} \<union> (\<Union>q \<in> set (p # ps). set q)"
    using set_join_subset [of "''-''" "p # ps"] s(1) by (metis join_split_on list.set(1,2))
  moreover have "CHR ''/'' \<notin> set q" if "q \<in> set (p # ps)" for q
    using that s(2,3) by (fastforce simp: list_all_iff char_class_defs)
  ultimately show ?thesis by blast
qed

lemma ValidID_no_slash: "ValidID i \<Longrightarrow> CHR ''/'' \<notin> set i"
  by (auto simp: ValidID_def list_ex_iff)

lemmas no_slash = projectRE_no_slash locationRE_no_slash ValidID_no_slash

lemma Name_String_join: "Name_String n = join ''/'' (name_parts n)"
  by (simp add: Name_String_def name_parts_def)

lemma name_parts_no_slash: "name_ok n \<Longrightarrow> q \<in> set (name_parts n) \<Longrightarrow> CHR ''/'' \<notin> set q"
  by (auto simp: name_ok_def name_parts_def dest: no_slash split: if_splits)

lemma split_Name_String: "name_ok n \<Longrightarrow> split_on (CHR ''/'') (Name_String n) = name_parts n"
  unfolding Name_String_join
  by (intro split_on_join) (auto simp: name_parts_no_slash, simp add: name_parts_def)

lemma ParseLocation_parts:
  assumes "CHR ''/'' \<notin> set a" "CHR ''/'' \<notin> set p" "CHR ''/'' \<notin> set b" "CHR ''/'' \<notin> set l"
  shows "ParseLocation (join ''/'' [a, p, b, l]) =
    (if a = ''projects'' \<and> b = ''locations'' \<and> projectRE p \<and> locationRE l then Some (p, l) else None)"
proof -
  have "split_on (CHR ''/'') (join ''/'' [a, p, b, l]) = [a, p, b, l]"
    using assms by (intro split_on_join) auto
  then show ?thesis by (simp add: ParseLocation_def)
qed

lemma Parse_6:
  assumes "split_on (CHR ''/'') s = [a, p, b, l, c, i]"
  shows "Parse s =
    (if a = ''projects'' \<and> b = ''locations'' \<and> projectRE p \<and> locationRE l \<and> c \<noteq> [] \<and> ValidID i
     then Some \<lparr>Project = p, Location = l, Collection = c, ID = i, ParentCollection = [], ParentID = []\<rparr>
     else None)"
proof -
  have "CHR ''/'' \<notin> set q" if "q \<in> set [a, p, b, l, c, i]" for q
    using that assms split_on_parts [of q "CHR ''/''" s] by simp
  then have "ParseLocation (join ''/'' [a, p, b, l]) =
    (if a = ''projects'' \<and> b = ''locations'' \<and> projectRE p \<and> locationRE l then Some (p, l) else None)"
    by (intro ParseLocation_parts) auto
  with assms show ?thesis by (simp add: Parse_def)
qed

lemma Parse_8:
  assumes "split_on (CHR ''/'') s = [a, p, b, l, pc, pi, c, i]"
  shows "Parse s =
    (if a = ''projects'' \<and> b = ''locations'' \<and> projectRE p \<and> locationRE l \<and> pc \<noteq> [] \<and> ValidID pi
        \<and> c \<noteq> [] \<and> ValidID i
     then Some \<lparr>Project = p, Location = l, Collection = c, ID = i, ParentCollection = pc, ParentID = pi\<rparr>
     else None)"
proof -
  have "CHR ''/'' \<notin> set q" if "q \<in> set [a, p, b, l, pc, pi, c, i]" for q
    using that assms split_on_parts [of q "CHR ''/''" s] by simp
  then have "ParseLocation (join ''/'' [a, p, b, l]) =
    (if a = ''projects'' \<and> b = ''locations'' \<and> projectRE p \<and> locationRE l then Some (p, l) else None)"
    by (intro ParseLocation_parts) auto
  with assms show ?thesis by (simp add: Parse_def Let_def)
qed

lemma length_6: "length xs = 6 \<Longrightarrow> \<exists>a b c d e f. xs = [a, b, c, d, e, f]"
  by (simp add: eval_nat_numeral length_Suc_conv) blast

lemma length_8: "length xs = 8 \<Longrightarrow> \<exists>a b c d e f g h. xs = [a, b, c, d, e, f, g, h]"
  by (simp add: eval_nat_numeral length_Suc_conv) blast

lemma Parse_Some_length:
  assumes "Parse s = Some n"
  shows "(\<exists>a p b l c i. split_on (CHR ''/'') s = [a, p, b, l, c, i]) \<or>
    (\<exists>a p b l pc pi c i. split_on (CHR ''/'') s = [a, p, b, l, pc, pi, c, i])"
proof -
  have "length (split_on (CHR ''/'') s) = 6 \<or> length (split_on (CHR ''/'') s) = 8"
    using assms by (auto simp: Parse_def Let_def split: if_splits)
  then show ?thesis using length_6 length_8 by blast
qed

lemma Parse_name_ok:
  assumes "Parse s = Some n"
  shows "name_ok n \<and> Name_String n = s"
proof -
  have parts: "\<forall>q \<in> set xs. CHR ''/'' \<notin> set q" if "split_on (CHR ''/'') s = xs" for xs
    using that split_on_parts by blast
  have join: "join ''/'' xs = s" if "split_on (CHR ''/'') s = xs" for xs
    using that join_split_on by blast
  from Parse_Some_length [OF assms] show ?thesis
  proof (elim disjE exE)
    fix a p b l c i
    assume sp: "split_on (CHR ''/'') s = [a, p, b, l, c, i]"
    have "a = ''projects'' \<and> b = ''locations'' \<and> projectRE p \<and> locationRE l \<and> c \<noteq> [] \<and> ValidID i \<and>
        n = \<lparr>Project = p, Location = l, Collection = c, ID = i, ParentCollection = [], ParentID = []\<rparr>"
      using assms unfolding Parse_6 [OF sp] by (simp split: if_splits)
    with join [OF sp] parts [OF sp] show ?thesis
      by (simp add: Name_String_join name_parts_def name_ok_def)
  next
    fix a p b l pc pi c i
    assume sp: "split_on (CHR ''/'') s = [a, p, b, l, pc, pi, c, i]"
    have "a = ''projects'' \<and> b = ''locations'' \<and> projectRE p \<and> locationRE l \<and> pc \<noteq> [] \<and>
        ValidID pi \<and> c \<noteq> [] \<and> ValidID i \<and>
        n = \<lparr>Project = p, Location = l, Collection = c, ID = i, ParentCollection = pc, ParentID = pi\<rparr>"
      using assms unfolding Parse_8 [OF sp] by (simp split: if_splits)
    with join [OF sp] parts [OF sp] show ?thesis
      by (simp add: Name_String_join name_parts_def name_ok_def)
  qed
qed

lemma Parse_Name_String:
  assumes "name_ok n"
  shows "Parse (Name_String n) = Some n"
proof (cases "ParentCollection n = []")
  case True
  then have sp: "split_on (CHR ''/'') (Name_String n) =
      [''projects'', Project n, ''locations'', Location n, Collection n, ID n]"
    using split_Name_String [OF assms] by (simp add: name_parts_def)
  from assms True show ?thesis
    by (simp add: Parse_6 [OF sp] name_ok_def)
next
  case False
  then have sp: "split_on (CHR ''/'') (Name_String n) =
      [''projects'', Project n, ''locations'', Location n, ParentCollection n, ParentID n,
       Collection n, ID n]"
    using split_Name_String [OF assms] by (simp add: name_parts_def)
  from assms False show ?thesis
    by (simp add: Parse_8 [OF sp] name_ok_def)
qed

lemma fnv_mod_bound: "uint (h mod 900000000000 :: 64 word) < 900000000000"
proof -
  have "uint (h mod 900000000000 :: 64 word) = uint h mod 900000000000"
    by (simp add: uint_mod_distrib)
  then show ?thesis by simp
qed

text \<open>What evaluates \<open>Parse\<close> on a concrete string by rewriting.\<close>

lemmas parse_eval = Parse_def Let_def ParseLocation_def projectRE_def locationRE_def char_class_defs
  ValidID_def idRE_def id_char_def bad_id_parts_def ToLower_def lower_char_def sublist_code(3)

section \<open>Properties\<close>

text \<open>C30: The recognisers that stand for \<open>projectRE\<close>, \<open>locationRE\<close>, \<open>idRE\<close> and \<open>logIDRE\<close>
  accept exactly the languages the source's patterns denote (concatenation, bounded repetition,
  star and plus of character classes).
\<close>

theorem recognisers_are_the_regexps:
  "(projectRE s \<longleftrightarrow> s \<in> projectRE_lang) \<and> (locationRE s \<longleftrightarrow> s \<in> locationRE_lang) \<and>
   (idRE s \<longleftrightarrow> s \<in> idRE_lang) \<and> (logIDRE s \<longleftrightarrow> s \<in> logIDRE_lang)"
  by (simp add: projectRE_iff_lang locationRE_iff_lang idRE_iff_lang logIDRE_iff_lang)

text \<open>C31: \<open>Parse\<close> and \<open>String\<close> are inverse to each other. A string parses to \<open>n\<close> exactly when \<open>n\<close>
  is a well-formed name and the string is its canonical form; so parsing loses nothing, accepts no
  second spelling of a name, and accepts every well-formed name.
\<close>

theorem Parse_iff: "Parse s = Some n \<longleftrightarrow> name_ok n \<and> s = Name_String n"
  using Parse_name_ok Parse_Name_String by blast

text \<open>C32: Storage keys isolate projects and locations by construction: two parsed names with the same
  key agree in every field, so resources of different projects, locations, collections or parents
  never share a key.
\<close>

theorem Key_isolates:
  assumes "Parse s = Some m" "Parse t = Some n" "Key m = Key n"
  shows "s = t \<and> Project m = Project n \<and> Location m = Location n \<and> m = n"
proof -
  have m: "Parse (Key m) = Some m \<and> s = Key m"
    using Parse_name_ok [OF assms(1)] Parse_Name_String unfolding Key_def by metis
  have n: "Parse (Key n) = Some n \<and> t = Key n"
    using Parse_name_ok [OF assms(2)] Parse_Name_String unfolding Key_def by metis
  from m n have "m = n" unfolding assms(3) by (metis option.inject)
  with m n show ?thesis by metis
qed

theorem Key_isolates_witness:
  "\<exists>m. Parse ''projects/abc-123/locations/us-east1/queues/q'' = Some m \<and>
     Project m = ''abc-123'' \<and> Key m = ''projects/abc-123/locations/us-east1/queues/q''"
proof -
  let ?s = "''projects/abc-123/locations/us-east1/queues/q''"
  let ?n = "\<lparr>Project = ''abc-123'', Location = ''us-east1'', Collection = ''queues'', ID = ''q'',
             ParentCollection = [], ParentID = []\<rparr>"
  have p: "Parse ?s = Some ?n" by (simp add: parse_eval)
  from Key_isolates [OF p p refl] have "?s = ?s \<and> Project ?n = Project ?n" by blast
  with p show ?thesis by (simp add: Key_def Name_String_def)
qed

text \<open>A derived project number always has twelve digits, and \<open>ProjectNumber\<close> answers with the
  resolver's number exactly for the projects the resolver knows.
\<close>

theorem ProjectNumber_range:
  "100000000000 \<le> DerivedProjectNumber s \<and> DerivedProjectNumber s < 1000000000000 \<and>
   ProjectNumber None s = DerivedProjectNumber s \<and>
   ProjectNumber (Some fn) s = (case fn s of Some n \<Rightarrow> n | None \<Rightarrow> DerivedProjectNumber s)"
  using fnv_mod_bound [of "fnv1a s"]
  by (simp add: DerivedProjectNumber_def ProjectNumber_def)

text \<open>A segment that names a collection is not validated. \<open>Parse\<close> accepts \<open>..\<close> there, so the
  package comment's "parsing is strict" and the promise that \<open>..\<close> never survives parsing hold for
  resource IDs only.
\<close>

theorem Parse_accepts_dotdot_collection:
  "\<exists>n. Parse ''projects/abcdef/locations/us/../x'' = Some n \<and> Collection n = ''..'' \<and>
     Parse ''projects/abcdef/locations/us/queues/..'' = None"
proof -
  have "Parse ''projects/abcdef/locations/us/../x'' =
      Some \<lparr>Project = ''abcdef'', Location = ''us'', Collection = ''..'', ID = ''x'',
            ParentCollection = [], ParentID = []\<rparr>"
    by (simp add: parse_eval)
  moreover have "Parse ''projects/abcdef/locations/us/queues/..'' = None" by (simp add: parse_eval)
  ultimately show ?thesis by simp
qed

end
