(* ===== verification/KVStore.thy ===== *)
theory KVStore
  imports Prelude
begin

text \<open>
  Package \<open>internal/store\<close>, the interface \<open>Store\<close> and its in-memory implementation. A value is
  an opaque byte slice for the store, so the model is polymorphic in it. An operation that changes
  the store takes it and returns the result with the new store. The mutexes make every method one
  atomic step, and the copies \<open>append([]byte(nil), v...)\<close> make a returned or stored slice
  unaliased, so values are passed as they are.
\<close>

section \<open>Errors and writes\<close>

datatype store_err = ErrNotFound | ErrConflict | ErrLocked | ErrUnsafeKey | ErrIO

datatype 'v op = OpPut string 'v | OpDelete string

fun op_key :: "'v op \<Rightarrow> string" where
  "op_key (OpPut k v) = k"
| "op_key (OpDelete k) = k"

definition bad_key_parts :: "string list" where
  "bad_key_parts = [''..'', ''%2e%2e'', ''%2f'', ''%5c'', [CHR 0x00], [CHR 0x5C]]"

definition SafeKey :: "string \<Rightarrow> bool" where
  "SafeKey key \<longleftrightarrow>
     \<not> (key = [] \<or> HasPrefix key ''/'') \<and>
     list_all (\<lambda>bad. \<not> Contains (ToLower key) bad) bad_key_parts"

definition checkKey :: "string \<Rightarrow> store_err option" where
  "checkKey key = (if SafeKey key then None else Some ErrUnsafeKey)"

text \<open>The first error \<open>checkKey\<close> gives over a batch.\<close>

fun checkKeys :: "'v op list \<Rightarrow> store_err option" where
  "checkKeys [] = None"
| "checkKeys (o1 # os) = (case checkKey (op_key o1) of Some e \<Rightarrow> Some e | None \<Rightarrow> checkKeys os)"

fun apply_op :: "'v op \<Rightarrow> 'v gomap \<Rightarrow> 'v gomap" where
  "apply_op (OpPut k v) m = AList.update k v m"
| "apply_op (OpDelete k) m = AList.delete k m"

section \<open>The in-memory store\<close>

record 'v memory =
  mem_data :: "'v gomap"

definition NewMemory :: "'v memory" where
  "NewMemory = \<lparr>mem_data = []\<rparr>"

definition Memory_Get :: "'v memory \<Rightarrow> string \<Rightarrow> store_err + 'v" where
  "Memory_Get m key =
     (case checkKey key of
        Some e \<Rightarrow> Inl e
      | None \<Rightarrow> (case map_of (mem_data m) key of None \<Rightarrow> Inl ErrNotFound | Some v \<Rightarrow> Inr v))"

text \<open>\<open>List\<close> gathers the keys with the prefix in map order and sorts them.\<close>

definition Memory_List :: "'v memory \<Rightarrow> string \<Rightarrow> string list" where
  "Memory_List m pre = sort (filter (\<lambda>k. HasPrefix k pre) (gokeys (mem_data m)))"

definition Memory_Commit :: "'v memory \<Rightarrow> 'v op list \<Rightarrow> (store_err + unit) \<times> 'v memory" where
  "Memory_Commit m ops =
     (case checkKeys ops of
        Some e \<Rightarrow> (Inl e, m)
      | None \<Rightarrow> (Inr (), m\<lparr>mem_data := fold apply_op ops (mem_data m)\<rparr>))"

definition Memory_Put :: "'v memory \<Rightarrow> string \<Rightarrow> 'v \<Rightarrow> (store_err + unit) \<times> 'v memory" where
  "Memory_Put m key v = Memory_Commit m [OpPut key v]"

definition Memory_Delete :: "'v memory \<Rightarrow> string \<Rightarrow> (store_err + unit) \<times> 'v memory" where
  "Memory_Delete m key = Memory_Commit m [OpDelete key]"

definition Memory_Close :: "'v memory \<Rightarrow> (store_err + unit) \<times> 'v memory" where
  "Memory_Close m = (Inr (), m)"

section \<open>The abstract specification\<close>

text \<open>
  What the interface promises, over partial maps: a batch takes effect as a whole and in order.
\<close>

fun spec_op :: "'v op \<Rightarrow> (string \<rightharpoonup> 'v) \<Rightarrow> (string \<rightharpoonup> 'v)" where
  "spec_op (OpPut k v) f = f(k \<mapsto> v)"
| "spec_op (OpDelete k) f = f(k := None)"

abbreviation spec_ops :: "'v op list \<Rightarrow> (string \<rightharpoonup> 'v) \<Rightarrow> (string \<rightharpoonup> 'v)" where
  "spec_ops ops f \<equiv> fold spec_op ops f"

lemma checkKeys_None_iff: "checkKeys ops = None \<longleftrightarrow> list_all (\<lambda>x. SafeKey (op_key x)) ops"
  by (induction ops) (auto simp: checkKey_def split: option.splits)

lemma checkKeys_Some: "checkKeys ops = Some e \<Longrightarrow> e = ErrUnsafeKey"
  by (induction ops) (auto simp: checkKey_def split: option.splits if_splits)

lemma map_of_apply_op [simp]: "map_of (apply_op x m) = spec_op x (map_of m)"
  by (cases x) (auto simp: go_map)

lemma map_of_apply_ops: "map_of (fold apply_op ops m) = spec_ops ops (map_of m)"
  by (induction ops arbitrary: m) auto

lemma gomap_ok_apply_op [simp]: "gomap_ok m \<Longrightarrow> gomap_ok (apply_op x m)"
  by (cases x) auto

lemma gomap_ok_apply_ops: "gomap_ok m \<Longrightarrow> gomap_ok (fold apply_op ops m)"
  by (induction ops arbitrary: m) auto

text \<open>A listing, for any association list with distinct keys.\<close>

lemma sorted_listing:
  assumes "gomap_ok m"
  shows "sorted (sort (filter P (gokeys m))) \<and> distinct (sort (filter P (gokeys m))) \<and>
    set (sort (filter P (gokeys m))) = {k \<in> dom (map_of m). P k}"
  using assms by (auto simp: distinct_gokeys set_gokeys)

section \<open>The interface\<close>

text \<open>
  \<open>store.Store\<close> as its clients see it: \<open>view\<close> is the content as a partial map. A commit that
  succeeds has applied every write, one that fails has applied none, whatever the reason.
\<close>

locale metadata_store =
  fixes sget :: "'s \<Rightarrow> string \<Rightarrow> store_err + 'v"
    and slist :: "'s \<Rightarrow> string \<Rightarrow> string list"
    and scommit :: "'s \<Rightarrow> 'v op list \<Rightarrow> (store_err + unit) \<times> 's"
    and view :: "'s \<Rightarrow> string \<Rightarrow> 'v option"
    and inv :: "'s \<Rightarrow> bool"
  assumes sget_eq: "inv s \<Longrightarrow> sget s k =
      (if \<not> SafeKey k then Inl ErrUnsafeKey
       else case view s k of None \<Rightarrow> Inl ErrNotFound | Some v \<Rightarrow> Inr v)"
    and slist_eq: "inv s \<Longrightarrow> sorted (slist s p) \<and> distinct (slist s p) \<and>
      set (slist s p) = {k \<in> dom (view s). prefix p k}"
    and scommit_ok: "inv s \<Longrightarrow> scommit s ops = (Inr u, s') \<Longrightarrow>
      list_all (\<lambda>x. SafeKey (op_key x)) ops \<and> view s' = spec_ops ops (view s)"
    and scommit_err: "inv s \<Longrightarrow> scommit s ops = (Inl e, s') \<Longrightarrow> view s' = view s"
    and scommit_unsafe: "inv s \<Longrightarrow> \<not> list_all (\<lambda>x. SafeKey (op_key x)) ops \<Longrightarrow>
      scommit s ops = (Inl ErrUnsafeKey, s)"
    and scommit_inv: "inv s \<Longrightarrow> inv (snd (scommit s ops))"
begin

lemma commit_all_or_nothing:
  assumes "inv s" "scommit s ops = (r, s')"
  shows "inv s' \<and> (case r of
    Inr u \<Rightarrow> list_all (\<lambda>x. SafeKey (op_key x)) ops \<and> view s' = spec_ops ops (view s)
  | Inl e \<Rightarrow> view s' = view s)"
  using assms scommit_inv [of s ops] scommit_ok [of s ops _ s'] scommit_err [of s ops _ s']
  by (auto split: sum.splits)

lemma get_after_put:
  assumes "inv s" "scommit s [OpPut k v] = (Inr u, s')"
  shows "sget s' k = Inr v \<and> (k' \<noteq> k \<longrightarrow> sget s' k' = sget s k')"
proof -
  from assms have "inv s'" using scommit_inv [of s "[OpPut k v]"] by simp
  moreover from assms have "SafeKey k" "view s' = (view s)(k \<mapsto> v)"
    using scommit_ok by fastforce+
  ultimately show ?thesis using assms(1) by (simp add: sget_eq)
qed

lemma get_after_delete:
  assumes "inv s" "scommit s [OpDelete k] = (Inr u, s')"
  shows "sget s' k = Inl ErrNotFound \<and> (k' \<noteq> k \<longrightarrow> sget s' k' = sget s k')"
proof -
  from assms have "inv s'" using scommit_inv [of s "[OpDelete k]"] by simp
  moreover from assms have "SafeKey k" "view s' = (view s)(k := None)"
    using scommit_ok by fastforce+
  ultimately show ?thesis using assms(1) by (simp add: sget_eq)
qed

lemma get_after_failure:
  assumes "inv s" "scommit s ops = (Inl e, s')"
  shows "sget s' k = sget s k \<and> slist s' p = slist s p"
proof -
  from assms have "inv s'" using scommit_inv [of s ops] by simp
  moreover from assms have "view s' = view s" by (rule scommit_err)
  ultimately show ?thesis
    using assms(1) slist_eq [of s p] slist_eq [of s' p]
    by (auto simp: sget_eq intro: sorted_distinct_set_eq)
qed

lemma sget_Inr_iff: "inv s \<Longrightarrow> sget s k = Inr v \<longleftrightarrow> SafeKey k \<and> view s k = Some v"
  by (simp add: sget_eq split: option.splits)

lemma sget_Inl_iff: "inv s \<Longrightarrow> (\<exists>e. sget s k = Inl e) \<longleftrightarrow> \<not> SafeKey k \<or> view s k = None"
  by (simp add: sget_eq split: option.splits)

lemma slist_set: "inv s \<Longrightarrow> set (slist s p) = {k \<in> dom (view s). prefix p k}"
  by (simp add: slist_eq)

lemma slist_sorted: "inv s \<Longrightarrow> sorted (slist s p)"
  by (simp add: slist_eq)

lemma slist_distinct: "inv s \<Longrightarrow> distinct (slist s p)"
  by (simp add: slist_eq)

end

definition mem_view :: "'v memory \<Rightarrow> string \<Rightarrow> 'v option" where
  "mem_view m = map_of (mem_data m)"

definition mem_inv :: "'v memory \<Rightarrow> bool" where
  "mem_inv m \<longleftrightarrow> gomap_ok (mem_data m)"

interpretation mem: metadata_store Memory_Get Memory_List Memory_Commit mem_view mem_inv
proof
  fix s :: "'v memory" and k p :: string and ops :: "'v op list" and u e s'
  assume inv: "mem_inv s"
  show "Memory_Get s k =
      (if \<not> SafeKey k then Inl ErrUnsafeKey
       else case mem_view s k of None \<Rightarrow> Inl ErrNotFound | Some v \<Rightarrow> Inr v)"
    by (simp add: Memory_Get_def checkKey_def mem_view_def)
  show "sorted (Memory_List s p) \<and> distinct (Memory_List s p) \<and>
      set (Memory_List s p) = {k \<in> dom (mem_view s). prefix p k}"
    using inv sorted_listing [of "mem_data s"] by (simp add: Memory_List_def mem_inv_def mem_view_def)
  show "list_all (\<lambda>x. SafeKey (op_key x)) ops \<and> mem_view s' = spec_ops ops (mem_view s)"
    if "Memory_Commit s ops = (Inr u, s')"
    using that by (auto simp: Memory_Commit_def mem_view_def map_of_apply_ops checkKeys_None_iff
        split: option.splits)
  show "mem_view s' = mem_view s" if "Memory_Commit s ops = (Inl e, s')"
    using that by (auto simp: Memory_Commit_def split: option.splits)
  show "Memory_Commit s ops = (Inl ErrUnsafeKey, s)" if "\<not> list_all (\<lambda>x. SafeKey (op_key x)) ops"
    using that by (auto simp: Memory_Commit_def dest: checkKeys_Some simp flip: checkKeys_None_iff
        split: option.splits)
  show "mem_inv (snd (Memory_Commit s ops))"
    using inv by (simp add: Memory_Commit_def mem_inv_def gomap_ok_apply_ops split: option.splits)
qed

end
