(* ===== verification/GoJson.thy ===== *)
theory GoJson
  imports Prelude
begin

text \<open>
  What the sources use of Go's \<open>unicode/utf8\<close> and \<open>encoding/json\<close>: decoding of runes, the
  quoting of a string by \<open>json.Marshal\<close>, and the decoder, down to the value of every escape. A
  string comes back from JSON with the bytes that are not UTF-8 replaced by U+FFFD, and otherwise
  unchanged.
\<close>

section \<open>Runes\<close>

text \<open>
  The size of the UTF-8 encoding of one rune at the start of a byte string, 0 when there is none
  (\<open>utf8.DecodeRune\<close>), and a string with each byte that starts no rune replaced by the three
  bytes of U+FFFD.
\<close>

definition byte_in :: "nat \<Rightarrow> nat \<Rightarrow> string \<Rightarrow> nat \<Rightarrow> bool" where
  "byte_in lo hi s i \<longleftrightarrow> i < length s \<and> lo \<le> of_char (s ! i) \<and> of_char (s ! i) \<le> hi"

definition rune1 :: "string \<Rightarrow> bool" where
  "rune1 s \<longleftrightarrow> byte_in 0 0x7F s 0"

definition rune2 :: "string \<Rightarrow> bool" where
  "rune2 s \<longleftrightarrow> byte_in 0xC2 0xDF s 0 \<and> byte_in 0x80 0xBF s 1"

definition rune3 :: "string \<Rightarrow> bool" where
  "rune3 s \<longleftrightarrow>
     (byte_in 0xE0 0xE0 s 0 \<and> byte_in 0xA0 0xBF s 1 \<or>
      byte_in 0xED 0xED s 0 \<and> byte_in 0x80 0x9F s 1 \<or>
      (byte_in 0xE1 0xEC s 0 \<or> byte_in 0xEE 0xEF s 0) \<and> byte_in 0x80 0xBF s 1) \<and>
     byte_in 0x80 0xBF s 2"

definition rune4 :: "string \<Rightarrow> bool" where
  "rune4 s \<longleftrightarrow>
     (byte_in 0xF0 0xF0 s 0 \<and> byte_in 0x90 0xBF s 1 \<or>
      byte_in 0xF4 0xF4 s 0 \<and> byte_in 0x80 0x8F s 1 \<or>
      byte_in 0xF1 0xF3 s 0 \<and> byte_in 0x80 0xBF s 1) \<and>
     byte_in 0x80 0xBF s 2 \<and> byte_in 0x80 0xBF s 3"

definition rune_len :: "string \<Rightarrow> nat" where
  "rune_len s = (if rune1 s then 1 else if rune2 s then 2 else if rune3 s then 3 else if rune4 s then 4 else 0)"

lemmas rune_defs = rune1_def rune2_def rune3_def rune4_def

abbreviation replacement :: string where
  "replacement \<equiv> [CHR 0xEF, CHR 0xBF, CHR 0xBD]"

fun coerce_utf8 :: "string \<Rightarrow> string" where
  "coerce_utf8 [] = []"
| "coerce_utf8 (b # bs) =
     (case rune_len (b # bs) of
        0 \<Rightarrow> replacement @ coerce_utf8 bs
      | Suc n \<Rightarrow> b # take n bs @ coerce_utf8 (drop n bs))"

text \<open>A string that \<open>encoding/json\<close> writes and reads back unchanged.\<close>

definition utf8_key :: "string \<Rightarrow> bool" where
  "utf8_key k \<longleftrightarrow> coerce_utf8 k = k"

text \<open>\<open>utf8.AppendRune\<close> for a code point that is not a surrogate.\<close>

definition utf8_enc :: "nat \<Rightarrow> string" where
  "utf8_enc r =
     (if r < 0x80 then [char_of r]
      else if r < 0x800 then [char_of (0xC0 + r div 64), char_of (0x80 + r mod 64)]
      else if r < 0x10000 then
        [char_of (0xE0 + r div 4096), char_of (0x80 + r div 64 mod 64), char_of (0x80 + r mod 64)]
      else [char_of (0xF0 + r div 262144), char_of (0x80 + r div 4096 mod 64),
            char_of (0x80 + r div 64 mod 64), char_of (0x80 + r mod 64)])"

section \<open>Quoting\<close>

definition hex_char :: "nat \<Rightarrow> char" where
  "hex_char d = (if d < 10 then char_of (48 + d) else char_of (87 + d))"

definition hex_val :: "char \<Rightarrow> nat option" where
  "hex_val c =
     (let n = of_char c in
      if 48 \<le> n \<and> n \<le> 57 then Some (n - 48)
      else if 97 \<le> n \<and> n \<le> 102 then Some (n - 87)
      else if 65 \<le> n \<and> n \<le> 70 then Some (n - 55)
      else None)"

text \<open>How \<open>appendString\<close> writes one ASCII byte, with HTML characters escaped.\<close>

definition ascii_esc :: "char \<Rightarrow> string" where
  "ascii_esc c =
     (if c = CHR 0x22 \<or> c = CHR 0x5C then [CHR 0x5C, c]
      else if c = CHR 0x08 then [CHR 0x5C, CHR ''b'']
      else if c = CHR 0x0C then [CHR 0x5C, CHR ''f'']
      else if c = CHR 0x0A then [CHR 0x5C, CHR ''n'']
      else if c = CHR 0x0D then [CHR 0x5C, CHR ''r'']
      else if c = CHR 0x09 then [CHR 0x5C, CHR ''t'']
      else if of_char c < (32 :: nat) \<or> c \<in> set [CHR ''<'', CHR ''>'', CHR ''&''] then
        [CHR 0x5C, CHR ''u'', CHR ''0'', CHR ''0'', hex_char (of_char c div 16), hex_char (of_char c mod 16)]
      else [c])"

fun json_esc :: "string \<Rightarrow> string" where
  "json_esc [] = []"
| "json_esc (b # bs) =
     (if of_char b < (128 :: nat) then ascii_esc b @ json_esc bs
      else case rune_len (b # bs) of
             0 \<Rightarrow> CHR 0x5C # ''ufffd'' @ json_esc bs
           | Suc n \<Rightarrow>
               (if b # take n bs = [CHR 0xE2, CHR 0x80, CHR 0xA8] then CHR 0x5C # ''u2028''
                else if b # take n bs = [CHR 0xE2, CHR 0x80, CHR 0xA9] then CHR 0x5C # ''u2029''
                else b # take n bs) @ json_esc (drop n bs))"

definition json_quote :: "string \<Rightarrow> string" where
  "json_quote s = CHR 0x22 # json_esc s @ [CHR 0x22]"

section \<open>Unquoting\<close>

text \<open>\<open>getu4\<close>: the four hexadecimal digits after \<open>\u\<close>.\<close>

fun hex4 :: "string \<Rightarrow> (nat \<times> string) option" where
  "hex4 (a # b # c # d # s) =
     (case (hex_val a, hex_val b, hex_val c, hex_val d) of
        (Some w, Some x, Some y, Some z) \<Rightarrow> Some (4096 * w + 256 * x + 16 * y + z, s)
      | _ \<Rightarrow> None)"
| "hex4 _ = None"

definition is_surrogate :: "nat \<Rightarrow> bool" where
  "is_surrogate r \<longleftrightarrow> 0xD800 \<le> r \<and> r \<le> 0xDFFF"

text \<open>
  After \<open>\u\<close> with value \<open>r\<close>: a surrogate pair is one rune, a surrogate on its own is replaced.
\<close>

definition unicode_escape :: "nat \<Rightarrow> string \<Rightarrow> string \<times> string" where
  "unicode_escape r s =
     (if \<not> is_surrogate r then (utf8_enc r, s)
      else case s of
             b # u # s1 \<Rightarrow>
               (case (if b = CHR 0x5C \<and> u = CHR ''u'' then hex4 s1 else None) of
                  Some (r1, s2) \<Rightarrow>
                    if r \<le> 0xDBFF \<and> 0xDC00 \<le> r1 \<and> r1 \<le> 0xDFFF
                    then (utf8_enc ((r - 0xD800) * 1024 + (r1 - 0xDC00) + 0x10000), s2)
                    else (replacement, s)
                | None \<Rightarrow> (replacement, s))
           | _ \<Rightarrow> (replacement, s))"

definition simple_escape :: "char \<Rightarrow> char option" where
  "simple_escape c =
     (if c \<in> set [CHR 0x22, CHR 0x5C, CHR ''/''] then Some c
      else if c = CHR ''b'' then Some (CHR 0x08)
      else if c = CHR ''f'' then Some (CHR 0x0C)
      else if c = CHR ''n'' then Some (CHR 0x0A)
      else if c = CHR ''r'' then Some (CHR 0x0D)
      else if c = CHR ''t'' then Some (CHR 0x09)
      else None)"

text \<open>
  One step inside a string literal: the bytes it contributes and what follows; \<open>None\<close> for a
  control character or a bad escape. The closing quote is the caller's.
\<close>

fun unesc_step :: "string \<Rightarrow> (string \<times> string) option" where
  "unesc_step [] = None"
| "unesc_step (c # s) =
     (if c = CHR 0x5C then
        (case s of
           [] \<Rightarrow> None
         | e # s1 \<Rightarrow>
             if e = CHR ''u''
             then (case hex4 s1 of None \<Rightarrow> None | Some (r, s2) \<Rightarrow> Some (unicode_escape r s2))
             else (case simple_escape e of None \<Rightarrow> None | Some x \<Rightarrow> Some ([x], s1)))
      else if of_char c < (32 :: nat) then None
      else case rune_len (c # s) of
             0 \<Rightarrow> Some (replacement, s)
           | Suc n \<Rightarrow> Some (c # take n s, drop n s))"

lemma hex4_shorter: "hex4 s = Some (r, s') \<Longrightarrow> length s' < length s"
  by (induction s rule: hex4.induct) (auto split: option.splits)

lemma unicode_escape_shorter: "length (snd (unicode_escape r s)) \<le> length s"
  by (auto simp: unicode_escape_def split: list.splits option.splits dest!: hex4_shorter split: if_splits)

lemma unesc_step_shorter: "unesc_step s = Some (x, s') \<Longrightarrow> length s' < length s"
proof (induction s rule: unesc_step.induct)
  case (2 c s)
  have *: "length s' < Suc (length s1)" if "unicode_escape r s1 = (x, s')" for r s1
    using unicode_escape_shorter [of r s1] that by simp
  show ?case
    using 2 by (auto split: if_splits list.splits option.splits nat.splits dest!: hex4_shorter *)
qed simp

function unquote :: "string \<Rightarrow> (string \<times> string) option" where
  "unquote s =
     (case s of
        [] \<Rightarrow> None
      | c # s1 \<Rightarrow>
          if c = CHR 0x22 then Some ([], s1)
          else case unesc_step s of
                 None \<Rightarrow> None
               | Some (x, s2) \<Rightarrow>
                   (case unquote s2 of None \<Rightarrow> None | Some (y, s3) \<Rightarrow> Some (x @ y, s3)))"
  by pat_completeness auto
termination
  by (relation "measure length") (auto simp del: unesc_step.simps dest: unesc_step_shorter)

declare unquote.simps [simp del]

section \<open>A quoted string reads back\<close>

lemma byte_in_take:
  "i < n \<Longrightarrow> n \<le> length s \<Longrightarrow> byte_in lo hi (take n s @ t) i = byte_in lo hi s i"
  by (auto simp: byte_in_def nth_append)

lemma rune_take:
  "1 \<le> n \<Longrightarrow> n \<le> length s \<Longrightarrow> rune1 (take n s @ t) = rune1 s"
  "2 \<le> n \<Longrightarrow> n \<le> length s \<Longrightarrow> rune2 (take n s @ t) = rune2 s"
  "3 \<le> n \<Longrightarrow> n \<le> length s \<Longrightarrow> rune3 (take n s @ t) = rune3 s"
  "4 \<le> n \<Longrightarrow> n \<le> length s \<Longrightarrow> rune4 (take n s @ t) = rune4 s"
  by (simp_all add: rune_defs byte_in_take)

lemma rune_length:
  "rune1 s \<Longrightarrow> 1 \<le> length s" "rune2 s \<Longrightarrow> 2 \<le> length s" "rune3 s \<Longrightarrow> 3 \<le> length s"
  "rune4 s \<Longrightarrow> 4 \<le> length s"
  by (simp_all add: rune_defs byte_in_def Suc_le_eq)

text \<open>Whether a rune starts at a byte depends on the rune's own bytes only.\<close>

lemma rune_len_local:
  assumes "rune_len s = n" "0 < n"
  shows "n \<le> length s \<and> rune_len (take n s @ t) = n"
proof -
  consider "rune1 s" "n = 1" | "\<not> rune1 s" "rune2 s" "n = 2"
    | "\<not> rune1 s" "\<not> rune2 s" "rune3 s" "n = 3"
    | "\<not> rune1 s" "\<not> rune2 s" "\<not> rune3 s" "rune4 s" "n = 4"
    using assms unfolding rune_len_def by (metis less_numeral_extra(3))
  then show ?thesis
    by cases (use rune_length [of s] in \<open>simp_all only: rune_len_def rune_take, simp_all\<close>)
qed

lemma hex_val_hex_char [simp]: "d < 16 \<Longrightarrow> hex_val (hex_char d) = Some d"
  by (auto simp: hex_val_def hex_char_def Let_def)

lemma ascii_rune_len: "of_char b < (128 :: nat) \<Longrightarrow> rune_len (b # bs) = 1"
  by (simp add: rune_len_def rune1_def byte_in_def)

lemma unesc_step_hex:
  "of_char c < (128 :: nat) \<Longrightarrow>
   unesc_step (CHR 0x5C # CHR ''u'' # CHR ''0'' # CHR ''0'' # hex_char (of_char c div 16) #
     hex_char (of_char c mod 16) # t) = Some ([c], t)"
proof -
  assume c: "of_char c < (128 :: nat)"
  then have "of_char c div 16 < (16 :: nat)" by simp
  moreover have "hex_val (CHR ''0'') = Some 0" by (simp add: hex_val_def)
  moreover have "16 * (of_char c div 16) + of_char c mod 16 = (of_char c :: nat)" by simp
  ultimately show ?thesis
    using c by (simp add: unicode_escape_def is_surrogate_def utf8_enc_def)
qed

lemma unesc_step_ascii:
  assumes "of_char c < (128 :: nat)"
  shows "unesc_step (ascii_esc c @ t) = Some ([c], t)"
proof -
  consider "c \<in> {CHR 0x22, CHR 0x5C, CHR 0x08, CHR 0x0C, CHR 0x0A, CHR 0x0D, CHR 0x09}"
    | "c \<notin> {CHR 0x22, CHR 0x5C, CHR 0x08, CHR 0x0C, CHR 0x0A, CHR 0x0D, CHR 0x09}"
        "of_char c < (32 :: nat) \<or> c \<in> set [CHR ''<'', CHR ''>'', CHR ''&'']"
    | "c \<notin> {CHR 0x22, CHR 0x5C, CHR 0x08, CHR 0x0C, CHR 0x0A, CHR 0x0D, CHR 0x09}"
        "\<not> (of_char c < (32 :: nat) \<or> c \<in> set [CHR ''<'', CHR ''>'', CHR ''&''])"
    by blast
  then show ?thesis
  proof cases
    case 1
    then show ?thesis by (elim insertE) (simp_all add: ascii_esc_def simple_escape_def)
  next
    case 2
    then have "ascii_esc c = [CHR 0x5C, CHR ''u'', CHR ''0'', CHR ''0'', hex_char (of_char c div 16),
        hex_char (of_char c mod 16)]"
      unfolding ascii_esc_def by auto
    then show ?thesis using unesc_step_hex [OF assms, of t] by simp
  next
    case 3
    then have "ascii_esc c = [c]" unfolding ascii_esc_def by simp
    with 3 show ?thesis using ascii_rune_len [OF assms, of t] by simp
  qed
qed

lemma char_of_bytes:
  "char_of (239 :: nat) = CHR 0xEF" "char_of (191 :: nat) = CHR 0xBF" "char_of (189 :: nat) = CHR 0xBD"
  "char_of (226 :: nat) = CHR 0xE2" "char_of (128 :: nat) = CHR 0x80" "char_of (168 :: nat) = CHR 0xA8"
  "char_of (169 :: nat) = CHR 0xA9"
  by code_simp+

lemma unesc_step_ufffd: "unesc_step (CHR 0x5C # ''ufffd'' @ t) = Some (replacement, t)"
  by (simp add: hex_val_def unicode_escape_def is_surrogate_def utf8_enc_def char_of_bytes)

lemma unesc_step_u2028:
  "unesc_step (CHR 0x5C # ''u2028'' @ t) = Some ([CHR 0xE2, CHR 0x80, CHR 0xA8], t)"
  "unesc_step (CHR 0x5C # ''u2029'' @ t) = Some ([CHR 0xE2, CHR 0x80, CHR 0xA9], t)"
  by (simp_all add: hex_val_def unicode_escape_def is_surrogate_def utf8_enc_def char_of_bytes)

lemma unesc_step_rune:
  assumes "\<not> of_char b < (128 :: nat)" "rune_len (b # bs) = Suc n"
  shows "unesc_step (b # take n bs @ t) = Some (b # take n bs, t)"
proof -
  have "Suc n \<le> length (b # bs) \<and> rune_len (take (Suc n) (b # bs) @ t) = Suc n"
    using rune_len_local [OF assms(2)] by blast
  moreover have "b \<noteq> CHR 0x5C" using assms(1) by auto
  ultimately show ?thesis using assms(1) by simp
qed

lemma unquote_step:
  "unesc_step s = Some (x, t) \<Longrightarrow> hd s \<noteq> CHR 0x22 \<Longrightarrow> unquote t = Some (y, r) \<Longrightarrow>
   unquote s = Some (x @ y, r)"
  by (subst unquote.simps) (cases s, auto simp del: unesc_step.simps(2))

lemma unquote_json_esc: "unquote (json_esc s @ CHR 0x22 # r) = Some (coerce_utf8 s, r)"
proof (induction s rule: json_esc.induct)
  case 1
  show ?case by (simp add: unquote.simps)
next
  case (2 b bs)
  show ?case
  proof (cases "of_char b < (128 :: nat)")
    case True
    have "hd (ascii_esc b @ json_esc bs @ CHR 0x22 # r) \<noteq> CHR 0x22" by (simp add: ascii_esc_def)
    with True show ?thesis
      using unquote_step [OF unesc_step_ascii [OF True]] 2(1) by (simp add: ascii_rune_len)
  next
    case False
    then have q: "b \<noteq> CHR 0x22" by auto
    show ?thesis
    proof (cases "rune_len (b # bs)")
      case 0
      with False show ?thesis
        using unquote_step [OF unesc_step_ufffd] 2(2) by simp
    next
      case (Suc n)
      let ?t = "json_esc (drop n bs) @ CHR 0x22 # r"
      have IH: "unquote ?t = Some (coerce_utf8 (drop n bs), r)" using 2(3) [OF False Suc] .
      have "unesc_step ((if b # take n bs = [CHR 0xE2, CHR 0x80, CHR 0xA8] then CHR 0x5C # ''u2028''
                else if b # take n bs = [CHR 0xE2, CHR 0x80, CHR 0xA9] then CHR 0x5C # ''u2029''
                else b # take n bs) @ ?t) = Some (b # take n bs, ?t)"
        using unesc_step_rune [OF False Suc, of ?t] unesc_step_u2028 [of ?t]
        by (simp del: unesc_step.simps)
      from unquote_step [OF this _ IH] q False Suc show ?thesis by (simp del: unesc_step.simps)
    qed
  qed
qed

section \<open>Documents\<close>

datatype json =
    JNull
  | JBool bool
  | JNum string
  | JStr string
  | JArr "json list"
  | JObj "(string \<times> json) list"

definition skip_ws :: "string \<Rightarrow> string" where
  "skip_ws = dropWhile (\<lambda>c. c \<in> set [CHR '' '', CHR 0x09, CHR 0x0A, CHR 0x0D])"

text \<open>The number at the start of the input, greedily, as its text.\<close>

definition scan_digits :: "string \<Rightarrow> (string \<times> string) option" where
  "scan_digits s =
     (let ds = takeWhile is_digit s in if ds = [] then None else Some (ds, dropWhile is_digit s))"

definition scan_int :: "string \<Rightarrow> (string \<times> string) option" where
  "scan_int s =
     (case s of
        [] \<Rightarrow> None
      | c # r \<Rightarrow> if c = CHR ''0'' then Some ([c], r) else scan_digits s)"

definition scan_frac :: "string \<Rightarrow> (string \<times> string) option" where
  "scan_frac s =
     (case s of
        c # r \<Rightarrow>
          if c = CHR ''.'' then map_option (apfst (Cons c)) (scan_digits r) else Some ([], s)
      | [] \<Rightarrow> Some ([], s))"

definition scan_exp :: "string \<Rightarrow> (string \<times> string) option" where
  "scan_exp s =
     (case s of
        c # r \<Rightarrow>
          if c = CHR ''e'' \<or> c = CHR ''E'' then
            (case r of
               [] \<Rightarrow> None
             | g # r' \<Rightarrow>
                 if g = CHR ''+'' \<or> g = CHR ''-''
                 then map_option (apfst (\<lambda>ds. c # g # ds)) (scan_digits r')
                 else map_option (apfst (Cons c)) (scan_digits r))
          else Some ([], s)
      | [] \<Rightarrow> Some ([], s))"

definition scan_number :: "string \<Rightarrow> (string \<times> string) option" where
  "scan_number s =
     (let (sign, s0) = (if s \<noteq> [] \<and> hd s = CHR ''-'' then ([CHR ''-''], tl s) else ([], s)) in
      case scan_int s0 of
        None \<Rightarrow> None
      | Some (i, s1) \<Rightarrow>
          (case scan_frac s1 of
             None \<Rightarrow> None
           | Some (f, s2) \<Rightarrow>
               (case scan_exp s2 of None \<Rightarrow> None | Some (e, s3) \<Rightarrow> Some (sign @ i @ f @ e, s3))))"

lemma length_skip_ws: "length (skip_ws s) \<le> length s"
  by (simp add: skip_ws_def length_dropWhile_le)

text \<open>
  A value at the start of the input, with the nesting still allowed; the elements of an array after
  its bracket, and the members of an object after its brace, up to and including the closing one.
  Every value takes at least one byte, so the guards on lengths never fail; they are what
  termination rests on.
\<close>

function parse_value :: "nat \<Rightarrow> string \<Rightarrow> (json \<times> string) option"
  and parse_elems :: "nat \<Rightarrow> string \<Rightarrow> (json list \<times> string) option"
  and parse_members :: "nat \<Rightarrow> string \<Rightarrow> ((string \<times> json) list \<times> string) option" where
  "parse_value d s =
     (case s of
        [] \<Rightarrow> None
      | c # r \<Rightarrow>
          if HasPrefix s ''null'' then Some (JNull, drop 4 s)
          else if HasPrefix s ''true'' then Some (JBool True, drop 4 s)
          else if HasPrefix s ''false'' then Some (JBool False, drop 5 s)
          else if c = CHR 0x22 then map_option (apfst JStr) (unquote r)
          else if c = CHR 0x5B then
            (if d = 0 then None
             else if HasPrefix (skip_ws r) [CHR 0x5D] then Some (JArr [], tl (skip_ws r))
             else map_option (apfst JArr) (parse_elems (d - 1) r))
          else if c = CHR 0x7B then
            (if d = 0 then None
             else if HasPrefix (skip_ws r) [CHR 0x7D] then Some (JObj [], tl (skip_ws r))
             else map_option (apfst JObj) (parse_members (d - 1) r))
          else map_option (apfst JNum) (scan_number s))"
| "parse_elems d s =
     (case parse_value d (skip_ws s) of
        None \<Rightarrow> None
      | Some (v, r) \<Rightarrow>
          (case skip_ws r of
             [] \<Rightarrow> None
           | c # r' \<Rightarrow>
               if c = CHR 0x5D then Some ([v], r')
               else if c = CHR '','' \<and> length r' < length s
               then map_option (apfst (Cons v)) (parse_elems d r')
               else None))"
| "parse_members d s =
     (case skip_ws s of
        [] \<Rightarrow> None
      | q # s1 \<Rightarrow>
          if q \<noteq> CHR 0x22 then None
          else case unquote s1 of
            None \<Rightarrow> None
          | Some (k, s2) \<Rightarrow>
              (case skip_ws s2 of
                 [] \<Rightarrow> None
               | c # s3 \<Rightarrow>
                   if c = CHR '':'' \<and> length s3 < length s then
                     (case parse_value d (skip_ws s3) of
                        None \<Rightarrow> None
                      | Some (v, r) \<Rightarrow>
                          (case skip_ws r of
                             [] \<Rightarrow> None
                           | c # r' \<Rightarrow>
                               if c = CHR 0x7D then Some ([(k, v)], r')
                               else if c = CHR '','' \<and> length r' < length s
                               then map_option (apfst (Cons (k, v))) (parse_members d r')
                               else None))
                   else None))"
  by pat_completeness auto

termination
  by (relation "measures [\<lambda>x. case x of Inl (d, s) \<Rightarrow> length s | Inr (Inl (d, s)) \<Rightarrow> length s
        | Inr (Inr (d, s)) \<Rightarrow> length s,
      \<lambda>x. case x of Inl _ \<Rightarrow> 0 | Inr _ \<Rightarrow> 1]")
    (auto simp: length_skip_ws le_imp_less_or_eq intro: le_neq_trans le_less_trans [OF length_skip_ws])

declare parse_value.simps [simp del] parse_elems.simps [simp del] parse_members.simps [simp del]

text \<open>\<open>json.Unmarshal\<close>'s view of its input: one value and nothing after it.\<close>

definition maxNestingDepth :: nat where
  "maxNestingDepth = 10000"

definition parse_json :: "string \<Rightarrow> json option" where
  "parse_json s =
     (case parse_value maxNestingDepth (skip_ws s) of
        None \<Rightarrow> None
      | Some (j, r) \<Rightarrow> if skip_ws r = [] then Some j else None)"

end
