(* ===== verification/Durable.thy ===== *)
theory Durable
  imports KVStore GoJson
begin

text \<open>
  Package \<open>internal/store\<close>, the durable implementation: a data directory with a lock file and one
  JSON file that \<open>flush\<close> replaces by writing a temporary file, syncing it and renaming it. The
  disk is modelled down to whether a file's bytes were synced, so that a power loss can be placed
  between any two system calls; a completed rename is atomic and takes effect at once. Which system
  call fails is the environment's choice, an argument or a field of the environment record.
  \<open>Durable\<close>'s \<open>lock\<close> field, set from \<open>OpenDurable\<close> to the first \<open>Close\<close>, is the
  argument \<open>lock_held\<close> of \<open>Durable_Close\<close>.
\<close>

section \<open>The disk\<close>

text \<open>The bytes of a file: the JSON of a map, or bytes \<open>json.Unmarshal\<close> refuses.\<close>

datatype 'v content = JsonMap "'v gomap" | Unparsable

datatype 'v dfile = File (file_content: "'v content") (file_synced: bool)

text \<open>\<open>metadata.json\<close> and the temporary file of the flush in progress.\<close>

record 'v disk =
  metaf :: "'v dfile option"
  tmpf :: "'v dfile option"

text \<open>After a power loss a file that was not synced holds bytes nothing can rely on.\<close>

definition lose_unsynced :: "'v dfile \<Rightarrow> 'v dfile" where
  "lose_unsynced f = (if file_synced f then f else File Unparsable True)"

definition power_loss :: "'v disk \<Rightarrow> 'v disk" where
  "power_loss d = \<lparr>metaf = map_option lose_unsynced (metaf d), tmpf = map_option lose_unsynced (tmpf d)\<rparr>"

section \<open>The JSON of a map\<close>

text \<open>
  \<open>json.Unmarshal\<close> of \<open>json.Marshal\<close> of a map: the entries are written in the order of their
  keys, and of two that read back under one key the later stays. The values, base64 text in the
  file, come back as they were.
\<close>

definition json_map :: "'v gomap \<Rightarrow> 'v gomap" where
  "json_map m =
     fold (\<lambda>k acc. AList.update (coerce_utf8 k) (the (map_of m k)) acc) (sort (gokeys m)) []"

section \<open>Reading and replacing the metadata\<close>

definition load :: "bool \<Rightarrow> 'v disk \<Rightarrow> store_err + 'v gomap" where
  "load read_fails d =
     (if read_fails then Inl ErrIO
      else case metaf d of
             None \<Rightarrow> Inr []
           | Some f \<Rightarrow> (case file_content f of JsonMap m \<Rightarrow> Inr m | Unparsable \<Rightarrow> Inl ErrIO))"

text \<open>The system call of \<open>flush\<close> that fails, if one does.\<close>

datatype flush_call = CreateTemp | WriteTemp | SyncTemp | CloseTemp | RenameTemp

text \<open>
  \<open>flush\<close>: its result and the disk before each call, the last state being the one it leaves.
  The deferred \<open>os.Remove\<close> of the temporary name runs on every path after \<open>CreateTemp\<close>; after
  the rename there is nothing left to remove.
\<close>

definition flush ::
  "flush_call option \<Rightarrow> 'v gomap \<Rightarrow> 'v disk \<Rightarrow> (store_err + unit) \<times> 'v disk list" where
  "flush fault data d =
     (if fault = Some CreateTemp then (Inl ErrIO, [d])
      else let d1 = d\<lparr>tmpf := Some (File Unparsable False)\<rparr> in
      if fault = Some WriteTemp then (Inl ErrIO, [d, d1, d1\<lparr>tmpf := None\<rparr>])
      else let d2 = d1\<lparr>tmpf := Some (File (JsonMap (json_map data)) False)\<rparr> in
      if fault = Some SyncTemp then (Inl ErrIO, [d, d1, d2, d2\<lparr>tmpf := None\<rparr>])
      else let d3 = d2\<lparr>tmpf := Some (File (JsonMap (json_map data)) True)\<rparr> in
      if fault = Some CloseTemp then (Inl ErrIO, [d, d1, d2, d3, d3\<lparr>tmpf := None\<rparr>])
      else if fault = Some RenameTemp then (Inl ErrIO, [d, d1, d2, d3, d3\<lparr>tmpf := None\<rparr>])
      else (Inr (), [d, d1, d2, d3, d3\<lparr>metaf := tmpf d3, tmpf := None\<rparr>]))"

section \<open>The store\<close>

text \<open>
  \<open>dur_faults\<close> is the environment's schedule: the failure of each coming flush, none when the
  list has run out.
\<close>

record 'v durable =
  dur_data :: "'v gomap"
  dur_disk :: "'v disk"
  dur_faults :: "flush_call option list"

definition next_fault :: "'v durable \<Rightarrow> flush_call option" where
  "next_fault d = (case dur_faults d of [] \<Rightarrow> None | f # _ \<Rightarrow> f)"

definition Durable_Get :: "'v durable \<Rightarrow> string \<Rightarrow> store_err + 'v" where
  "Durable_Get d key =
     (case checkKey key of
        Some e \<Rightarrow> Inl e
      | None \<Rightarrow> (case map_of (dur_data d) key of None \<Rightarrow> Inl ErrNotFound | Some v \<Rightarrow> Inr v))"

definition Durable_List :: "'v durable \<Rightarrow> string \<Rightarrow> string list" where
  "Durable_List d pre = sort (filter (\<lambda>k. HasPrefix k pre) (gokeys (dur_data d)))"

definition Durable_Commit :: "'v durable \<Rightarrow> 'v op list \<Rightarrow> (store_err + unit) \<times> 'v durable" where
  "Durable_Commit d ops =
     (case checkKeys ops of
        Some e \<Rightarrow> (Inl e, d)
      | None \<Rightarrow>
          (let staged = fold apply_op ops (dur_data d);
               prev = dur_data d;
               (r, disks) = flush (next_fault d) staged (dur_disk d);
               d' = d\<lparr>dur_disk := last disks, dur_faults := drop 1 (dur_faults d)\<rparr>
           in case r of
                Inl _ \<Rightarrow> (Inl ErrIO, d'\<lparr>dur_data := prev\<rparr>)
              | Inr _ \<Rightarrow> (Inr (), d'\<lparr>dur_data := staged\<rparr>)))"

definition Durable_Put :: "'v durable \<Rightarrow> string \<Rightarrow> 'v \<Rightarrow> (store_err + unit) \<times> 'v durable" where
  "Durable_Put d key v = Durable_Commit d [OpPut key v]"

definition Durable_Delete :: "'v durable \<Rightarrow> string \<Rightarrow> (store_err + unit) \<times> 'v durable" where
  "Durable_Delete d key = Durable_Commit d [OpDelete key]"

section \<open>Owning the directory\<close>

datatype sig_result = SigDelivered | SigPermission | SigNoProcess

record open_env =
  env_pid :: int
  env_signal :: "int \<Rightarrow> sig_result"
  env_mkdir_fails :: bool
  env_create_fails :: bool
  env_lock_unreadable :: bool
  env_remove_fails :: bool
  env_pid_write_fails :: bool
  env_read_fails :: bool

text \<open>The data directory: the bytes of \<open>owner.lock\<close>, if it exists, and the disk.\<close>

record 'v datadir =
  lockf :: "string option"
  dir_disk :: "'v disk"

definition lockIsLive :: "open_env \<Rightarrow> string \<Rightarrow> bool" where
  "lockIsLive env bytes =
     (if env_lock_unreadable env then True
      else case Atoi (TrimSpace bytes) of
             None \<Rightarrow> True
           | Some pid \<Rightarrow>
               if pid \<le> 0 then True
               else if pid = env_pid env then True
               else env_signal env pid \<noteq> SigNoProcess)"

text \<open>\<open>os.OpenFile\<close> with \<open>O_CREATE|O_EXCL\<close>: \<open>None\<close> when the file exists already.\<close>

definition open_excl :: "'v datadir \<Rightarrow> 'v datadir option" where
  "open_excl dir = (case lockf dir of None \<Rightarrow> Some (dir\<lparr>lockf := Some []\<rparr>) | Some _ \<Rightarrow> None)"

definition claim :: "open_env \<Rightarrow> 'v datadir \<Rightarrow> (store_err + unit) \<times> 'v datadir" where
  "claim env dir =
     (if env_create_fails env then (Inl ErrIO, dir)
      else case open_excl dir of
             Some dir' \<Rightarrow> (Inr (), dir')
           | None \<Rightarrow>
               (case lockf dir of
                  Some bytes \<Rightarrow>
                    if lockIsLive env bytes then (Inl ErrLocked, dir)
                    else
                      (let dir1 = (if env_remove_fails env then dir else dir\<lparr>lockf := None\<rparr>) in
                       case open_excl dir1 of
                         Some dir2 \<Rightarrow> (Inr (), dir2)
                       | None \<Rightarrow> (Inl ErrLocked, dir1))
                | None \<Rightarrow> (Inl ErrLocked, dir)))"

text \<open>\<open>Close\<close> releases the directory; a second call finds no lock and does nothing.\<close>

definition Durable_Close ::
  "bool \<Rightarrow> bool \<Rightarrow> bool \<Rightarrow> 'v datadir \<Rightarrow> (store_err + unit) \<times> bool \<times> 'v datadir" where
  "Durable_Close close_fails remove_fails lock_held dir =
     (if \<not> lock_held then (Inr (), False, dir)
      else let rm_err = (remove_fails \<or> lockf dir = None) in
        (if close_fails \<or> rm_err then Inl ErrIO else Inr (),
         False,
         if rm_err then dir else dir\<lparr>lockf := None\<rparr>))"

definition OpenDurable ::
  "open_env \<Rightarrow> flush_call option list \<Rightarrow> 'v datadir \<Rightarrow> (store_err + 'v durable) \<times> 'v datadir" where
  "OpenDurable env faults dir =
     (if env_mkdir_fails env then (Inl ErrIO, dir)
      else case claim env dir of
             (Inl e, dir1) \<Rightarrow> (Inl e, dir1)
           | (Inr _, dir1) \<Rightarrow>
               if env_pid_write_fails env then (Inl ErrIO, dir1)
               else
                 let dir2 = dir1\<lparr>lockf := Some (int_dec (env_pid env) @ [CHR 0x0A])\<rparr> in
                 case load (env_read_fails env) (dir_disk dir2) of
                   Inl e \<Rightarrow> (Inl e, snd (snd (Durable_Close False (env_remove_fails env) True dir2)))
                 | Inr m \<Rightarrow> (Inr \<lparr>dur_data = m, dur_disk = dir_disk dir2, dur_faults = faults\<rparr>, dir2))"

section \<open>Refinement of the interface\<close>

definition dur_view :: "'v durable \<Rightarrow> string \<Rightarrow> 'v option" where
  "dur_view d = map_of (dur_data d)"

definition dur_inv :: "'v durable \<Rightarrow> bool" where
  "dur_inv d \<longleftrightarrow> gomap_ok (dur_data d) \<and> tmpf (dur_disk d) = None"

lemma flush_result:
  "fst (flush fault data d) = (if fault = None then Inr () else Inl ErrIO)"
  by (cases fault; cases "the fault") (auto simp: flush_def Let_def)

lemma flush_last:
  "tmpf d = None \<Longrightarrow>
   last (snd (flush fault data d)) =
     (if fault = None then \<lparr>metaf = Some (File (JsonMap (json_map data)) True), tmpf = None\<rparr> else d)"
  by (cases fault; cases "the fault") (auto simp: flush_def Let_def)

text \<open>At every point of a flush the metadata file is the old one or the new one, never a mixture.\<close>

lemma flush_states:
  assumes "x \<in> set (snd (flush fault data d))"
  shows "metaf x = metaf d \<or> metaf x = Some (File (JsonMap (json_map data)) True)"
  using assms by (cases fault; cases "the fault") (auto simp: flush_def Let_def)

lemma Durable_Commit_eq:
  assumes "dur_inv d"
  shows "Durable_Commit d ops =
    (case checkKeys ops of
       Some e \<Rightarrow> (Inl e, d)
     | None \<Rightarrow>
         if next_fault d = None
         then (Inr (), \<lparr>dur_data = fold apply_op ops (dur_data d),
                 dur_disk = \<lparr>metaf = Some (File (JsonMap (json_map (fold apply_op ops (dur_data d)))) True),
                             tmpf = None\<rparr>,
                 dur_faults = drop 1 (dur_faults d)\<rparr>)
         else (Inl ErrIO, d\<lparr>dur_faults := drop 1 (dur_faults d)\<rparr>))"
proof (cases "checkKeys ops")
  case None
  let ?st = "fold apply_op ops (dur_data d)"
  obtain r disks where f: "flush (next_fault d) ?st (dur_disk d) = (r, disks)"
    by (cases "flush (next_fault d) ?st (dur_disk d)")
  have "r = (if next_fault d = None then Inr () else Inl ErrIO)"
    using flush_result [of "next_fault d" ?st "dur_disk d"] f by simp
  moreover have "last disks = (if next_fault d = None
      then \<lparr>metaf = Some (File (JsonMap (json_map ?st)) True), tmpf = None\<rparr> else dur_disk d)"
    using flush_last [of "dur_disk d" "next_fault d" ?st] f assms by (simp add: dur_inv_def)
  ultimately show ?thesis
    using None f by (simp add: Durable_Commit_def Let_def)
next
  case (Some e)
  then show ?thesis by (simp add: Durable_Commit_def)
qed

interpretation dur: metadata_store Durable_Get Durable_List Durable_Commit dur_view dur_inv
proof
  fix s :: "'v durable" and k p :: string and ops :: "'v op list" and u e s'
  assume inv: "dur_inv s"
  then have ok: "gomap_ok (dur_data s)" by (simp add: dur_inv_def)
  show "Durable_Get s k =
      (if \<not> SafeKey k then Inl ErrUnsafeKey
       else case dur_view s k of None \<Rightarrow> Inl ErrNotFound | Some v \<Rightarrow> Inr v)"
    by (simp add: Durable_Get_def checkKey_def dur_view_def)
  show "sorted (Durable_List s p) \<and> distinct (Durable_List s p) \<and>
      set (Durable_List s p) = {k \<in> dom (dur_view s). prefix p k}"
    using sorted_listing [OF ok] by (simp add: Durable_List_def dur_view_def)
  show "list_all (\<lambda>x. SafeKey (op_key x)) ops \<and> dur_view s' = spec_ops ops (dur_view s)"
    if "Durable_Commit s ops = (Inr u, s')"
    using that by (auto simp: Durable_Commit_eq [OF inv] dur_view_def map_of_apply_ops
        checkKeys_None_iff split: option.splits if_splits)
  show "dur_view s' = dur_view s" if "Durable_Commit s ops = (Inl e, s')"
    using that by (auto simp: Durable_Commit_eq [OF inv] dur_view_def split: option.splits if_splits)
  show "Durable_Commit s ops = (Inl ErrUnsafeKey, s)" if "\<not> list_all (\<lambda>x. SafeKey (op_key x)) ops"
    using that by (auto simp: Durable_Commit_def dest: checkKeys_Some simp flip: checkKeys_None_iff
        split: option.splits)
  show "dur_inv (snd (Durable_Commit s ops))"
    using inv gomap_ok_apply_ops [OF ok, of ops]
    by (auto simp: Durable_Commit_eq [OF inv] dur_inv_def split: option.splits)
qed

section \<open>Memory and disk\<close>

definition utf8_ops :: "'v op list \<Rightarrow> bool" where
  "utf8_ops ops \<longleftrightarrow> list_all (\<lambda>x. utf8_key (op_key x)) ops"

text \<open>
  What is read back after a power loss is what memory holds. The keys in memory are those the JSON
  keeps.
\<close>

definition reads_back :: "'v disk \<Rightarrow> (string \<rightharpoonup> 'v) \<Rightarrow> bool" where
  "reads_back d f \<longleftrightarrow>
     (case load False (power_loss d) of Inr m \<Rightarrow> gomap_ok m \<and> map_of m = f | Inl _ \<Rightarrow> False)"

definition dur_synced :: "'v durable \<Rightarrow> bool" where
  "dur_synced d \<longleftrightarrow>
     dur_inv d \<and> (\<forall>k \<in> dom (dur_view d). utf8_key k) \<and> reads_back (dur_disk d) (dur_view d)"

text \<open>The disks a commit passes through.\<close>

definition commit_disks :: "'v durable \<Rightarrow> 'v op list \<Rightarrow> 'v disk list" where
  "commit_disks d ops =
     (case checkKeys ops of
        Some _ \<Rightarrow> [dur_disk d]
      | None \<Rightarrow> snd (flush (next_fault d) (fold apply_op ops (dur_data d)) (dur_disk d)))"

lemma map_of_fold_update:
  "(\<And>k. k \<in> set ks \<Longrightarrow> f k = k) \<Longrightarrow>
   map_of (fold (\<lambda>k acc. AList.update (f k) (g k) acc) ks acc) x =
     (if x \<in> set ks then Some (g x) else map_of acc x)"
  by (induction ks arbitrary: acc) (auto simp: go_map)

lemma gomap_ok_fold_update:
  "gomap_ok acc \<Longrightarrow> gomap_ok (fold (\<lambda>k acc. AList.update (f k) (g k) acc) ks acc)"
  by (induction ks arbitrary: acc) auto

lemma gomap_ok_json_map [simp]: "gomap_ok (json_map m)"
  by (simp add: json_map_def gomap_ok_fold_update)

lemma map_of_json_map:
  assumes "\<forall>k \<in> dom (map_of m). utf8_key k"
  shows "map_of (json_map m) = map_of m"
proof
  fix k
  have "map_of (json_map m) k =
      (if k \<in> set (sort (gokeys m)) then Some (the (map_of m k)) else map_of [] k)"
    using assms unfolding json_map_def
    by (intro map_of_fold_update) (simp add: set_gokeys utf8_key_def)
  then show "map_of (json_map m) k = map_of m k"
    by (cases "map_of m k") (simp_all add: set_gokeys domIff)
qed

lemma utf8_apply_ops:
  "utf8_ops ops \<Longrightarrow> \<forall>k \<in> dom f. utf8_key k \<Longrightarrow> \<forall>k \<in> dom (spec_ops ops f). utf8_key k"
proof (induction ops arbitrary: f)
  case (Cons x ops)
  have "\<forall>k \<in> dom (spec_op x f). utf8_key k"
    using Cons.prems by (cases x) (auto simp: utf8_ops_def split: if_splits)
  moreover have "utf8_ops ops" using Cons.prems(1) by (simp add: utf8_ops_def)
  ultimately show ?case using Cons.IH by simp
qed simp

lemma reads_back_metaf: "metaf x = metaf d \<Longrightarrow> reads_back x f = reads_back d f"
  by (simp add: reads_back_def load_def power_loss_def)

lemma reads_back_new:
  assumes "metaf x = Some (File (JsonMap (json_map m)) True)" "\<forall>k \<in> dom (map_of m). utf8_key k"
  shows "reads_back x (map_of m)"
  using assms by (simp add: reads_back_def load_def power_loss_def lose_unsynced_def map_of_json_map)

lemma commit_disks_reads_back:
  assumes "dur_synced d" "utf8_ops ops" "x \<in> set (commit_disks d ops)"
  shows "reads_back x (dur_view d) \<or> reads_back x (spec_ops ops (dur_view d))"
proof (cases "checkKeys ops")
  case None
  let ?st = "fold apply_op ops (dur_data d)"
  have "metaf x = metaf (dur_disk d) \<or> metaf x = Some (File (JsonMap (json_map ?st)) True)"
    using flush_states [of x "next_fault d" ?st "dur_disk d"] assms(3) None
    by (simp add: commit_disks_def)
  moreover have "\<forall>k \<in> dom (map_of ?st). utf8_key k"
    using utf8_apply_ops [OF assms(2), of "dur_view d"] assms(1)
    by (simp add: dur_synced_def dur_view_def map_of_apply_ops)
  ultimately show ?thesis
    using assms(1) reads_back_new [of x ?st] reads_back_metaf [of x "dur_disk d"]
    unfolding dur_synced_def dur_view_def map_of_apply_ops by blast
next
  case (Some e)
  with assms show ?thesis by (simp add: commit_disks_def dur_synced_def)
qed

lemma dur_synced_commit:
  assumes "dur_synced d" "utf8_ops ops"
  shows "dur_synced (snd (Durable_Commit d ops))"
proof -
  let ?st = "fold apply_op ops (dur_data d)"
  have inv: "dur_inv d" using assms by (simp add: dur_synced_def)
  have keys: "\<forall>k \<in> dom (map_of ?st). utf8_key k"
    using utf8_apply_ops [OF assms(2), of "dur_view d"] assms(1)
    by (simp add: dur_synced_def dur_view_def map_of_apply_ops)
  show ?thesis
  proof (cases "checkKeys ops = None \<and> next_fault d = None")
    case True
    with keys show ?thesis
      using dur.scommit_inv [OF inv, of ops] reads_back_new [OF _ keys]
      by (simp add: dur_synced_def Durable_Commit_eq [OF inv] dur_view_def)
  next
    case False
    with assms(1) show ?thesis
      using dur.scommit_inv [OF inv, of ops]
      by (auto simp: dur_synced_def Durable_Commit_eq [OF inv] dur_view_def split: option.splits)
  qed
qed

definition run_commits :: "'v op list list \<Rightarrow> 'v durable \<Rightarrow> 'v durable" where
  "run_commits batches d = fold (\<lambda>ops d. snd (Durable_Commit d ops)) batches d"

lemma dur_synced_run:
  "dur_synced d \<Longrightarrow> list_all utf8_ops batches \<Longrightarrow> dur_synced (run_commits batches d)"
  by (induction batches arbitrary: d) (auto simp: run_commits_def dur_synced_commit)

text \<open>C1: A power loss at any moment of a commit, between or after its system calls and whichever
  of them fails, leaves a metadata file that loads, and holds either exactly the state before the
  batch or exactly the state after all of it.\<close>

theorem commit_crash_atomic:
  assumes "dur_synced d" "utf8_ops ops" "x \<in> set (commit_disks d ops)"
  shows "\<exists>m. load False (power_loss x) = Inr m \<and>
    (map_of m = map_of (dur_data d) \<or> map_of m = spec_ops ops (map_of (dur_data d)))"
proof -
  obtain f where "reads_back x f" "f = dur_view d \<or> f = spec_ops ops (dur_view d)"
    using commit_disks_reads_back [OF assms] by blast
  then show ?thesis
    unfolding reads_back_def dur_view_def by (cases "load False (power_loss x)") auto
qed


section \<open>Opening, closing and reopening\<close>

definition no_faults :: "open_env \<Rightarrow> bool" where
  "no_faults env \<longleftrightarrow>
     \<not> env_mkdir_fails env \<and> \<not> env_create_fails env \<and> \<not> env_lock_unreadable env \<and>
     \<not> env_remove_fails env \<and> \<not> env_pid_write_fails env \<and> \<not> env_read_fails env"

definition valid_pid :: "int \<Rightarrow> bool" where
  "valid_pid pid \<longleftrightarrow> 0 < pid \<and> pid < 2 ^ 63"

text \<open>The bytes \<open>OpenDurable\<close> writes into \<open>owner.lock\<close>.\<close>

abbreviation lock_bytes :: "int \<Rightarrow> string" where
  "lock_bytes pid \<equiv> int_dec pid @ [CHR 0x0A]"

lemma digit_not_space: "is_digit c \<Longrightarrow> \<not> is_space c"
  by (auto simp: is_digit_def is_space_def less_eq_char_def)

lemma digit_not_sign: "is_digit c \<Longrightarrow> c \<noteq> CHR ''-'' \<and> c \<noteq> CHR ''+''"
  by (auto simp: is_digit_def less_eq_char_def)

lemma TrimSpace_nat_dec: "TrimSpace (nat_dec n @ [CHR 0x0A]) = nat_dec n"
proof -
  have ns: "\<not> is_space c" if "c \<in> set (nat_dec n)" for c
    using that nat_dec_digits digit_not_space by blast
  have hd: "dropWhile is_space (nat_dec n @ xs) = nat_dec n @ xs" for xs
    using ns [of "hd (nat_dec n)"] by (cases "nat_dec n") auto
  have "dropWhile is_space (rev (nat_dec n)) = rev (nat_dec n)"
    using ns [of "last (nat_dec n)"] by (cases "nat_dec n" rule: rev_cases) auto
  then show ?thesis
    unfolding TrimSpace_def hd by (simp add: is_space_def)
qed

lemma Atoi_nat_dec: "int n < 2 ^ 63 \<Longrightarrow> Atoi (nat_dec n) = Some (int n)"
proof -
  assume n: "int n < 2 ^ 63"
  have "is_digit (hd (nat_dec n))" using nat_dec_digits [of "hd (nat_dec n)" n] by simp
  then have "hd (nat_dec n) \<noteq> CHR ''-''" "hd (nat_dec n) \<noteq> CHR ''+''"
    using digit_not_sign by blast+
  moreover have "list_all is_digit (nat_dec n)"
    using nat_dec_digits by (simp add: list_all_iff)
  ultimately show ?thesis using n by (simp add: Atoi_def)
qed

lemma lock_bytes_read: "valid_pid pid \<Longrightarrow> Atoi (TrimSpace (lock_bytes pid)) = Some pid"
  by (simp add: valid_pid_def int_dec_def TrimSpace_nat_dec Atoi_nat_dec)

lemma lockIsLive_lock_bytes:
  "valid_pid pid \<Longrightarrow> \<not> env_lock_unreadable env \<Longrightarrow>
   lockIsLive env (lock_bytes pid) \<longleftrightarrow> pid = env_pid env \<or> env_signal env pid \<noteq> SigNoProcess"
  by (auto simp: lockIsLive_def lock_bytes_read, auto simp: valid_pid_def)

lemmas open_defs = OpenDurable_def claim_def open_excl_def Durable_Close_def Let_def

lemma OpenDurable_Inr:
  assumes "OpenDurable env faults dir = (Inr d, dir')"
  shows "lockf dir' = Some (lock_bytes (env_pid env)) \<and> dir_disk dir' = dir_disk dir \<and>
    dur_disk d = dir_disk dir \<and> dur_faults d = faults \<and> load False (dir_disk dir) = Inr (dur_data d)"
  using assms by (auto simp: open_defs load_def split: if_splits option.splits sum.splits content.splits)

lemma OpenDurable_unclaimed:
  assumes "no_faults env" "load False (dir_disk dir) = Inr m"
    and "lockf dir = None \<or> (\<exists>b. lockf dir = Some b \<and> \<not> lockIsLive env b)"
  shows "fst (OpenDurable env faults dir) =
    Inr \<lparr>dur_data = m, dur_disk = dir_disk dir, dur_faults = faults\<rparr>"
  using assms by (auto simp: open_defs no_faults_def)

text \<open>C26: While the process that opened a data directory lives, no other open succeeds: not one by
  a process that can see it (its signal is delivered or refused for lack of permission), and not a
  second one by the same process. Such an open changes nothing in the directory.\<close>

theorem OpenDurable_excludes:
  assumes "OpenDurable env faults dir = (Inr d, dir1)" "valid_pid (env_pid env)"
    and "env_pid env' = env_pid env \<or> env_signal env' (env_pid env) \<noteq> SigNoProcess"
  shows "\<exists>e. OpenDurable env' faults' dir1 = (Inl e, dir1) \<and> (no_faults env' \<longrightarrow> e = ErrLocked)"
proof -
  have l: "lockf dir1 = Some (lock_bytes (env_pid env))"
    using OpenDurable_Inr [OF assms(1)] by simp
  have live: "lockIsLive env' (lock_bytes (env_pid env))"
  proof (cases "env_lock_unreadable env'")
    case True
    then show ?thesis by (simp add: lockIsLive_def)
  next
    case False
    with assms show ?thesis by (auto simp: lockIsLive_lock_bytes)
  qed
  then show ?thesis
    using l by (auto simp: open_defs no_faults_def)
qed


section \<open>Concrete runs\<close>

definition fresh_disk :: "'v disk" where
  "fresh_disk = \<lparr>metaf = None, tmpf = None\<rparr>"

definition fresh_store :: "flush_call option list \<Rightarrow> 'v durable" where
  "fresh_store faults = \<lparr>dur_data = [], dur_disk = fresh_disk, dur_faults = faults\<rparr>"

definition good_env :: "int \<Rightarrow> (int \<Rightarrow> sig_result) \<Rightarrow> open_env" where
  "good_env pid sig = \<lparr>env_pid = pid, env_signal = sig, env_mkdir_fails = False,
     env_create_fails = False, env_lock_unreadable = False, env_remove_fails = False,
     env_pid_write_fails = False, env_read_fails = False\<rparr>"

lemma fresh_store_synced: "dur_synced (fresh_store faults)"
  by (simp add: dur_synced_def fresh_store_def fresh_disk_def dur_inv_def dur_view_def reads_back_def
      load_def power_loss_def)

lemma utf8_key_a: "utf8_key ''a''"
  by (simp add: utf8_key_def rune_len_def rune1_def byte_in_def)

lemma SafeKey_a: "SafeKey ''a''"
  by code_simp

lemma no_faults_good_env: "no_faults (good_env pid sig)"
  by (simp add: no_faults_def good_env_def)

lemma good_env_sel [simp]: "env_pid (good_env pid sig) = pid" "env_signal (good_env pid sig) = sig"
  by (simp_all add: good_env_def)

theorem commit_crash_atomic_witness:
  "\<exists>m. load False (power_loss (commit_disks (fresh_store [Some RenameTemp]) [OpPut ''a'' (1::nat)] ! 3)) = Inr m \<and>
    (map_of m = map_of (dur_data (fresh_store [Some RenameTemp])) \<or>
     map_of m = spec_ops [OpPut ''a'' 1] (map_of (dur_data (fresh_store [Some RenameTemp]))))"
proof -
  have "length (commit_disks (fresh_store [Some RenameTemp]) [OpPut ''a'' (1::nat)]) = 5"
    using SafeKey_a by (simp add: commit_disks_def checkKey_def next_fault_def fresh_store_def flush_def Let_def)
  then have "commit_disks (fresh_store [Some RenameTemp]) [OpPut ''a'' (1::nat)] ! 3
      \<in> set (commit_disks (fresh_store [Some RenameTemp]) [OpPut ''a'' 1])"
    by simp
  then show ?thesis
    by (intro commit_crash_atomic fresh_store_synced) (simp_all add: utf8_ops_def utf8_key_a)
qed


definition fresh_dir :: "'v datadir" where
  "fresh_dir = \<lparr>lockf = None, dir_disk = fresh_disk\<rparr>"

lemma OpenDurable_fresh:
  "OpenDurable (good_env pid sig) faults fresh_dir =
    (Inr (fresh_store faults), \<lparr>lockf = Some (lock_bytes pid), dir_disk = fresh_disk\<rparr>)"
  by (simp add: open_defs good_env_def fresh_dir_def load_def fresh_store_def fresh_disk_def)

theorem OpenDurable_excludes_witness:
  "let dir1 = \<lparr>lockf = Some (lock_bytes 7), dir_disk = fresh_disk :: nat disk\<rparr> in
   fst (OpenDurable (good_env 7 (\<lambda>_. SigNoProcess)) [] fresh_dir) = Inr (fresh_store [] :: nat durable) \<and>
   (\<exists>e. OpenDurable (good_env 9 (\<lambda>_. SigPermission)) [] dir1 = (Inl e, dir1))"
  using OpenDurable_excludes [OF OpenDurable_fresh [of 7 "\<lambda>_. SigNoProcess" "[]"],
      of "good_env 9 (\<lambda>_. SigPermission)" "[]"]
  by (auto simp: Let_def OpenDurable_fresh valid_pid_def)



text \<open>C29: When writing the process id into a lock it has just created fails, \<open>OpenDurable\<close> returns
  the error without removing the file, and every later open of the directory is refused: the empty
  lock counts as live for all processes.\<close>

theorem failed_pid_write_locks_out:
  assumes "\<not> env_mkdir_fails env" "\<not> env_create_fails env" "lockf dir = None"
    and "env_pid_write_fails env"
  shows "OpenDurable env faults dir = (Inl ErrIO, dir\<lparr>lockf := Some []\<rparr>) \<and>
    (\<forall>env' faults'. no_faults env' \<longrightarrow>
       fst (OpenDurable env' faults' (dir\<lparr>lockf := Some []\<rparr>)) = Inl ErrLocked)"
  using assms by (simp add: open_defs no_faults_def lockIsLive_def TrimSpace_def Atoi_def)

theorem failed_pid_write_locks_out_witness:
  "OpenDurable ((good_env 7 (\<lambda>_. SigNoProcess))\<lparr>env_pid_write_fails := True\<rparr>) [] fresh_dir =
     (Inl ErrIO, (fresh_dir :: nat datadir)\<lparr>lockf := Some []\<rparr>) \<and>
   fst (OpenDurable (good_env 9 (\<lambda>_. SigNoProcess)) [] ((fresh_dir :: nat datadir)\<lparr>lockf := Some []\<rparr>)) =
     Inl ErrLocked"
  using failed_pid_write_locks_out
    [of "(good_env 7 (\<lambda>_. SigNoProcess))\<lparr>env_pid_write_fails := True\<rparr>" "fresh_dir :: nat datadir" "[]"]
    no_faults_good_env [of 9 "\<lambda>_. SigNoProcess"]
  by (simp add: good_env_def fresh_dir_def)

end
