(* ===== verification/StoreDB.thy ===== *)
theory StoreDB
  imports Durable
begin

text \<open>
  A value of the interface type \<open>store.Store\<close>: one of the two implementations. The services hold
  such a value and never look inside, so every property they need of it comes from the laws of
  \<open>metadata_store\<close>, which hold for the dispatching operations because they hold for both
  implementations.
\<close>

datatype 'v db = MemDB "'v memory" | DurDB "'v durable"

fun db_Get :: "'v db \<Rightarrow> string \<Rightarrow> store_err + 'v" where
  "db_Get (MemDB m) key = Memory_Get m key"
| "db_Get (DurDB d) key = Durable_Get d key"

fun db_List :: "'v db \<Rightarrow> string \<Rightarrow> string list" where
  "db_List (MemDB m) pre = Memory_List m pre"
| "db_List (DurDB d) pre = Durable_List d pre"

fun db_Commit :: "'v db \<Rightarrow> 'v op list \<Rightarrow> (store_err + unit) \<times> 'v db" where
  "db_Commit (MemDB m) ops = apsnd MemDB (Memory_Commit m ops)"
| "db_Commit (DurDB d) ops = apsnd DurDB (Durable_Commit d ops)"

fun db_Put :: "'v db \<Rightarrow> string \<Rightarrow> 'v \<Rightarrow> (store_err + unit) \<times> 'v db" where
  "db_Put (MemDB m) key v = apsnd MemDB (Memory_Put m key v)"
| "db_Put (DurDB d) key v = apsnd DurDB (Durable_Put d key v)"

fun db_Delete :: "'v db \<Rightarrow> string \<Rightarrow> (store_err + unit) \<times> 'v db" where
  "db_Delete (MemDB m) key = apsnd MemDB (Memory_Delete m key)"
| "db_Delete (DurDB d) key = apsnd DurDB (Durable_Delete d key)"

fun db_view :: "'v db \<Rightarrow> string \<Rightarrow> 'v option" where
  "db_view (MemDB m) = mem_view m"
| "db_view (DurDB d) = dur_view d"

fun db_inv :: "'v db \<Rightarrow> bool" where
  "db_inv (MemDB m) = mem_inv m"
| "db_inv (DurDB d) = dur_inv d"

lemma db_Put_commit: "db_Put s k v = db_Commit s [OpPut k v]"
  by (cases s) (simp_all add: Memory_Put_def Durable_Put_def)

lemma db_Delete_commit: "db_Delete s k = db_Commit s [OpDelete k]"
  by (cases s) (simp_all add: Memory_Delete_def Durable_Delete_def)

interpretation db: metadata_store db_Get db_List db_Commit db_view db_inv
proof
  fix s :: "'v db" and k p :: string and ops :: "'v op list" and u e s'
  assume inv: "db_inv s"
  show "db_Get s k =
      (if \<not> SafeKey k then Inl ErrUnsafeKey
       else case db_view s k of None \<Rightarrow> Inl ErrNotFound | Some v \<Rightarrow> Inr v)"
    using inv by (cases s) (simp_all add: mem.sget_eq dur.sget_eq)
  show "sorted (db_List s p) \<and> distinct (db_List s p) \<and>
      set (db_List s p) = {k \<in> dom (db_view s). prefix p k}"
    using inv by (cases s) (simp_all add: mem.slist_eq dur.slist_eq)
  show "list_all (\<lambda>x. SafeKey (op_key x)) ops \<and> db_view s' = spec_ops ops (db_view s)"
    if "db_Commit s ops = (Inr u, s')"
  proof (cases s)
    case (MemDB m)
    with that obtain m' where "Memory_Commit m ops = (Inr u, m')" "s' = MemDB m'"
      by (cases "Memory_Commit m ops") auto
    with MemDB inv mem.scommit_ok [of m ops u m'] show ?thesis by simp
  next
    case (DurDB d)
    with that obtain d' where "Durable_Commit d ops = (Inr u, d')" "s' = DurDB d'"
      by (cases "Durable_Commit d ops") auto
    with DurDB inv dur.scommit_ok [of d ops u d'] show ?thesis by simp
  qed
  show "db_view s' = db_view s" if "db_Commit s ops = (Inl e, s')"
  proof (cases s)
    case (MemDB m)
    with that obtain m' where "Memory_Commit m ops = (Inl e, m')" "s' = MemDB m'"
      by (cases "Memory_Commit m ops") auto
    with MemDB inv mem.scommit_err [of m ops e m'] show ?thesis by simp
  next
    case (DurDB d)
    with that obtain d' where "Durable_Commit d ops = (Inl e, d')" "s' = DurDB d'"
      by (cases "Durable_Commit d ops") auto
    with DurDB inv dur.scommit_err [of d ops e d'] show ?thesis by simp
  qed
  show "db_Commit s ops = (Inl ErrUnsafeKey, s)" if "\<not> list_all (\<lambda>x. SafeKey (op_key x)) ops"
    using inv that mem.scommit_unsafe [of _ ops] dur.scommit_unsafe [of _ ops]
    by (cases s) simp_all
  show "db_inv (snd (db_Commit s ops))"
    using inv mem.scommit_inv [of _ ops] dur.scommit_inv [of _ ops] by (cases s) simp_all
qed

text \<open>
  What the clients' proofs use, as rules: the outcome of a commit by cases, and of the two single
  writes.
\<close>

lemma db_Commit_cases:
  assumes "db_inv s"
  obtains (ok) s' where "db_Commit s ops = (Inr (), s')" "db_inv s'"
      "db_view s' = spec_ops ops (db_view s)" "list_all (\<lambda>x. SafeKey (op_key x)) ops"
  | (failed) e s' where "db_Commit s ops = (Inl e, s')" "db_inv s'" "db_view s' = db_view s"
proof -
  obtain r s' where c: "db_Commit s ops = (r, s')" by (cases "db_Commit s ops")
  show thesis
    using db.commit_all_or_nothing [OF assms c] c ok [of s'] failed [of _ s'] by (cases r) auto
qed

lemma db_inv_commit [simp]: "db_inv s \<Longrightarrow> db_inv (snd (db_Commit s ops))"
  by (rule db.scommit_inv)

lemma db_inv_put [simp]: "db_inv s \<Longrightarrow> db_inv (snd (db_Put s k v))"
  by (simp add: db_Put_commit)

lemma db_inv_delete [simp]: "db_inv s \<Longrightarrow> db_inv (snd (db_Delete s k))"
  by (simp add: db_Delete_commit)

text \<open>A store in memory never fails on safe keys: what lets the services' operations succeed.\<close>

lemma MemDB_commit:
  "list_all (\<lambda>x. SafeKey (op_key x)) ops \<Longrightarrow>
   db_Commit (MemDB m) ops = (Inr (), MemDB (m\<lparr>mem_data := fold apply_op ops (mem_data m)\<rparr>))"
  by (simp add: Memory_Commit_def checkKeys_None_iff flip: checkKeys_None_iff)



end
