(* ===== verification/DirLock.thy ===== *)
theory DirLock
  imports Durable
begin

text \<open>
  Several processes running \<open>OpenDurable\<close> on one data directory at the same time, one system call
  of \<open>internal/store\<close> per step. A lock file carries the process that created it, because a
  process that writes its id into a file another has unlinked does not change the directory.
\<close>

datatype pc = Start | Judging | Stale | Reclaiming | Created | Owner | Refused

record race =
  race_lock :: "(int \<times> string) option"
  race_pc :: "int \<Rightarrow> pc"

text \<open>What process \<open>p\<close> sees when it probes another: those in \<open>alive\<close> exist.\<close>

definition probe_env :: "int set \<Rightarrow> int \<Rightarrow> open_env" where
  "probe_env alive p = good_env p (\<lambda>q. if q \<in> alive then SigDelivered else SigNoProcess)"

definition goto :: "int \<Rightarrow> pc \<Rightarrow> race \<Rightarrow> race" where
  "goto p c s = s\<lparr>race_pc := (race_pc s)(p := c)\<rparr>"

inductive open_step :: "int set \<Rightarrow> race \<Rightarrow> race \<Rightarrow> bool" for alive where
  create: "race_pc s p = Start \<Longrightarrow> race_lock s = None \<Longrightarrow>
    open_step alive s (goto p Created (s\<lparr>race_lock := Some (p, [])\<rparr>))"
| exists: "race_pc s p = Start \<Longrightarrow> race_lock s \<noteq> None \<Longrightarrow> open_step alive s (goto p Judging s)"
| unreadable: "race_pc s p = Judging \<Longrightarrow> race_lock s = None \<Longrightarrow> open_step alive s (goto p Refused s)"
| judge: "race_pc s p = Judging \<Longrightarrow> race_lock s = Some (q, b) \<Longrightarrow>
    open_step alive s (goto p (if lockIsLive (probe_env alive p) b then Refused else Stale) s)"
| remove: "race_pc s p = Stale \<Longrightarrow> open_step alive s (goto p Reclaiming (s\<lparr>race_lock := None\<rparr>))"
| reclaim: "race_pc s p = Reclaiming \<Longrightarrow> race_lock s = None \<Longrightarrow>
    open_step alive s (goto p Created (s\<lparr>race_lock := Some (p, [])\<rparr>))"
| lost: "race_pc s p = Reclaiming \<Longrightarrow> race_lock s \<noteq> None \<Longrightarrow> open_step alive s (goto p Refused s)"
| write_pid: "race_pc s p = Created \<Longrightarrow>
    open_step alive s (goto p Owner (s\<lparr>race_lock :=
      (if \<exists>b. race_lock s = Some (p, b) then Some (p, lock_bytes p) else race_lock s)\<rparr>))"

inductive_cases open_stepE: "open_step alive s t"

abbreviation open_steps :: "int set \<Rightarrow> race \<Rightarrow> race \<Rightarrow> bool" where
  "open_steps alive \<equiv> (open_step alive)\<^sup>*\<^sup>*"

section \<open>Exclusion when no stale lock is involved\<close>

definition holds_claim :: "race \<Rightarrow> int \<Rightarrow> bool" where
  "holds_claim s p \<longleftrightarrow> race_pc s p = Created \<or> race_pc s p = Owner"

text \<open>
  Whoever has passed the exclusive create still has its file in the directory, and the file's bytes
  count as live for everyone.
\<close>

definition race_inv :: "int set \<Rightarrow> race \<Rightarrow> bool" where
  "race_inv alive s \<longleftrightarrow>
     (\<forall>p. race_pc s p \<noteq> Stale \<and> race_pc s p \<noteq> Reclaiming) \<and>
     (\<forall>p. holds_claim s p \<longrightarrow> (\<exists>b. race_lock s = Some (p, b))) \<and>
     (\<forall>q b p. race_lock s = Some (q, b) \<longrightarrow> lockIsLive (probe_env alive p) b)"

lemma lockIsLive_empty: "lockIsLive env []"
  by (simp add: lockIsLive_def TrimSpace_def Atoi_def)

lemma lockIsLive_alive:
  "valid_pid q \<Longrightarrow> q \<in> alive \<Longrightarrow> lockIsLive (probe_env alive p) (lock_bytes q)"
  by (subst lockIsLive_lock_bytes) (auto simp: probe_env_def good_env_def)

lemma race_inv_step:
  assumes "open_step alive s t" "race_inv alive s"
    and "\<And>p. race_pc s p \<noteq> Refused \<Longrightarrow> race_pc s p \<noteq> race_pc t p \<Longrightarrow> valid_pid p \<and> p \<in> alive"
  shows "race_inv alive t"
  using assms(1)
proof cases
  case (write_pid p)
  then have live: "lockIsLive (probe_env alive q) (lock_bytes p)" for q
    using assms(3) [of p] by (auto simp: goto_def intro: lockIsLive_alive)
  have "\<exists>b. race_lock s = Some (p, b)"
    using write_pid assms(2) by (simp add: race_inv_def holds_claim_def)
  moreover from this have "\<not> holds_claim s q" if "q \<noteq> p" for q
    using that assms(2) by (fastforce simp: race_inv_def)
  ultimately show ?thesis
    using write_pid assms(2) live by (auto simp: race_inv_def goto_def holds_claim_def)
qed (use assms(2) in \<open>auto simp: race_inv_def goto_def holds_claim_def lockIsLive_empty\<close>)

text \<open>Only processes of \<open>alive\<close> take steps: the others stand at \<open>Refused\<close> throughout.\<close>

definition only_alive :: "int set \<Rightarrow> race \<Rightarrow> bool" where
  "only_alive alive s \<longleftrightarrow> (\<forall>p. race_pc s p \<noteq> Refused \<longrightarrow> p \<in> alive)"

lemma open_step_moves:
  "open_step alive s t \<Longrightarrow> race_pc s p \<noteq> race_pc t p \<Longrightarrow> race_pc s p \<noteq> Refused"
  by (erule open_stepE) (auto simp: goto_def split: if_splits)

lemma only_alive_step: "open_step alive s t \<Longrightarrow> only_alive alive s \<Longrightarrow> only_alive alive t"
  unfolding only_alive_def using open_step_moves by metis

lemma race_inv_steps:
  assumes "open_steps alive s t" "race_inv alive s" "only_alive alive s" "\<forall>p \<in> alive. valid_pid p"
  shows "race_inv alive t \<and> only_alive alive t"
  using assms
proof (induction rule: rtranclp_induct)
  case (step t u)
  have "race_inv alive u"
    using step by (intro race_inv_step [of alive t u]) (auto simp: only_alive_def)
  with step show ?case using only_alive_step by blast
qed simp

text \<open>C10: However the system calls of processes opening one directory interleave, if the directory
  starts without a lock, or with the lock of a living process, at most one of them comes to own it,
  and then its id is what the lock file says.\<close>

theorem one_owner:
  assumes "open_steps alive s t" "only_alive alive s" "\<forall>p \<in> alive. valid_pid p"
    and "\<forall>p \<in> alive. race_pc s p = Start"
    and "race_lock s = None \<or> (\<exists>q \<in> alive. race_lock s = Some (q, lock_bytes q))"
    and "race_pc t p = Owner" "race_pc t q = Owner"
  shows "p = q \<and> (\<exists>b. race_lock t = Some (p, b))"
proof -
  have start: "race_pc s r = Start \<or> race_pc s r = Refused" for r
    using assms(2,4) by (auto simp: only_alive_def)
  have "race_pc s r \<noteq> Stale \<and> race_pc s r \<noteq> Reclaiming \<and> \<not> holds_claim s r" for r
    unfolding holds_claim_def by (rule disjE [OF start [of r]]) simp_all
  moreover have "lockIsLive (probe_env alive r) b" if l: "race_lock s = Some (x, b)" for r x b
  proof -
    obtain q where "q \<in> alive" "b = lock_bytes q" using assms(5) l by force
    with assms(3) show ?thesis using lockIsLive_alive [of q alive r] by blast
  qed
  ultimately have "race_inv alive s" unfolding race_inv_def by blast
  then have "race_inv alive t" using race_inv_steps assms(1-3) by blast
  then have "\<exists>b. race_lock t = Some (p, b)" "\<exists>b. race_lock t = Some (q, b)"
    using assms(6,7) unfolding race_inv_def holds_claim_def by blast+
  then show ?thesis by auto
qed

definition start_race :: "int list \<Rightarrow> (int \<times> string) option \<Rightarrow> race" where
  "start_race ps l = \<lparr>race_lock = l, race_pc = (\<lambda>p. if p \<in> set ps then Start else Refused)\<rparr>"

lemma one_open: "open_steps {7, 9} (start_race [7, 9] None)
    (goto 7 Owner (start_race [7, 9] (Some (7, lock_bytes 7))))"
proof -
  let ?s1 = "goto 7 Created (start_race [7, 9] (Some (7, [])))"
  have "open_step {7, 9} (start_race [7, 9] None) ?s1"
    using open_step.create [of "start_race [7, 9] None" 7 "{7, 9}"] by (simp add: start_race_def goto_def)
  moreover have "open_step {7, 9} ?s1 (goto 7 Owner (start_race [7, 9] (Some (7, lock_bytes 7))))"
    using open_step.write_pid [of ?s1 7 "{7, 9}"] by (simp add: start_race_def goto_def)
  ultimately show ?thesis by (meson converse_rtranclp_into_rtranclp r_into_rtranclp)
qed

theorem one_owner_witness:
  "race_pc (goto 7 Owner (start_race [7, 9] (Some (7, lock_bytes 7)))) 7 = Owner \<and>
   (\<exists>b. race_lock (goto 7 Owner (start_race [7, 9] (Some (7, lock_bytes 7)))) = Some (7, b))"
  using one_owner [OF one_open, of 7 7]
  by (simp add: only_alive_def start_race_def goto_def valid_pid_def)

section \<open>The reclaim race\<close>

definition race_state :: "(int \<times> string) option \<Rightarrow> pc \<Rightarrow> pc \<Rightarrow> race" where
  "race_state l a b = \<lparr>race_lock = l, race_pc = (\<lambda>p. if p = 7 then a else if p = 9 then b else Refused)\<rparr>"

lemma goto_race_state:
  "goto 7 c (race_state l a b) = race_state l c b"
  "goto 9 c (race_state l a b) = race_state l a c"
  "(race_state l a b)\<lparr>race_lock := l'\<rparr> = race_state l' a b"
  "race_lock (race_state l a b) = l" "race_pc (race_state l a b) 7 = a" "race_pc (race_state l a b) 9 = b"
  by (auto simp: goto_def race_state_def)

lemma stale_5:
  "\<not> lockIsLive (probe_env {7, 9} 7) (lock_bytes 5)" "\<not> lockIsLive (probe_env {7, 9} 9) (lock_bytes 5)"
  using lockIsLive_lock_bytes [of 5 "probe_env {7, 9} 7"] lockIsLive_lock_bytes [of 5 "probe_env {7, 9} 9"]
  by (simp_all add: valid_pid_def probe_env_def good_env_def)

text \<open>C27: Two processes that find the lock of a dead one can both end up owning the directory: both
  judge it stale, one removes it and claims the directory, and the other's remove then deletes that
  claim, so its exclusive create succeeds too.\<close>

theorem reclaim_race_two_owners:
  "\<exists>t. open_steps {7, 9} (race_state (Some (5, lock_bytes 5)) Start Start) t \<and>
     race_pc t 7 = Owner \<and> race_pc t 9 = Owner"
proof -
  let ?R = "open_step {7, 9}" and ?old = "Some (5, lock_bytes 5)"
  note st = open_step.exists open_step.judge open_step.remove open_step.reclaim open_step.write_pid
  have "open_steps {7, 9} (race_state ?old Start Start) (race_state ?old Start Start)" by simp
  also have "?R (race_state ?old Start Start) (race_state ?old Judging Start)"
    using st(1) [of "race_state ?old Start Start" 7] by (simp add: goto_race_state)
  also have "?R (race_state ?old Judging Start) (race_state ?old Judging Judging)"
    using st(1) [of "race_state ?old Judging Start" 9] by (simp add: goto_race_state)
  also have "?R (race_state ?old Judging Judging) (race_state ?old Stale Judging)"
    using st(2) [of "race_state ?old Judging Judging" 7 5 "lock_bytes 5" "{7, 9}"] stale_5 by (simp add: goto_race_state)
  also have "?R (race_state ?old Stale Judging) (race_state ?old Stale Stale)"
    using st(2) [of "race_state ?old Stale Judging" 9 5 "lock_bytes 5" "{7, 9}"] stale_5 by (simp add: goto_race_state)
  also have "?R (race_state ?old Stale Stale) (race_state None Reclaiming Stale)"
    using st(3) [of "race_state ?old Stale Stale" 7] by (simp add: goto_race_state)
  also have "?R (race_state None Reclaiming Stale) (race_state (Some (7, [])) Created Stale)"
    using st(4) [of "race_state None Reclaiming Stale" 7] by (simp add: goto_race_state)
  also have "?R (race_state (Some (7, [])) Created Stale) (race_state (Some (7, lock_bytes 7)) Owner Stale)"
    using st(5) [of "race_state (Some (7, [])) Created Stale" 7] by (simp add: goto_race_state)
  also have "?R (race_state (Some (7, lock_bytes 7)) Owner Stale) (race_state None Owner Reclaiming)"
    using st(3) [of "race_state (Some (7, lock_bytes 7)) Owner Stale" 9] by (simp add: goto_race_state)
  also have "?R (race_state None Owner Reclaiming) (race_state (Some (9, [])) Owner Created)"
    using st(4) [of "race_state None Owner Reclaiming" 9] by (simp add: goto_race_state)
  also have "?R (race_state (Some (9, [])) Owner Created) (race_state (Some (9, lock_bytes 9)) Owner Owner)"
    using st(5) [of "race_state (Some (9, [])) Owner Created" 9] by (simp add: goto_race_state)
  finally have "open_steps {7, 9} (race_state ?old Start Start) (race_state (Some (9, lock_bytes 9)) Owner Owner)" .
  then show ?thesis by (intro exI [of _ "race_state (Some (9, lock_bytes 9)) Owner Owner"]) (simp add: goto_race_state)
qed

end
