(* ===== verification/Paging.thy ===== *)
theory Paging
  imports GoJson
begin

text \<open>
  Package \<open>internal/paging\<close>: page tokens, which are base64 of a small JSON object, and the
  selection of one page from a set of keys.
\<close>

section \<open>Base64 without padding, URL alphabet\<close>

definition b64_alphabet :: string where
  "b64_alphabet = ''ABCDEFGHIJKLMNOPQRSTUVWXYZabcdefghijklmnopqrstuvwxyz0123456789-_''"

definition b64_char :: "nat \<Rightarrow> char" where
  "b64_char n = b64_alphabet ! n"

definition b64_val :: "char \<Rightarrow> nat option" where
  "b64_val c = map_of (zip b64_alphabet [0..<64]) c"

text \<open>\<open>base64.RawURLEncoding.EncodeToString\<close>.\<close>

fun b64_enc :: "nat list \<Rightarrow> nat list" where
  "b64_enc [] = []"
| "b64_enc [x] = [x div 4, x mod 4 * 16]"
| "b64_enc [x, y] = [x div 4, x mod 4 * 16 + y div 16, y mod 16 * 4]"
| "b64_enc (x # y # z # r) =
     x div 4 # (x mod 4 * 16 + y div 16) # (y mod 16 * 4 + z div 64) # z mod 64 # b64_enc r"

definition b64_encode :: "string \<Rightarrow> string" where
  "b64_encode s = map b64_char (b64_enc (map of_char s))"

text \<open>
  \<open>DecodeString\<close>: line ends are ignored, a byte outside the alphabet is an error, and so is a
  single digit at the end; bits left over there are dropped.
\<close>

fun b64_dec :: "nat list \<Rightarrow> nat list option" where
  "b64_dec [] = Some []"
| "b64_dec [p] = None"
| "b64_dec [p, q] = Some [p * 4 + q div 16]"
| "b64_dec [p, q, r] = Some [p * 4 + q div 16, q mod 16 * 16 + r div 4]"
| "b64_dec (p # q # r # t # rest) =
     map_option (\<lambda>xs. (p * 4 + q div 16) # (q mod 16 * 16 + r div 4) # (r mod 4 * 64 + t) # xs)
       (b64_dec rest)"

definition b64_decode :: "string \<Rightarrow> string option" where
  "b64_decode s =
     (case those (map b64_val (filter (\<lambda>c. c \<noteq> CHR 0x0A \<and> c \<noteq> CHR 0x0D) s)) of
        None \<Rightarrow> None
      | Some ds \<Rightarrow> map_option (map char_of) (b64_dec ds))"

section \<open>Tokens\<close>

datatype paging_err = ErrInvalidToken

definition DefaultPageSize :: int where
  "DefaultPageSize = 100"

definition MaxPageSize :: int where
  "MaxPageSize = 1000"

record token =
  After :: string
  Scope :: string

text \<open>\<open>json.Marshal\<close> of a token, and what \<open>EncodeToString\<close> makes of it.\<close>

definition marshal_token :: "token \<Rightarrow> string" where
  "marshal_token t =
     CHR 0x7B # json_quote ''a'' @ CHR '':'' # json_quote (After t) @ CHR '','' # json_quote ''s'' @
     CHR '':'' # json_quote (Scope t) @ [CHR 0x7D]"

definition EncodeToken :: "string \<Rightarrow> string \<Rightarrow> string" where
  "EncodeToken scope after = b64_encode (marshal_token \<lparr>After = after, Scope = scope\<rparr>)"

text \<open>
  \<open>json.Unmarshal\<close> into a token. A member's name may differ from the field's in case, which for
  \<open>s\<close> admits the long s (U+017F) too; a string sets the field, \<open>null\<close> leaves it, any other value
  is an error; other members are ignored.
\<close>

definition set_field :: "(string \<Rightarrow> token \<Rightarrow> token) \<Rightarrow> json \<Rightarrow> token \<Rightarrow> token option" where
  "set_field upd v t =
     (case v of JStr x \<Rightarrow> Some (upd x t) | JNull \<Rightarrow> Some t | _ \<Rightarrow> None)"

fun unmarshal_members :: "(string \<times> json) list \<Rightarrow> token \<Rightarrow> token option" where
  "unmarshal_members [] t = Some t"
| "unmarshal_members ((k, v) # ms) t =
     (case (if k \<in> set [''a'', ''A''] then set_field (\<lambda>x t. t\<lparr>After := x\<rparr>) v t
            else if k \<in> set [''s'', ''S'', [CHR 0xC5, CHR 0xBF]]
            then set_field (\<lambda>x t. t\<lparr>Scope := x\<rparr>) v t
            else Some t) of
        None \<Rightarrow> None
      | Some t' \<Rightarrow> unmarshal_members ms t')"

definition unmarshal_token :: "string \<Rightarrow> token option" where
  "unmarshal_token s =
     (case parse_json s of
        Some JNull \<Rightarrow> Some \<lparr>After = [], Scope = []\<rparr>
      | Some (JObj ms) \<Rightarrow> unmarshal_members ms \<lparr>After = [], Scope = []\<rparr>
      | _ \<Rightarrow> None)"

definition DecodeToken :: "string \<Rightarrow> string \<Rightarrow> paging_err + string" where
  "DecodeToken scope s =
     (if s = [] then Inr []
      else case b64_decode s of
             None \<Rightarrow> Inl ErrInvalidToken
           | Some b \<Rightarrow>
               (case unmarshal_token b of
                  None \<Rightarrow> Inl ErrInvalidToken
                | Some t \<Rightarrow> if Scope t \<noteq> scope then Inl ErrInvalidToken else Inr (After t)))"

section \<open>Pages\<close>

definition ClampPageSize :: "int \<Rightarrow> int" where
  "ClampPageSize requested =
     (if requested \<le> 0 then DefaultPageSize
      else if requested > MaxPageSize then MaxPageSize
      else requested)"

text \<open>\<open>sort.SearchStrings\<close>: the first index whose element is not below \<open>x\<close>.\<close>

definition SearchStrings :: "string list \<Rightarrow> string \<Rightarrow> nat" where
  "SearchStrings xs x = length (takeWhile (\<lambda>y. y < x) xs)"

text \<open>Where a page starts: strictly after the cursor, which may itself be gone.\<close>

definition page_start :: "string list \<Rightarrow> string \<Rightarrow> nat" where
  "page_start sorted_keys after =
     (if after \<noteq> [] then
        (let i = SearchStrings sorted_keys after in
         if i < length sorted_keys \<and> sorted_keys ! i = after then i + 1 else i)
      else 0)"

definition Page :: "string \<Rightarrow> string list \<Rightarrow> string \<Rightarrow> int \<Rightarrow> paging_err + (string list \<times> string)" where
  "Page scope keys pageToken pageSize =
     (case DecodeToken scope pageToken of
        Inl e \<Rightarrow> Inl e
      | Inr after \<Rightarrow>
          (let size = nat (ClampPageSize pageSize);
               sorted_keys = sort keys;
               start = page_start sorted_keys after
           in if start \<ge> length sorted_keys then Inr ([], [])
              else
                (let stop = min (start + size) (length sorted_keys);
                     page = take (stop - start) (drop start sorted_keys);
                     nextToken = (if stop < length sorted_keys then EncodeToken scope (last page) else [])
                 in Inr (page, nextToken))))"

section \<open>Tokens read back\<close>

lemma b64_val_char: "n < 64 \<Longrightarrow> b64_val (b64_char n) = Some n"
proof -
  have "list_all (\<lambda>n. b64_val (b64_char n) = Some n) [0..<64]" by code_simp
  then show "n < 64 \<Longrightarrow> b64_val (b64_char n) = Some n" by (simp add: list_all_iff)
qed

lemma b64_char_not_newline: "n < 64 \<Longrightarrow> b64_char n \<noteq> CHR 0x0A \<and> b64_char n \<noteq> CHR 0x0D"
proof -
  have "list_all (\<lambda>n. b64_char n \<noteq> CHR 0x0A \<and> b64_char n \<noteq> CHR 0x0D) [0..<64]" by code_simp
  then show "n < 64 \<Longrightarrow> b64_char n \<noteq> CHR 0x0A \<and> b64_char n \<noteq> CHR 0x0D" by (simp add: list_all_iff)
qed

text \<open>The arithmetic of regrouping: a digit is below 64, and dividing takes a digit apart again.\<close>

lemma digit2_range: "y < 256 \<Longrightarrow> x mod 4 * 16 + y div 16 < (64 :: nat)"
proof -
  assume "y < 256"
  then have "y div 16 \<le> 15" by simp
  moreover have "x mod 4 \<le> 3" by (simp flip: less_Suc_eq_le)
  ultimately show ?thesis by linarith
qed

lemma digit3_range: "z < 256 \<Longrightarrow> y mod 16 * 4 + z div 64 < (64 :: nat)"
proof -
  assume "z < 256"
  then have "z div 64 \<le> 3" by simp
  moreover have "y mod 16 \<le> 15" by (simp flip: less_Suc_eq_le)
  ultimately show ?thesis by linarith
qed

lemma high_digits:
  fixes x :: nat
  assumes "x < 256"
  shows "x div 4 < 64" "x div 16 < 16" "x div 64 < 4"
  using assms by auto

lemma b64_enc_range: "list_all (\<lambda>x. x < 256) xs \<Longrightarrow> list_all (\<lambda>x. x < 64) (b64_enc xs)"
proof (induction xs rule: b64_enc.induct)
  case (3 x y)
  then show ?case using digit2_range [of y x] digit3_range [of 0 y] high_digits [of x] by simp
next
  case (4 x y z r)
  then show ?case using digit2_range [of y x] digit3_range [of z y] high_digits [of x] by simp
next
  case (2 x)
  then show ?case using digit2_range [of 0 x] high_digits [of x] by simp
qed simp

lemma b64_dec_enc: "list_all (\<lambda>x. x < 256) xs \<Longrightarrow> b64_dec (b64_enc xs) = Some xs"
proof (induction xs rule: b64_enc.induct)
  case (4 x y z r)
  then have "y div 16 < 16" "z div 64 < 4" by auto
  then show ?case using 4 by simp
next
  case (3 x y)
  then have "y div 16 < 16" by auto
  then show ?case using 3 by simp
qed simp_all

lemma those_map_Some: "(\<And>x. x \<in> set xs \<Longrightarrow> f (g x) = Some x) \<Longrightarrow> those (map f (map g xs)) = Some xs"
  by (induction xs) auto

lemma b64_decode_encode: "b64_decode (b64_encode s) = Some s"
proof -
  let ?xs = "map of_char s :: nat list"
  have bytes: "list_all (\<lambda>x. x < 256) ?xs" by (simp add: list_all_iff)
  have range: "x < 64" if "x \<in> set (b64_enc ?xs)" for x
    using b64_enc_range [OF bytes] that by (auto simp: list_all_iff)
  have "filter (\<lambda>c. c \<noteq> CHR 0x0A \<and> c \<noteq> CHR 0x0D) (b64_encode s) = b64_encode s"
    unfolding b64_encode_def using b64_char_not_newline range by (intro filter_True) auto
  moreover have "those (map b64_val (b64_encode s)) = Some (b64_enc ?xs)"
    unfolding b64_encode_def using b64_val_char range by (intro those_map_Some) auto
  ultimately show ?thesis
    by (simp add: b64_decode_def b64_dec_enc [OF bytes] o_def)
qed

lemma skip_ws_Cons [simp]:
  "c \<notin> set [CHR '' '', CHR 0x09, CHR 0x0A, CHR 0x0D] \<Longrightarrow> skip_ws (c # s) = c # s"
  by (simp add: skip_ws_def)

lemma parse_value_quote:
  "parse_value d (json_quote s @ r) = Some (JStr (coerce_utf8 s), r)"
  by (subst parse_value.simps) (simp add: json_quote_def unquote_json_esc)

lemma parse_value_quoted:
  "parse_value d (CHR 0x22 # json_esc s @ CHR 0x22 # r) = Some (JStr (coerce_utf8 s), r)"
  using parse_value_quote [of d s r] by (simp add: json_quote_def)

lemma skip_ws_quote: "skip_ws (json_quote s @ r) = json_quote s @ r"
  by (simp add: json_quote_def)

lemma parse_members_last:
  "parse_members d (json_quote k @ CHR '':'' # json_quote v @ CHR 0x7D # r) =
     Some ([(coerce_utf8 k, JStr (coerce_utf8 v))], r)"
  by (subst parse_members.simps)
    (simp add: json_quote_def unquote_json_esc parse_value_quoted)

lemma parse_members_more:
  "parse_members d (json_quote k @ CHR '':'' # json_quote v @ CHR '','' # r) =
     map_option (apfst (Cons (coerce_utf8 k, JStr (coerce_utf8 v)))) (parse_members d r)"
  by (subst parse_members.simps)
    (simp add: json_quote_def unquote_json_esc parse_value_quoted)

lemma utf8_ascii1: "of_char c < (128 :: nat) \<Longrightarrow> coerce_utf8 [c] = [c]"
  by (simp add: ascii_rune_len)

lemma unmarshal_marshal:
  "unmarshal_token (marshal_token t) =
     Some \<lparr>After = coerce_utf8 (After t), Scope = coerce_utf8 (Scope t)\<rparr>"
proof -
  let ?body = "json_quote ''a'' @ CHR '':'' # json_quote (After t) @ CHR '','' # json_quote ''s'' @
     CHR '':'' # json_quote (Scope t) @ [CHR 0x7D]"
  have mem: "parse_members d ?body =
      Some ([(''a'', JStr (coerce_utf8 (After t))), (''s'', JStr (coerce_utf8 (Scope t)))], [])" for d
    unfolding parse_members_more parse_members_last by (simp add: ascii_rune_len)
  have "parse_value maxNestingDepth (CHR 0x7B # ?body) =
      Some (JObj [(''a'', JStr (coerce_utf8 (After t))), (''s'', JStr (coerce_utf8 (Scope t)))], [])"
    by (subst parse_value.simps) (simp add: mem skip_ws_quote maxNestingDepth_def, simp add: json_quote_def)
  then have "parse_json (marshal_token t) =
      Some (JObj [(''a'', JStr (coerce_utf8 (After t))), (''s'', JStr (coerce_utf8 (Scope t)))])"
    by (simp add: parse_json_def marshal_token_def skip_ws_def)
  then show ?thesis by (simp add: unmarshal_token_def set_field_def)
qed

lemma EncodeToken_not_Nil [simp]: "EncodeToken scope after \<noteq> []"
proof
  assume "EncodeToken scope after = []"
  then have "b64_decode [] = Some (marshal_token \<lparr>After = after, Scope = scope\<rparr>)"
    unfolding EncodeToken_def using b64_decode_encode by metis
  then show False by (simp add: b64_decode_def marshal_token_def)
qed

lemma DecodeToken_EncodeToken:
  "DecodeToken scope (EncodeToken scope' after) =
     (if coerce_utf8 scope' = scope then Inr (coerce_utf8 after) else Inl ErrInvalidToken)"
  unfolding DecodeToken_def EncodeToken_def
  using EncodeToken_not_Nil [of scope' after]
  by (simp add: b64_decode_encode unmarshal_marshal EncodeToken_def)

text \<open>A page token reads back as the cursor it was made from when it is used on its own listing,
  and is refused on every other.\<close>

theorem token_roundtrip:
  assumes "utf8_key scope" "utf8_key after"
  shows "DecodeToken scope (EncodeToken scope after) = Inr after \<and>
    (\<forall>other. other \<noteq> scope \<longrightarrow> DecodeToken other (EncodeToken scope after) = Inl ErrInvalidToken)"
  using assms by (simp add: DecodeToken_EncodeToken utf8_key_def)

theorem token_roundtrip_witness:
  "DecodeToken ''q/1'' (EncodeToken ''q/1'' ''k<2'') = Inr ''k<2'' \<and>
   DecodeToken ''q/2'' (EncodeToken ''q/1'' ''k<2'') = Inl ErrInvalidToken"
  using token_roundtrip [of "''q/1''" "''k<2''"] by (simp add: utf8_key_def ascii_rune_len)

section \<open>Walking a listing\<close>

text \<open>What a page holds: the keys after the cursor, in order, at most a page of them.\<close>

definition later_keys :: "string \<Rightarrow> string list \<Rightarrow> string list" where
  "later_keys after keys = filter (\<lambda>k. after = [] \<or> after < k) (sort keys)"

lemma ClampPageSize_range: "1 \<le> ClampPageSize n \<and> ClampPageSize n \<le> MaxPageSize"
  by (simp add: ClampPageSize_def DefaultPageSize_def MaxPageSize_def)

lemma filter_after_sorted:
  assumes "sorted xs" "distinct xs"
  shows "filter (\<lambda>k. a < k) xs =
    drop (let i = SearchStrings xs a in if i < length xs \<and> xs ! i = a then i + 1 else i) xs"
  using assms
proof (induction xs)
  case (Cons x xs)
  show ?case
  proof (cases "x < a")
    case True
    with Cons show ?thesis by (auto simp: SearchStrings_def Let_def)
  next
    case False
    then have "\<forall>k \<in> set xs. a < k"
      using Cons.prems by (auto simp: order_less_le intro: order_trans)
    with False show ?thesis by (auto simp: SearchStrings_def Let_def)
  qed
qed (simp add: SearchStrings_def)

lemma later_keys_drop: "distinct keys \<Longrightarrow> later_keys after keys = drop (page_start (sort keys) after) (sort keys)"
  using filter_after_sorted [of "sort keys" after]
  by (cases "after = []") (simp_all add: later_keys_def page_start_def)

lemma Page_spec:
  assumes "DecodeToken scope tok = Inr after" "distinct keys"
  shows "Page scope keys tok psize =
    (let later = later_keys after keys; n = nat (ClampPageSize psize) in
     Inr (take n later, if n < length later then EncodeToken scope (last (take n later)) else []))"
proof -
  define start where "start = page_start (sort keys) after"
  define n where "n = nat (ClampPageSize psize)"
  have later: "later_keys after keys = drop start (sort keys)"
    using later_keys_drop [OF assms(2)] by (simp add: start_def)
  have t: "take (min (start + n) (length keys) - start) (drop start (sort keys)) = take n (drop start (sort keys))"
    by (auto simp: min_def)
  have "start + n < length keys \<longleftrightarrow> n < length keys - start" by auto
  then show ?thesis
    using assms(1) unfolding Page_def later
    by (simp add: Let_def t min_less_iff_disj flip: start_def n_def)
qed

text \<open>
  A client that follows the next token, the listing being one of \<open>kss\<close> at each request: the keys it
  has received, and the token it holds at the end, empty when it was told there is no more.
\<close>

fun walk :: "string \<Rightarrow> int \<Rightarrow> string \<Rightarrow> string list list \<Rightarrow> paging_err + (string list \<times> string)" where
  "walk scope psize tok [] = Inr ([], tok)"
| "walk scope psize tok (keys # kss) =
     (case Page scope keys tok psize of
        Inl e \<Rightarrow> Inl e
      | Inr (page, nxt) \<Rightarrow>
          if nxt = [] then Inr (page, [])
          else map_sum id (apfst (append page)) (walk scope psize nxt kss))"

definition listing_ok :: "string list \<Rightarrow> bool" where
  "listing_ok keys \<longleftrightarrow> distinct keys \<and> list_all (\<lambda>k. k \<noteq> [] \<and> utf8_key k) keys"

lemma set_later_keys: "set (later_keys after keys) = {k \<in> set keys. after = [] \<or> after < k}"
  by (auto simp: later_keys_def)

lemma later_keys_strict: "distinct keys \<Longrightarrow> sorted_wrt (<) (later_keys after keys)"
  unfolding later_keys_def by (intro sorted_wrt_filter) (simp add: strict_sorted_iff)

text \<open>A full page ends at a key; what is later than that key is what the page left out.\<close>

lemma page_split:
  assumes "sorted_wrt (<) xs" "0 < n" "n \<le> length (xs :: string list)"
  shows "filter (\<lambda>k. last (take n xs) < k) xs = drop n xs" "last (take n xs) \<in> set xs"
    "\<forall>k \<in> set (take n xs). k \<le> last (take n xs)"
proof -
  obtain m where m: "n = Suc m" using assms(2) by (cases n) auto
  have l: "last (take n xs) = xs ! m" using assms m by (simp add: take_Suc_conv_app_nth)
  then show "last (take n xs) \<in> set xs" using assms m by simp
  have lo: "k \<le> xs ! m" if "k \<in> set (take n xs)" for k
    using that assms m sorted_wrt_nth_less [OF assms(1)]
    by (auto simp: in_set_conv_nth less_Suc_eq intro: order_less_imp_le)
  then show "\<forall>k \<in> set (take n xs). k \<le> last (take n xs)" by (simp add: l)
  have hi: "xs ! m < k" if "k \<in> set (drop n xs)" for k
    using that assms m sorted_wrt_nth_less [OF assms(1)] by (auto simp: in_set_conv_nth)
  have "filter (\<lambda>k. xs ! m < k) (take n xs @ drop n xs) = drop n xs"
    using lo hi by (force simp: filter_empty_conv filter_id_conv simp del: append_take_drop_id)
  then show "filter (\<lambda>k. last (take n xs) < k) xs = drop n xs" by (simp add: l)
qed

lemma later_keys_last:
  assumes "listing_ok keys" "0 < n" "n \<le> length (later_keys after keys)"
  defines "c \<equiv> last (take n (later_keys after keys))"
  shows "c \<in> set keys" "c \<noteq> []" "utf8_key c" "after = [] \<or> after < c"
    "later_keys c keys = drop n (later_keys after keys)"
    "\<forall>k \<in> set (take n (later_keys after keys)). k \<le> c"
proof -
  have d: "distinct keys" using assms(1) by (simp add: listing_ok_def)
  note ps = page_split [OF later_keys_strict [OF d] assms(2,3)]
  from ps(2) show c: "c \<in> set keys" and a: "after = [] \<or> after < c"
    unfolding c_def set_later_keys by auto
  from c assms(1) show nz: "c \<noteq> []" and "utf8_key c"
    by (auto simp: listing_ok_def list_all_iff)
  have "later_keys c keys = filter (\<lambda>k. c < k) (later_keys after keys)"
    using a nz by (auto simp: later_keys_def intro!: filter_cong)
  then show "later_keys c keys = drop n (later_keys after keys)" using ps(1) by (simp add: c_def)
  show "\<forall>k \<in> set (take n (later_keys after keys)). k \<le> c" using ps(3) by (simp add: c_def)
qed

text \<open>One request, by cases: the last page, or a full page whose token continues after its last key.\<close>

lemma Page_cases:
  assumes "DecodeToken scope tok = Inr after" "listing_ok keys" "utf8_key scope"
  obtains (last_page) "Page scope keys tok psize = Inr (later_keys after keys, [])"
  | (full_page) c n tok' where "0 < n" "n < length (later_keys after keys)" "tok' \<noteq> []"
      "c = last (take n (later_keys after keys))"
      "Page scope keys tok psize = Inr (take n (later_keys after keys), tok')"
      "DecodeToken scope tok' = Inr c"
proof -
  define n where "n = nat (ClampPageSize psize)"
  have n: "0 < n" using ClampPageSize_range [of psize] by (simp add: n_def)
  note sp = Page_spec [OF assms(1), of keys psize, folded n_def]
  have d: "distinct keys" using assms(2) by (simp add: listing_ok_def)
  show thesis
  proof (cases "n < length (later_keys after keys)")
    case True
    let ?c = "last (take n (later_keys after keys))"
    have "DecodeToken scope (EncodeToken scope ?c) = Inr ?c"
      using later_keys_last(3) [OF assms(2) n] True assms(3)
      by (simp add: DecodeToken_EncodeToken utf8_key_def)
    with full_page [of n "EncodeToken scope ?c" ?c] n True sp d show thesis by (simp add: Let_def)
  next
    case False
    with last_page sp d show thesis by (simp add: Let_def)
  qed
qed

lemma walk_unchanged:
  assumes "listing_ok keys" "utf8_key scope"
  shows "DecodeToken scope tok = Inr after \<Longrightarrow> length (later_keys after keys) \<le> m \<Longrightarrow>
    walk scope psize tok (replicate (Suc m) keys) = Inr (later_keys after keys, [])"
proof (induction m arbitrary: tok after)
  case 0
  from Page_cases [OF 0(1) assms, of psize] show ?case by cases (use 0(2) in simp_all)
next
  case (Suc m)
  from Page_cases [OF Suc.prems(1) assms, of psize] show ?case
  proof cases
    case 1
    then show ?thesis by simp
  next
    case full_page: (2 c n tok')
    have later: "later_keys c keys = drop n (later_keys after keys)"
      using later_keys_last(5) [OF assms(1) full_page(1), of after] full_page(2,4) by simp
    then have "length (later_keys c keys) \<le> m" using Suc.prems(2) full_page(1) by simp
    with Suc.IH [OF full_page(6)] have
      "walk scope psize tok' (replicate (Suc m) keys) = Inr (drop n (later_keys after keys), [])"
      using later by simp
    with full_page show ?thesis by simp
  qed
qed

lemma walk_changing:
  assumes "utf8_key scope"
  shows "DecodeToken scope tok = Inr after \<Longrightarrow> \<forall>keys \<in> set kss. listing_ok keys \<Longrightarrow>
    \<exists>out rest. walk scope psize tok kss = Inr (out, rest) \<and> sorted_wrt (<) out \<and>
      (\<forall>k \<in> set out. (after = [] \<or> after < k) \<and> (\<exists>keys \<in> set kss. k \<in> set keys)) \<and>
      (rest = [] \<and> kss \<noteq> [] \<longrightarrow>
        (\<forall>k. (\<forall>keys \<in> set kss. k \<in> set keys) \<and> (after = [] \<or> after < k) \<longrightarrow> k \<in> set out))"
proof (induction kss arbitrary: tok after)
  case (Cons keys kss)
  have ok: "listing_ok keys" "distinct keys" using Cons.prems(2) by (simp_all add: listing_ok_def)
  from Page_cases [OF Cons.prems(1) ok(1) assms, of psize] show ?case
  proof cases
    case 1
    then show ?thesis using later_keys_strict [OF ok(2), of after] by (simp add: set_later_keys)
  next
    case full_page: (2 c n tok')
    let ?p = "take n (later_keys after keys)"
    note ll = later_keys_last [OF ok(1) full_page(1), of after]
    have le: "n \<le> length (later_keys after keys)" using full_page(2) by simp
    obtain out rest where w: "walk scope psize tok' kss = Inr (out, rest)" "sorted_wrt (<) out"
      "\<forall>k \<in> set out. (c = [] \<or> c < k) \<and> (\<exists>keys \<in> set kss. k \<in> set keys)"
      "rest = [] \<and> kss \<noteq> [] \<longrightarrow>
        (\<forall>k. (\<forall>keys \<in> set kss. k \<in> set keys) \<and> (c = [] \<or> c < k) \<longrightarrow> k \<in> set out)"
    proof -
      have "\<forall>ks \<in> set kss. listing_ok ks" using Cons.prems(2) by simp
      from Cons.IH [OF full_page(6) this] show thesis using that by (elim exE conjE) assumption
    qed
    have c: "c \<noteq> []" "after = [] \<or> after < c" "\<forall>k \<in> set ?p. k \<le> c"
      using ll(2,4,6) le by (simp_all add: full_page(4))
    have p: "\<forall>k \<in> set ?p. k \<in> set keys \<and> (after = [] \<or> after < k)"
      using set_later_keys [of after keys] set_take_subset [of n "later_keys after keys"] by auto
    have srt: "sorted_wrt (<) (?p @ out)"
      using w(2,3) c(1,3) later_keys_strict [OF ok(2), of after]
      by (fastforce simp: sorted_wrt_append intro: sorted_wrt_take)
    have rest: "rest = [] \<Longrightarrow> kss \<noteq> []"
      using w(1) full_page(3) by (cases kss) auto
    have all: "k \<in> set (?p @ out)"
      if "rest = []" "\<forall>ks \<in> set (keys # kss). k \<in> set ks" "after = [] \<or> after < k" for k
    proof (cases "c < k")
      case True
      with w(4) rest that show ?thesis by simp
    next
      case False
      have "k \<in> set (later_keys after keys)" using that by (simp add: set_later_keys)
      moreover have "k \<notin> set (drop n (later_keys after keys))"
        using False ll(5) le set_later_keys [of c keys] c(1) by (simp add: full_page(4))
      ultimately have "k \<in> set ?p" by (metis Un_iff append_take_drop_id set_append)
      then show ?thesis by simp
    qed
    have "walk scope psize tok (keys # kss) = Inr (?p @ out, rest)"
      using full_page(3,5) w(1) by simp
    moreover have "\<forall>k \<in> set (?p @ out). (after = [] \<or> after < k) \<and> (\<exists>ks \<in> set (keys # kss). k \<in> set ks)"
      using p w(3) c(1,2) by (fastforce intro: order_less_trans)
    ultimately show ?thesis using srt all by blast
  qed
qed simp

text \<open>C17: Following the next token from the first page visits every key of a listing exactly once and
  in order, whatever page size is asked for, and comes to an end: one more request than there are
  keys is always enough.\<close>

theorem pages_visit_every_key_once:
  assumes "listing_ok keys" "utf8_key scope" "length keys \<le> m"
  shows "walk scope psize [] (replicate (Suc m) keys) = Inr (sort keys, [])"
proof -
  have "later_keys [] keys = sort keys" by (simp add: later_keys_def)
  then show ?thesis using walk_unchanged [OF assms(1,2), of "[]" "[]" m psize] assms(3)
    by (simp add: DecodeToken_def)
qed

text \<open>C18: A listing that changes between the requests is still walked in order without showing any key
  twice, shows only keys it had at some request, and, once there is no next token, has shown every
  key that was there throughout; a cursor key that is deleted does not disturb this.\<close>

theorem pages_survive_changes:
  assumes "utf8_key scope" "\<forall>keys \<in> set kss. listing_ok keys"
  shows "\<exists>out rest. walk scope psize [] kss = Inr (out, rest) \<and> sorted_wrt (<) out \<and>
    (\<forall>k \<in> set out. \<exists>keys \<in> set kss. k \<in> set keys) \<and>
    (rest = [] \<and> kss \<noteq> [] \<longrightarrow> (\<forall>k. (\<forall>keys \<in> set kss. k \<in> set keys) \<longrightarrow> k \<in> set out))"
proof -
  have "DecodeToken scope [] = Inr []" by (simp add: DecodeToken_def)
  from walk_changing [OF assms(1) this assms(2), of psize] show ?thesis by blast
qed

lemma listing_ok_example:
  "listing_ok [''b'', ''a'', ''c'']" "listing_ok [''a'', ''c'']" "utf8_key ''q''"
  by (simp_all add: listing_ok_def utf8_key_def ascii_rune_len)

theorem pages_visit_every_key_once_witness:
  "walk ''q'' 2 [] (replicate 4 [''b'', ''a'', ''c'']) = Inr (sort [''b'', ''a'', ''c''], [])"
  using pages_visit_every_key_once [OF listing_ok_example(1,3), of 3 2]
  by (simp add: numeral_eq_Suc del: walk.simps)

theorem pages_survive_changes_witness:
  "\<exists>out rest. walk ''q'' 1 [] [[''b'', ''a'', ''c''], [''a'', ''c'']] = Inr (out, rest) \<and> sorted_wrt (<) out"
  using pages_survive_changes [OF listing_ok_example(3), of "[[''b'', ''a'', ''c''], [''a'', ''c'']]" 1]
    listing_ok_example(1,2)
  by (simp del: walk.simps) blast

end
