(* ===== verification/Lro.thy ===== *)
theory Lro
  imports Prelude "HOL-Library.Multiset"
begin

text \<open>
  Package \<open>internal/lro\<close>: the store of long-running operations. A call that reads the clock takes
  the instants it reads as arguments, \<open>Create\<close> and \<open>CreateNamed\<close> two of them. Responses, causes and
  metadata are opaque.
\<close>

section \<open>Operations\<close>

datatype lro_state = StatePending | StateSucceeded | StateFailed

fun lro_state_string :: "lro_state \<Rightarrow> string" where
  "lro_state_string StatePending = ''pending''"
| "lro_state_string StateSucceeded = ''succeeded''"
| "lro_state_string StateFailed = ''failed''"

record ('r, 'e, 'm) operation =
  op_Name :: string
  op_Target :: string
  op_State :: lro_state
  op_Error :: "'e option"
  op_Response :: "'r option"
  op_Metadata :: "'m option"
  op_Created :: time
  op_Updated :: time

definition op_Done :: "('r, 'e, 'm) operation \<Rightarrow> bool" where
  "op_Done o1 \<longleftrightarrow> op_State o1 \<noteq> StatePending"

datatype lro_err = LroNotFound | LroAlreadyDone lro_state

record ('r, 'e, 'm) lro_store =
  lro_ops :: "('r, 'e, 'm) operation gomap"
  lro_seq :: nat

definition lro_NewStore :: "('r, 'e, 'm) lro_store" where
  "lro_NewStore = \<lparr>lro_ops = [], lro_seq = 0\<rparr>"

definition pending_op :: "string \<Rightarrow> string \<Rightarrow> time \<Rightarrow> time \<Rightarrow> ('r, 'e, 'm) operation" where
  "pending_op nm target t1 t2 =
     \<lparr>op_Name = nm, op_Target = target, op_State = StatePending, op_Error = None,
      op_Response = None, op_Metadata = None, op_Created = t1, op_Updated = t2\<rparr>"

definition lro_name :: "string \<Rightarrow> nat \<Rightarrow> string" where
  "lro_name parent n = parent @ ''/operations/op-'' @ nat_dec n"

definition lro_Create :: "string \<Rightarrow> string \<Rightarrow> time \<Rightarrow> time \<Rightarrow> ('r, 'e, 'm) lro_store \<Rightarrow>
    ('r, 'e, 'm) operation \<times> ('r, 'e, 'm) lro_store" where
  "lro_Create parent target t1 t2 s =
     (let n = Suc (lro_seq s);
          nm = lro_name parent n;
          o1 = pending_op nm target t1 t2
      in (o1, s\<lparr>lro_seq := n, lro_ops := AList.update nm o1 (lro_ops s)\<rparr>))"

definition lro_CreateNamed :: "string \<Rightarrow> string \<Rightarrow> time \<Rightarrow> time \<Rightarrow> ('r, 'e, 'm) lro_store \<Rightarrow>
    ('r, 'e, 'm) operation \<times> ('r, 'e, 'm) lro_store" where
  "lro_CreateNamed nm target t1 t2 s =
     (let o1 = pending_op nm target t1 t2 in (o1, s\<lparr>lro_ops := AList.update nm o1 (lro_ops s)\<rparr>))"

definition lro_finish :: "string \<Rightarrow> lro_state \<Rightarrow> 'r option \<Rightarrow> 'e option \<Rightarrow> time \<Rightarrow>
    ('r, 'e, 'm) lro_store \<Rightarrow> (lro_err + unit) \<times> ('r, 'e, 'm) lro_store" where
  "lro_finish nm st response cause t s =
     (case map_of (lro_ops s) nm of
        None \<Rightarrow> (Inl LroNotFound, s)
      | Some o1 \<Rightarrow>
          if op_Done o1 then (Inl (LroAlreadyDone (op_State o1)), s)
          else (Inr (), s\<lparr>lro_ops := AList.update nm
                 (o1\<lparr>op_State := st, op_Response := response, op_Error := cause, op_Updated := t\<rparr>)
                 (lro_ops s)\<rparr>))"

definition lro_Succeed :: "string \<Rightarrow> 'r option \<Rightarrow> time \<Rightarrow> ('r, 'e, 'm) lro_store \<Rightarrow>
    (lro_err + unit) \<times> ('r, 'e, 'm) lro_store" where
  "lro_Succeed nm response t s = lro_finish nm StateSucceeded response None t s"

definition lro_Fail :: "string \<Rightarrow> 'e option \<Rightarrow> time \<Rightarrow> ('r, 'e, 'm) lro_store \<Rightarrow>
    (lro_err + unit) \<times> ('r, 'e, 'm) lro_store" where
  "lro_Fail nm cause t s = lro_finish nm StateFailed None cause t s"

definition lro_SetMetadata :: "string \<Rightarrow> 'm option \<Rightarrow> time \<Rightarrow> ('r, 'e, 'm) lro_store \<Rightarrow>
    (lro_err + unit) \<times> ('r, 'e, 'm) lro_store" where
  "lro_SetMetadata nm metadata t s =
     (case map_of (lro_ops s) nm of
        None \<Rightarrow> (Inl LroNotFound, s)
      | Some o1 \<Rightarrow>
          (Inr (), s\<lparr>lro_ops := AList.update nm (o1\<lparr>op_Metadata := metadata, op_Updated := t\<rparr>) (lro_ops s)\<rparr>))"

definition lro_Get :: "('r, 'e, 'm) lro_store \<Rightarrow> string \<Rightarrow> lro_err + ('r, 'e, 'm) operation" where
  "lro_Get s nm = (case map_of (lro_ops s) nm of None \<Rightarrow> Inl LroNotFound | Some o1 \<Rightarrow> Inr o1)"

definition lro_Delete :: "string \<Rightarrow> ('r, 'e, 'm) lro_store \<Rightarrow> (lro_err + unit) \<times> ('r, 'e, 'm) lro_store" where
  "lro_Delete nm s =
     (case map_of (lro_ops s) nm of
        None \<Rightarrow> (Inl LroNotFound, s)
      | Some _ \<Rightarrow> (Inr (), s\<lparr>lro_ops := AList.delete nm (lro_ops s)\<rparr>))"

section \<open>Listing\<close>

text \<open>
  The two nested loops that order a listing, on what is still to be ordered: \<open>exch_pass x xs\<close> is the
  inner loop with \<open>x\<close> at position \<open>i\<close> and \<open>xs\<close> after it, exchanging whenever a later name is
  smaller.
\<close>

fun exch_pass :: "('r, 'e, 'm) operation \<Rightarrow> ('r, 'e, 'm) operation list \<Rightarrow>
    ('r, 'e, 'm) operation \<times> ('r, 'e, 'm) operation list" where
  "exch_pass x [] = (x, [])"
| "exch_pass x (y # ys) =
     (if op_Name y < op_Name x then apsnd (Cons x) (exch_pass y ys) else apsnd (Cons y) (exch_pass x ys))"

lemma length_exch_pass [simp]: "length (snd (exch_pass x ys)) = length ys"
  by (induction ys arbitrary: x) auto

function exch_sort :: "('r, 'e, 'm) operation list \<Rightarrow> ('r, 'e, 'm) operation list" where
  "exch_sort [] = []"
| "exch_sort (x # xs) = fst (exch_pass x xs) # exch_sort (snd (exch_pass x xs))"
  by pat_completeness auto
termination
  by (relation "measure length") simp_all

text \<open>\<open>order\<close> is the order in which \<open>range\<close> happens to visit the map.\<close>

definition lro_List :: "('r, 'e, 'm) operation gomap \<Rightarrow> string \<Rightarrow> ('r, 'e, 'm) operation list" where
  "lro_List order parent =
     exch_sort (map snd (filter (\<lambda>(nm, o1). parent = [] \<or>
       length nm > length parent \<and> take (length parent) nm = parent) order))"

section \<open>Lemmas\<close>

lemma exch_pass_mset:
  "add_mset (fst (exch_pass x ys)) (mset (snd (exch_pass x ys))) = add_mset x (mset ys)"
proof (induction ys arbitrary: x)
  case (Cons y ys)
  show ?case
  proof (cases "op_Name y < op_Name x")
    case True
    then have "add_mset (fst (exch_pass x (y # ys))) (mset (snd (exch_pass x (y # ys)))) =
        add_mset x (add_mset (fst (exch_pass y ys)) (mset (snd (exch_pass y ys))))"
      by (simp add: add_mset_commute)
    also have "\<dots> = add_mset x (mset (y # ys))" by (simp add: Cons.IH)
    finally show ?thesis .
  next
    case False
    then have "add_mset (fst (exch_pass x (y # ys))) (mset (snd (exch_pass x (y # ys)))) =
        add_mset y (add_mset (fst (exch_pass x ys)) (mset (snd (exch_pass x ys))))"
      by (simp add: add_mset_commute)
    also have "\<dots> = add_mset x (mset (y # ys))" by (simp add: Cons.IH add_mset_commute)
    finally show ?thesis .
  qed
qed simp

lemma exch_pass_min:
  "op_Name (fst (exch_pass x ys)) \<le> op_Name x \<and>
   (\<forall>z \<in> set ys. op_Name (fst (exch_pass x ys)) \<le> op_Name z)"
proof (induction ys arbitrary: x)
  case (Cons y ys)
  show ?case
  proof (cases "op_Name y < op_Name x")
    case True
    then show ?thesis using Cons [of y] by (auto intro: order_trans less_imp_le)
  next
    case False
    then have "op_Name (fst (exch_pass x ys)) \<le> op_Name y"
      using Cons [of x] by (meson order_trans not_less)
    with False show ?thesis using Cons [of x] by simp
  qed
qed simp

lemma mset_exch_sort [simp]: "mset (exch_sort xs) = mset xs"
proof (induction xs rule: exch_sort.induct)
  case (2 x xs)
  then show ?case using exch_pass_mset [of x xs] by simp
qed simp

lemma set_exch_sort [simp]: "set (exch_sort xs) = set xs"
  using mset_exch_sort mset_eq_setD by blast

lemma sorted_exch_sort: "sorted (map op_Name (exch_sort xs))"
proof (induction xs rule: exch_sort.induct)
  case (2 x xs)
  let ?r = "exch_pass x xs"
  have "set (snd ?r) \<subseteq> insert x (set xs)"
    using exch_pass_mset [of x xs] by (metis set_mset_add_mset_insert set_mset_mset subset_insertI)
  then have "\<forall>z \<in> set (snd ?r). op_Name (fst ?r) \<le> op_Name z"
    using exch_pass_min [of x xs] by auto
  with 2 show ?case by auto
qed simp

text \<open>Every entry of the map is under its own name, and \<open>Create\<close> has not used up a later number.\<close>

definition op_number :: "string \<Rightarrow> nat" where
  "op_number nm = dec_val (after_last (CHR ''-'') nm)"

definition lro_inv :: "('r, 'e, 'm) lro_store \<Rightarrow> bool" where
  "lro_inv s \<longleftrightarrow> gomap_ok (lro_ops s) \<and>
     (\<forall>nm o1. map_of (lro_ops s) nm = Some o1 \<longrightarrow> op_Name o1 = nm)"

lemma after_last_append: "c \<notin> set b \<Longrightarrow> after_last c (a @ c # b) = b"
proof -
  assume "c \<notin> set b"
  then have "takeWhile (\<lambda>x. x \<noteq> c) (rev b) = rev b" by (auto simp: takeWhile_eq_all_conv)
  then show ?thesis unfolding after_last_def by (simp add: takeWhile_tail del: takeWhile_eq_all_conv)
qed

lemma op_number_lro_name [simp]: "op_number (lro_name parent n) = n"
proof -
  have "CHR ''-'' \<notin> set (nat_dec n)"
    using nat_dec_digits [of "CHR ''-''" n] by (auto simp: is_digit_def less_eq_char_def)
  then show ?thesis
    using after_last_append [of "CHR ''-''" "nat_dec n" "parent @ ''/operations/op''"]
    by (simp add: op_number_def lro_name_def)
qed

text \<open>A call on the store, and the store after it.\<close>

datatype ('r, 'e, 'm) lro_call =
    CallCreate string string time time
  | CallCreateNamed string string time time
  | CallSucceed string "'r option" time
  | CallFail string "'e option" time
  | CallSetMetadata string "'m option" time
  | CallDelete string

fun lro_after :: "('r, 'e, 'm) lro_call \<Rightarrow> ('r, 'e, 'm) lro_store \<Rightarrow> ('r, 'e, 'm) lro_store" where
  "lro_after (CallCreate p tg t1 t2) s = snd (lro_Create p tg t1 t2 s)"
| "lro_after (CallCreateNamed nm tg t1 t2) s = snd (lro_CreateNamed nm tg t1 t2 s)"
| "lro_after (CallSucceed nm r t) s = snd (lro_Succeed nm r t s)"
| "lro_after (CallFail nm e t) s = snd (lro_Fail nm e t s)"
| "lro_after (CallSetMetadata nm md t) s = snd (lro_SetMetadata nm md t s)"
| "lro_after (CallDelete nm) s = snd (lro_Delete nm s)"

fun forgets :: "string \<Rightarrow> ('r, 'e, 'm) lro_call \<Rightarrow> bool" where
  "forgets nm (CallCreateNamed nm' _ _ _) = (nm = nm')"
| "forgets nm (CallDelete nm') = (nm = nm')"
| "forgets nm _ = False"

lemmas lro_defs = lro_Create_def lro_CreateNamed_def lro_Succeed_def lro_Fail_def lro_finish_def
  lro_SetMetadata_def lro_Delete_def lro_Get_def pending_op_def Let_def

lemma lro_inv_after: "lro_inv s \<Longrightarrow> lro_inv (lro_after c s)"
  by (cases c) (auto simp: lro_inv_def lro_defs go_map split: option.splits if_splits)

lemma lro_seq_after: "lro_seq s \<le> lro_seq (lro_after c s)"
  by (cases c) (auto simp: lro_defs split: option.splits)

text \<open>What stays of a finished operation.\<close>

definition same_outcome :: "('r, 'e, 'm) operation \<Rightarrow> ('r, 'e, 'm) operation \<Rightarrow> bool" where
  "same_outcome a b \<longleftrightarrow>
     op_State a = op_State b \<and> op_Response a = op_Response b \<and> op_Error a = op_Error b"

lemma outcome_after:
  assumes "map_of (lro_ops s) nm = Some o1" "op_Done o1" "\<not> forgets nm c"
    and "\<forall>p n. nm = lro_name p n \<longrightarrow> n \<le> lro_seq s"
  shows "\<exists>o2. map_of (lro_ops (lro_after c s)) nm = Some o2 \<and> same_outcome o2 o1"
proof (cases c)
  case (CallCreate p tg t1 t2)
  have "nm \<noteq> lro_name p (Suc (lro_seq s))" using assms(4) by (metis not_less_eq_eq order_refl)
  with assms CallCreate show ?thesis by (auto simp: lro_defs go_map same_outcome_def)
qed (use assms in \<open>auto simp: lro_defs go_map same_outcome_def split: option.splits\<close>)

lemma outcome_run:
  "map_of (lro_ops s) nm = Some o1 \<Longrightarrow> op_Done o1 \<Longrightarrow> list_all (\<lambda>c. \<not> forgets nm c) cs \<Longrightarrow>
   \<forall>p n. nm = lro_name p n \<longrightarrow> n \<le> lro_seq s \<Longrightarrow>
   \<exists>o2. map_of (lro_ops (fold lro_after cs s)) nm = Some o2 \<and> same_outcome o2 o1"
proof (induction cs arbitrary: s o1)
  case Nil
  then show ?case by (simp add: same_outcome_def)
next
  case (Cons c cs)
  have nf: "\<not> forgets nm c" using Cons.prems(3) by simp
  obtain o2 where o2: "map_of (lro_ops (lro_after c s)) nm = Some o2" "same_outcome o2 o1"
    using outcome_after [OF Cons.prems(1,2) nf Cons.prems(4)] by blast
  have "op_Done o2" using o2(2) Cons.prems(2) by (simp add: op_Done_def same_outcome_def)
  moreover have "\<forall>p n. nm = lro_name p n \<longrightarrow> n \<le> lro_seq (lro_after c s)"
    using Cons.prems(4) lro_seq_after [of s c] order_trans by blast
  moreover have "list_all (\<lambda>c. \<not> forgets nm c) cs" using Cons.prems(3) by simp
  ultimately obtain o3 where "map_of (lro_ops (fold lro_after (c # cs) s)) nm = Some o3"
    "same_outcome o3 o2" using Cons.IH [OF o2(1)] by auto
  with o2(2) show ?case by (auto simp: same_outcome_def)
qed

text \<open>C25: A terminal state is final. Once an operation has succeeded or failed, no sequence of calls
  changes its state, response or error, short of deleting it or registering its name again; a name
  \<open>Create\<close> has given out is never given out again.\<close>

theorem terminal_states_are_final:
  assumes "lro_Get s nm = Inr o1" "op_Done o1" "list_all (\<lambda>c. \<not> forgets nm c) cs"
    and "\<forall>p n. nm = lro_name p n \<longrightarrow> n \<le> lro_seq s"
  shows "\<exists>o2. lro_Get (fold lro_after cs s) nm = Inr o2 \<and> op_State o2 = op_State o1 \<and>
    op_Response o2 = op_Response o1 \<and> op_Error o2 = op_Error o1"
proof -
  have "map_of (lro_ops s) nm = Some o1" using assms(1) by (simp add: lro_Get_def split: option.splits)
  from outcome_run [OF this assms(2-4)] show ?thesis by (auto simp: lro_Get_def same_outcome_def)
qed

definition lro_example :: "(nat, string, nat) lro_store" where
  "lro_example = fold lro_after [CallCreate ''p'' ''t'' 1 1, CallSucceed ''p/operations/op-1'' (Some 7) 2] lro_NewStore"

lemma lro_example_eq:
  "lro_example = \<lparr>lro_ops = [(''p/operations/op-1'', \<lparr>op_Name = ''p/operations/op-1'', op_Target = ''t'',
     op_State = StateSucceeded, op_Error = None, op_Response = Some 7, op_Metadata = None,
     op_Created = 1, op_Updated = 2\<rparr>)], lro_seq = 1\<rparr>"
  unfolding lro_example_def by code_simp

theorem terminal_states_are_final_witness:
  "\<exists>o2. lro_Get (fold lro_after [CallFail ''p/operations/op-1'' (Some ''late'') 3, CallCreate ''p'' ''u'' 4 4]
       lro_example) ''p/operations/op-1'' = Inr o2 \<and> op_State o2 = StateSucceeded \<and> op_Response o2 = Some 7"
proof -
  have "n \<le> lro_seq lro_example" if "''p/operations/op-1'' = lro_name p n" for p n
  proof -
    have "n = op_number ''p/operations/op-1''" using that by simp
    also have "\<dots> = 1" by code_simp
    finally show ?thesis by (simp add: lro_example_eq)
  qed
  then show ?thesis
    using terminal_states_are_final [of lro_example "''p/operations/op-1''" _
        "[CallFail ''p/operations/op-1'' (Some ''late'') 3, CallCreate ''p'' ''u'' 4 4]"]
    by (auto simp: lro_example_eq lro_Get_def op_Done_def simp del: fold.simps)
qed

text \<open>Which entries a listing shows.\<close>

definition is_under :: "string \<Rightarrow> string \<Rightarrow> bool" where
  "is_under parent nm \<longleftrightarrow> parent = [] \<or> length nm > length parent \<and> take (length parent) nm = parent"

lemma is_under_iff: "is_under parent nm \<longleftrightarrow> parent = [] \<or> strict_prefix parent nm"
proof -
  have "length nm > length parent \<and> take (length parent) nm = parent \<longleftrightarrow> strict_prefix parent nm"
  proof
    assume "length nm > length parent \<and> take (length parent) nm = parent"
    then show "strict_prefix parent nm"
      by (metis take_is_prefix strict_prefix_def less_irrefl)
  next
    assume "strict_prefix parent nm"
    then show "length nm > length parent \<and> take (length parent) nm = parent"
      by (auto simp: strict_prefix_def prefix_def)
  qed
  then show ?thesis by (simp add: is_under_def)
qed

lemma lro_List_under: "lro_List order parent = exch_sort (map snd (filter (\<lambda>x. is_under parent (fst x)) order))"
  by (simp add: lro_List_def is_under_def case_prod_unfold)

lemma lro_inv_name: "lro_inv s \<Longrightarrow> x \<in> set (lro_ops s) \<Longrightarrow> op_Name (snd x) = fst x"
  by (cases x) (simp add: lro_inv_def gomap_ok_def)

lemma lro_List_names:
  assumes "lro_inv s" "mset order = mset (lro_ops s)"
  shows "distinct (map op_Name (lro_List order parent))"
proof -
  have st: "set order = set (lro_ops s)" using assms(2) mset_eq_setD by blast
  have "map op_Name (map snd (filter (\<lambda>x. is_under parent (fst x)) order)) =
      map fst (filter (\<lambda>x. is_under parent (fst x)) order)"
    using lro_inv_name [OF assms(1)] st by simp
  moreover have "distinct (map fst order)"
    using assms by (metis gomap_ok_def lro_inv_def mset_eq_imp_distinct_iff mset_map)
  ultimately have "distinct (map op_Name (map snd (filter (\<lambda>x. is_under parent (fst x)) order)))"
    using distinct_map_filter by metis
  then show ?thesis unfolding lro_List_under by (metis mset_eq_imp_distinct_iff mset_exch_sort mset_map)
qed

lemma set_lro_List:
  assumes "lro_inv s" "set order = set (lro_ops s)"
  shows "set (lro_List order parent) = {o1. \<exists>nm. map_of (lro_ops s) nm = Some o1 \<and> is_under parent nm}"
  using assms by (force simp: lro_List_under lro_inv_def gomap_ok_def image_iff)

text \<open>A listing does not depend on the order in which the map is visited: the exchange sort gives
  the operations under the parent, each once, by name.\<close>

theorem lro_List_deterministic:
  assumes "lro_inv s" "mset order = mset (lro_ops s)"
  shows "lro_List order parent = lro_List (lro_ops s) parent \<and>
    sorted (map op_Name (lro_List order parent)) \<and> distinct (map op_Name (lro_List order parent)) \<and>
    set (lro_List order parent) =
      {o1. \<exists>nm. map_of (lro_ops s) nm = Some o1 \<and> (parent = [] \<or> strict_prefix parent nm)}"
proof -
  have st: "set order = set (lro_ops s)" using assms(2) mset_eq_setD by blast
  note sets = set_lro_List [OF assms(1) st, of parent] set_lro_List [OF assms(1) refl, of parent]
  have "inj_on op_Name (set (lro_List order parent) \<union> set (lro_List (lro_ops s) parent))"
    using assms(1) unfolding sets by (auto simp: inj_on_def lro_inv_def)
  then have "lro_List order parent = lro_List (lro_ops s) parent"
    using lro_List_names [OF assms(1)] assms(2) sets
    by (intro map_sorted_distinct_set_unique [of op_Name]) (simp_all add: lro_List_under sorted_exch_sort)
  then show ?thesis
    using sets(1) lro_List_names [OF assms, of parent]
    by (simp add: is_under_iff) (simp add: lro_List_under sorted_exch_sort)
qed

theorem lro_List_deterministic_witness:
  "sorted (map op_Name (lro_List (lro_ops lro_example) ''p''))"
proof -
  have "lro_inv lro_example" by (simp add: lro_example_eq lro_inv_def gomap_ok_def)
  from lro_List_deterministic [OF this refl, of "''p''"] show ?thesis by blast
qed

end
