(* ===== verification/Float64.thy ===== *)
theory Float64
  imports Prelude "HOL-Library.Log_Nat"
begin

text \<open>
  Go's \<open>float64\<close>, as far as the retry schedules use it: IEEE 754 values as rationals with infinities
  and NaN, every operation rounded once to the nearest value with ties to even, and \<open>math.Pow\<close> as the
  standard library computes it. The sign of zero is not kept; nothing modelled here can see it.
\<close>

datatype f64 = Fin rat | PInf | NInf | NaN

section \<open>Rounding\<close>

definition round_even :: "rat \<Rightarrow> int" where
  "round_even m =
     (let f = \<lfloor>m\<rfloor>; r = m - of_int f in
      if r < 1 / 2 then f else if r > 1 / 2 then f + 1 else if even f then f else f + 1)"

text \<open>The exponent \<open>e\<close> with \<open>2^e \<le> x < 2^(e+1)\<close>, for positive \<open>x\<close>.\<close>

definition expo :: "rat \<Rightarrow> int" where
  "expo x =
     (if x \<ge> 1 then int (floorlog 2 (nat \<lfloor>x\<rfloor>)) - 1
      else - int (floorlog 2 (nat (\<lceil>1 / x\<rceil> - 1))))"

text \<open>The exponent of the last of 53 bits, not below that of the subnormal numbers.\<close>

definition ulp :: "rat \<Rightarrow> int" where
  "ulp x = max (expo x - 52) (- 1074)"

definition round_mag :: "rat \<Rightarrow> rat" where
  "round_mag x = of_int (round_even (x / 2 powi ulp x)) * 2 powi ulp x"

definition f64_limit :: rat where
  "f64_limit = 2 ^ 1024"

definition round64 :: "rat \<Rightarrow> f64" where
  "round64 x =
     (if x = 0 then Fin 0
      else let m = round_mag \<bar>x\<bar> in
        if m \<ge> f64_limit then (if x > 0 then PInf else NInf)
        else Fin (if x > 0 then m else - m))"

section \<open>Operations\<close>

definition f64_of_int :: "int \<Rightarrow> f64" where
  "f64_of_int n = round64 (of_int n)"

fun f64_pos :: "f64 \<Rightarrow> bool" where
  "f64_pos (Fin x) = (x > 0)"
| "f64_pos PInf = True"
| "f64_pos _ = False"

fun f64_mult :: "f64 \<Rightarrow> f64 \<Rightarrow> f64" where
  "f64_mult (Fin x) (Fin y) = round64 (x * y)"
| "f64_mult NaN _ = NaN"
| "f64_mult _ NaN = NaN"
| "f64_mult a b =
     (if a = Fin 0 \<or> b = Fin 0 then NaN else if f64_pos a = f64_pos b then PInf else NInf)"

fun f64_div :: "f64 \<Rightarrow> f64 \<Rightarrow> f64" where
  "f64_div (Fin x) (Fin y) =
     (if y = 0 then (if x = 0 then NaN else if x > 0 then PInf else NInf) else round64 (x / y))"
| "f64_div (Fin x) PInf = Fin 0"
| "f64_div (Fin x) NInf = Fin 0"
| "f64_div PInf (Fin y) = (if y < 0 then NInf else PInf)"
| "f64_div NInf (Fin y) = (if y < 0 then PInf else NInf)"
| "f64_div _ _ = NaN"

text \<open>\<open>a < b\<close>; every comparison with NaN is false.\<close>

fun f64_less :: "f64 \<Rightarrow> f64 \<Rightarrow> bool" where
  "f64_less (Fin x) (Fin y) = (x < y)"
| "f64_less (Fin x) PInf = True"
| "f64_less NInf (Fin y) = True"
| "f64_less NInf PInf = True"
| "f64_less _ _ = False"

definition IsInf :: "f64 \<Rightarrow> bool" where
  "IsInf a \<longleftrightarrow> a = PInf \<or> a = NInf"

definition trunc :: "rat \<Rightarrow> int" where
  "trunc x = (if x < 0 then \<lceil>x\<rceil> else \<lfloor>x\<rfloor>)"

text \<open>
  Conversion to \<open>int64\<close> truncates. Out of range the language leaves the result to the implementation;
  on amd64 it is the smallest integer.
\<close>

fun int64_of_f64 :: "f64 \<Rightarrow> int" where
  "int64_of_f64 (Fin x) = (if min_int64 \<le> trunc x \<and> trunc x \<le> max_int64 then trunc x else min_int64)"
| "int64_of_f64 _ = min_int64"

text \<open>
  \<open>math.Pow(x, y)\<close> for \<open>x > 0\<close> and integral \<open>y\<close>: repeated squaring of the fraction that
  \<open>Frexp\<close> splits off, with the exponents summed apart, put together by \<open>Ldexp\<close>.
\<close>

definition frexp :: "rat \<Rightarrow> rat \<times> int" where
  "frexp x = (x / 2 powi (expo x + 1), expo x + 1)"

function pow_loop :: "nat \<Rightarrow> rat \<Rightarrow> int \<Rightarrow> rat \<Rightarrow> int \<Rightarrow> rat \<times> int" where
  "pow_loop i x1 xe a1 ae =
     (if i = 0 then (a1, ae)
      else if xe < - 4096 \<or> 4096 < xe then (a1, ae + xe)
      else
        let (a1', ae') = (if odd i then (round_mag (a1 * x1), ae + xe) else (a1, ae));
            x2 = round_mag (x1 * x1);
            (x3, xe3) = (if x2 < 1 / 2 then (x2 + x2, 2 * xe - 1) else (x2, 2 * xe))
        in pow_loop (i div 2) x3 xe3 a1' ae')"
  by pat_completeness auto
termination
  by (relation "measure (\<lambda>(i, _). i)") auto

declare pow_loop.simps [simp del]

definition pow_int :: "rat \<Rightarrow> int \<Rightarrow> f64" where
  "pow_int x n =
     (if n = 0 \<or> x = 1 then Fin 1
      else if n = 1 then Fin x
      else
        let (x1, xe) = frexp x;
            (a1, ae) = pow_loop (nat \<bar>n\<bar>) x1 xe 1 0
        in if n < 0 then round64 (round_mag (1 / a1) * 2 powi (- ae)) else round64 (a1 * 2 powi ae))"

fun Pow :: "f64 \<Rightarrow> f64 \<Rightarrow> f64" where
  "Pow (Fin x) (Fin y) = pow_int x \<lfloor>y\<rfloor>"
| "Pow PInf (Fin y) = (if y = 0 then Fin 1 else if y > 0 then PInf else Fin 0)"
| "Pow _ (Fin y) = (if y = 0 then Fin 1 else NaN)"
| "Pow a _ = (if a = Fin 1 then Fin 1 else NaN)"

section \<open>Rounding of numbers from 1 on\<close>

lemma floorlog_eqI: "2 ^ k \<le> n \<Longrightarrow> n < 2 ^ Suc k \<Longrightarrow> floorlog 2 n = Suc k"
  by (intro antisym floorlog_leI floorlog_ge_SucI) simp_all

lemma expo_ge_1:
  assumes "1 \<le> x"
  obtains n where "expo x = int n" "2 ^ n \<le> x" "x < 2 ^ Suc n"
proof -
  let ?m = "nat \<lfloor>x\<rfloor>"
  have m: "0 < ?m" using assms by (simp add: le_floor_iff)
  obtain n where n: "floorlog 2 ?m = Suc n"
    using m floorlog_eq_zero_iff [of 2 ?m] by (cases "floorlog 2 ?m") auto
  have b: "2 ^ n \<le> ?m" "?m < 2 ^ Suc n" using floorlog_bounds [of ?m 2] m n by simp_all
  then have "(2 :: int) ^ n \<le> \<lfloor>x\<rfloor>" "\<lfloor>x\<rfloor> < (2 :: int) ^ Suc n"
    using m by (simp_all add: le_nat_iff nat_less_iff)
  then have "2 ^ n \<le> x" "x < 2 ^ Suc n"
    by (simp_all add: le_floor_iff floor_less_iff)
  moreover have "expo x = int n" using assms n by (simp add: expo_def)
  ultimately show thesis using that by blast
qed

lemma round_even_int [simp]: "round_even (of_int n) = n"
  by (simp add: round_even_def Let_def)

lemma round_even_ge: "of_int n \<le> m \<Longrightarrow> n \<le> round_even m"
proof -
  assume "of_int n \<le> m"
  then have "n \<le> \<lfloor>m\<rfloor>" by (simp add: le_floor_iff)
  moreover have "\<lfloor>m\<rfloor> \<le> round_even m" by (simp add: round_even_def Let_def)
  ultimately show ?thesis by simp
qed

lemma round_mag_exact: "x / 2 powi ulp x = of_int n \<Longrightarrow> round_mag x = x"
  by (simp add: round_mag_def) (metis nonzero_divide_eq_eq power_int_not_zero zero_neq_numeral)

lemma powi_diff_52: "(2 :: rat) powi (int n - 52) = 2 ^ n / 2 ^ 52"
  by (simp add: power_int_diff)

lemma ulp_ge_1: "expo x = int n \<Longrightarrow> ulp x = int n - 52"
  by (simp add: ulp_def)

text \<open>Integers up to \<open>2^53\<close> are values, and nothing from there on rounds below it.\<close>

lemma round_mag_int:
  assumes "1 \<le> n" "n \<le> 2 ^ 53"
  shows "round_mag (of_int n) = of_int n"
proof -
  have "(1 :: rat) \<le> of_int n" using assms by simp
  then obtain e where e: "expo (of_int n) = int e" "2 ^ e \<le> (of_int n :: rat)" "(of_int n :: rat) < 2 ^ Suc e"
    using expo_ge_1 by blast
  show ?thesis
  proof (cases "e \<le> 52")
    case True
    then have "(2 :: rat) ^ (52 - e) = 2 ^ 52 / 2 ^ e" by (intro power_diff) simp_all
    then have "(of_int n :: rat) / 2 powi ulp (of_int n) = of_int (n * 2 ^ (52 - e))"
      unfolding ulp_ge_1 [OF e(1)] powi_diff_52 of_int_mult of_int_power of_int_numeral by simp
    then show ?thesis by (rule round_mag_exact)
  next
    case False
    have "(of_int n :: rat) \<le> of_int (2 ^ 53)" using assms(2) by (simp only: of_int_le_iff)
    with e(2) have "(2 :: rat) ^ e \<le> of_int (2 ^ 53)" by (rule order_trans)
    then have "(2 :: rat) ^ e \<le> 2 ^ 53" by simp
    then have "e \<le> 53" using power_le_imp_le_exp [of "2 :: rat" e 53] by linarith
    with False have e53: "e = 53" by simp
    have "(of_int (2 ^ 53) :: rat) \<le> of_int n" using e(2) e53 by simp
    then have "n = 2 ^ 53" using assms(2) by (simp only: of_int_le_iff)
    then have "(of_int n :: rat) / 2 powi ulp (of_int n) = of_int (2 ^ 52)"
      using ulp_ge_1 [OF e(1)] e53 by simp
    then show ?thesis by (rule round_mag_exact)
  qed
qed

lemma round_mag_ge_pow:
  assumes "2 ^ n \<le> x"
  shows "2 ^ n \<le> round_mag x"
proof -
  have "1 \<le> x" using order_trans [OF one_le_power [of "2 :: rat" n] assms] by simp
  then obtain e where e: "expo x = int e" "2 ^ e \<le> x" "x < 2 ^ Suc e" using expo_ge_1 by blast
  have "(2 :: rat) ^ n < 2 ^ Suc e" using assms e(3) by simp
  then have "n \<le> e" using power_less_imp_less_exp [of "2 :: rat" n "Suc e"] by simp
  have "of_int (2 ^ 52) \<le> x / 2 powi ulp x"
    using e(2) by (simp add: ulp_ge_1 [OF e(1)] powi_diff_52 field_simps)
  then have "2 ^ 52 \<le> round_even (x / 2 powi ulp x)" by (rule round_even_ge)
  then have "(of_int (2 ^ 52) :: rat) \<le> of_int (round_even (x / 2 powi ulp x))" by (simp only: of_int_le_iff)
  then have "of_int (2 ^ 52) * 2 powi ulp x \<le> round_mag x"
    unfolding round_mag_def by (intro mult_right_mono) simp_all
  moreover have "of_int (2 ^ 52) * 2 powi ulp x = (2 :: rat) ^ e"
    by (simp add: ulp_ge_1 [OF e(1)] powi_diff_52)
  moreover have "(2 :: rat) ^ n \<le> 2 ^ e" using \<open>n \<le> e\<close> by (intro power_increasing) simp_all
  ultimately show ?thesis by (metis order_trans)
qed

lemmas round_mag_big = round_mag_ge_pow [of 53]

lemma round_mag_le_double:
  assumes "1 \<le> x"
  shows "round_mag x \<le> 2 * x"
proof -
  obtain e where e: "expo x = int e" "2 ^ e \<le> x" using expo_ge_1 [OF assms] by blast
  let ?u = "2 powi ulp x :: rat"
  have "?u = 2 ^ e / 2 ^ 52" using ulp_ge_1 [OF e(1)] powi_diff_52 by simp
  also have "\<dots> \<le> 2 ^ e" by (simp add: field_simps)
  finally have u: "?u \<le> x" "0 < ?u" using e(2) by simp_all
  have "round_even (x / ?u) \<le> \<lfloor>x / ?u\<rfloor> + 1" by (simp add: round_even_def Let_def)
  then have "(of_int (round_even (x / ?u)) :: rat) \<le> of_int (\<lfloor>x / ?u\<rfloor> + 1)" by (simp only: of_int_le_iff)
  also have "\<dots> \<le> x / ?u + 1" by simp
  finally have "round_mag x \<le> (x / ?u + 1) * ?u"
    unfolding round_mag_def using u(2) by (intro mult_right_mono) simp_all
  also have "\<dots> = x + ?u" using u(2) by (simp add: field_simps)
  finally show ?thesis using u(1) by simp
qed

section \<open>Small integers are exact, large ones stay large\<close>

text \<open>At least \<open>2^53\<close>, possibly infinite.\<close>

definition f64_big :: "f64 \<Rightarrow> bool" where
  "f64_big a \<longleftrightarrow> a = PInf \<or> (\<exists>x \<ge> 2 ^ 53. a = Fin x)"

text \<open>A float that stands for a positive integer: exactly, while that is at most \<open>2^53\<close>.\<close>

definition stands_for :: "f64 \<Rightarrow> int \<Rightarrow> bool" where
  "stands_for a n \<longleftrightarrow> (if n \<le> 2 ^ 53 then a = Fin (of_int n) else f64_big a)"

lemma round64_big: "2 ^ 53 \<le> x \<Longrightarrow> f64_big (round64 x)"
  using round_mag_big [of x] by (auto simp: round64_def f64_big_def Let_def)

lemma round64_int: "1 \<le> n \<Longrightarrow> n \<le> 2 ^ 53 \<Longrightarrow> round64 (of_int n) = Fin (of_int n)"
proof -
  assume n: "1 \<le> n" "n \<le> 2 ^ 53"
  have "(of_int n :: rat) \<le> of_int (2 ^ 53)" using n by (simp only: of_int_le_iff)
  also have "\<dots> < f64_limit" by (simp add: f64_limit_def)
  finally have "\<not> f64_limit \<le> of_int n" by simp
  then show ?thesis using n round_mag_int [OF n] by (simp add: round64_def)
qed

lemma stands_for_round64: "1 \<le> n \<Longrightarrow> stands_for (round64 (of_int n)) n"
proof (cases "n \<le> 2 ^ 53")
  case False
  then have "(of_int (2 ^ 53) :: rat) \<le> of_int n" by (simp only: of_int_le_iff)
  then have "(2 :: rat) ^ 53 \<le> of_int n" by simp
  with False show ?thesis using round64_big by (simp add: stands_for_def)
qed (simp add: stands_for_def round64_int)

lemma stands_for_of_int: "1 \<le> n \<Longrightarrow> stands_for (f64_of_int n) n"
  by (simp add: f64_of_int_def stands_for_round64)

lemma big_mult:
  assumes "f64_big a" "b = Fin y" "1 \<le> y"
  shows "f64_big (f64_mult a b) \<and> f64_big (f64_mult b a)"
proof (cases a)
  case (Fin x)
  have x: "2 ^ 53 \<le> x" using assms(1) Fin by (simp add: f64_big_def)
  have "x * 1 \<le> x * y" using x assms(3) by (intro mult_left_mono) simp_all
  with x have "2 ^ 53 \<le> x * y" by linarith
  with Fin assms(2) show ?thesis using round64_big by (simp add: mult.commute)
qed (use assms in \<open>auto simp: f64_big_def\<close>)

lemma stands_for_mult:
  assumes "stands_for a m" "stands_for b n" "1 \<le> m" "1 \<le> n"
  shows "stands_for (f64_mult a b) (m * n)"
proof -
  have mn: "m \<le> m * n" "n \<le> m * n" using assms(3,4) by (simp_all add: mult_le_cancel_left1 mult_le_cancel_right1)
  consider "m \<le> 2 ^ 53" "n \<le> 2 ^ 53" | "\<not> m \<le> 2 ^ 53" "n \<le> 2 ^ 53" | "m \<le> 2 ^ 53" "\<not> n \<le> 2 ^ 53"
    | "\<not> m \<le> 2 ^ 53" "\<not> n \<le> 2 ^ 53" by blast
  then show ?thesis
  proof cases
    case 1
    then have "f64_mult a b = round64 (of_int (m * n))" using assms(1,2) by (simp add: stands_for_def)
    moreover have "1 \<le> m * n" using assms(3,4) mn by linarith
    ultimately show ?thesis using stands_for_round64 [of "m * n"] by metis
  next
    case 2
    then have "f64_big a" "b = Fin (of_int n)" using assms(1,2) by (simp_all add: stands_for_def)
    moreover have "\<not> m * n \<le> 2 ^ 53" using 2(1) mn by linarith
    ultimately have "f64_big a" "b = Fin (of_int n)" "\<not> m * n \<le> 2 ^ 53" by blast+
    then show ?thesis using big_mult [of a b "of_int n"] assms(4) by (simp add: stands_for_def)
  next
    case 3
    then have "f64_big b" "a = Fin (of_int m)" using assms(1,2) by (simp_all add: stands_for_def)
    moreover have "\<not> m * n \<le> 2 ^ 53" using 3(2) mn by linarith
    ultimately have "f64_big b" "a = Fin (of_int m)" "\<not> m * n \<le> 2 ^ 53" by blast+
    then show ?thesis using big_mult [of b a "of_int m"] assms(3) by (simp add: stands_for_def)
  next
    case 4
    then have big: "f64_big a" "f64_big b" using assms(1,2) by (simp_all add: stands_for_def)
    have large: "\<not> m * n \<le> 2 ^ 53" using 4(1) mn by linarith
    have "f64_big (f64_mult a b)"
    proof (cases b)
      case (Fin y)
      then show ?thesis using big_mult [OF big(1), of b y] big(2) by (auto simp: f64_big_def)
    next
      case PInf
      then show ?thesis using big(1) by (auto simp: f64_big_def)
    qed (use big(2) in \<open>auto simp: f64_big_def\<close>)
    then show ?thesis using large by (simp add: stands_for_def)
  qed
qed

section \<open>Powers of two\<close>

lemma expo_powi: "expo (2 powi z) = z"
proof (cases "0 \<le> z")
  case True
  then obtain n where z: "z = int n" using nonneg_int_cases by blast
  have "\<lfloor>(2 :: rat) ^ n\<rfloor> = 2 ^ n" by (metis floor_of_int of_int_numeral of_int_power)
  moreover have "floorlog 2 (2 ^ n) = Suc n" by (rule floorlog_eqI) simp_all
  ultimately show ?thesis by (simp add: expo_def z nat_power_eq)
next
  case False
  then obtain n where z: "z = - int (Suc n)" using neg_int_cases [of z] by (metis Suc_pred linorder_not_le)
  have x: "1 / (2 :: rat) powi z = 2 ^ Suc n"
    unfolding z power_int_minus_divide power_int_of_nat by simp
  have c: "\<lceil>(2 :: rat) ^ Suc n\<rceil> = 2 ^ Suc n" by (metis ceiling_of_int of_int_numeral of_int_power)
  have m: "nat (2 ^ Suc n - 1) = 2 ^ Suc n - 1"
    by (simp add: nat_diff_distrib' nat_mult_distrib nat_power_eq)
  have f: "floorlog 2 (2 ^ Suc n - 1) = Suc n" by (rule floorlog_eqI) simp_all
  have "\<not> (1 :: rat) \<le> 2 powi z"
    unfolding z power_int_minus_divide power_int_of_nat
    using one_less_power [of "2 :: rat" "Suc n"] by (simp add: not_le del: power_Suc)
  then have "expo (2 powi z) = - int (floorlog 2 (nat (\<lceil>1 / (2 :: rat) powi z\<rceil> - 1)))"
    by (simp add: expo_def)
  also have "\<dots> = z" by (simp only: x c m f) (simp add: z)
  finally show ?thesis .
qed

lemma round_mag_powi:
  assumes "- 1022 \<le> z"
  shows "round_mag (2 powi z) = 2 powi z"
proof -
  have u: "ulp (2 powi z) = z - 52" using assms by (simp add: ulp_def expo_powi)
  have "(2 :: rat) powi z / 2 powi (z - 52) = of_int (2 ^ 52)" by (simp add: power_int_diff)
  then show ?thesis using round_mag_exact [of "2 powi z" "2 ^ 52"] u by simp
qed

text \<open>
  The loop on a power of two: the fraction stays \<open>1/2\<close>, and the exponents carry the value. Where it
  stops early both the value it has and the one it computes are beyond the range.
\<close>

lemma pow_loop_two:
  "2 \<le> xe \<Longrightarrow> int c \<le> ae \<Longrightarrow> i < 2 ^ k \<Longrightarrow> c + k \<le> 1000 \<Longrightarrow>
   \<exists>a e z. pow_loop i (1 / 2) xe (2 powi (- int c)) ae = (a, e) \<and> a * 2 powi e = 2 powi z \<and>
    (z = ae - int c + int i * (xe - 1) \<or> 1024 \<le> z \<and> 1024 \<le> ae - int c + int i * (xe - 1))"
proof (induction k arbitrary: i xe c ae)
  case 0
  have "pow_loop 0 (1 / 2) xe (2 powi (- int c)) ae = (2 powi (- int c), ae)" by (simp add: pow_loop.simps)
  moreover have "2 powi (- int c) * 2 powi ae = (2 :: rat) powi (ae - int c)"
    by (simp flip: power_int_add)
  ultimately show ?case using 0(3) by auto
next
  case (Suc k)
  have quarter: "round_mag (1 / 4) = 1 / 4" using round_mag_powi [of "- 2"] by (simp add: power_int_minus_divide)
  consider "i = 0" | "i \<noteq> 0" "4096 < xe" | j where "i = 2 * j" "i \<noteq> 0" "xe \<le> 4096"
    | j where "i = 2 * j + 1" "xe \<le> 4096"
    by (metis evenE oddE linorder_not_le)
  then show ?case
  proof cases
    case 1
    then show ?thesis using Suc.IH [of xe c ae 0] Suc.prems by simp
  next
    case 2
    then have l: "pow_loop i (1 / 2) xe (2 powi (- int c)) ae = (2 powi (- int c), ae + xe)"
      by (subst pow_loop.simps) simp
    have v: "2 powi (- int c) * 2 powi (ae + xe) = (2 :: rat) powi (ae + xe - int c)"
      by (simp add: algebra_simps flip: power_int_add)
    have lim: "1024 \<le> ae + xe - int c" using 2(2) Suc.prems(2) by simp
    define t where "t = int i * (xe - 1)"
    have "1 * (xe - 1) \<le> t" unfolding t_def using 2 Suc.prems(1) by (intro mult_right_mono) simp_all
    then have "1024 \<le> ae - int c + t" using 2(2) Suc.prems(2) by simp
    then have "1024 \<le> ae - int c + int i * (xe - 1)" by (simp only: t_def)
    with l v lim show ?thesis by blast
  next
    case 3
    have l: "pow_loop i (1 / 2) xe (2 powi (- int c)) ae = pow_loop j (1 / 2) (2 * xe - 1) (2 powi (- int c)) ae"
      using 3 Suc.prems(1) by (subst pow_loop.simps) (simp add: quarter)
    have eq: "ae - int c + int i * (xe - 1) = ae - int c + int j * (2 * xe - 1 - 1)"
      by (simp add: 3 algebra_simps)
    show ?thesis unfolding l eq using Suc.prems 3 by (intro Suc.IH) simp_all
  next
    case 4
    have half: "round_mag (2 powi (- int c) * (1 / 2)) = 2 powi (- int (Suc c))"
    proof -
      have "2 powi (- int c) * (1 / 2) = (2 :: rat) powi (- int (Suc c))"
        by (simp only: power_int_minus_divide power_int_of_nat) simp
      then show ?thesis using round_mag_powi [of "- int (Suc c)"] Suc.prems(4) by simp
    qed
    have l: "pow_loop i (1 / 2) xe (2 powi (- int c)) ae =
        pow_loop j (1 / 2) (2 * xe - 1) (2 powi (- int (Suc c))) (ae + xe)"
      using 4 Suc.prems(1) by (subst pow_loop.simps) (simp add: quarter half [simplified])
    have eq: "ae - int c + int i * (xe - 1) = ae + xe - int (Suc c) + int j * (2 * xe - 1 - 1)"
      by (simp add: 4 algebra_simps)
    show ?thesis unfolding l eq using Suc.prems 4 by (intro Suc.IH) simp_all
  qed
qed

text \<open>\<open>math.Pow(2, n)\<close> is \<open>2^n\<close>, or infinite from \<open>2^1024\<close> on.\<close>

lemma round64_powi:
  assumes "0 \<le> z"
  shows "round64 (2 powi z) = (if z < 1024 then Fin (2 powi z) else PInf)"
proof -
  have "z < 1024 \<longleftrightarrow> (2 :: rat) powi z < f64_limit"
  proof -
    have "f64_limit = 2 powi (int 1024)" unfolding f64_limit_def power_int_of_nat ..
    then show ?thesis
      using power_int_strict_increasing [of z "int 1024" "2 :: rat"]
        power_int_increasing [of "int 1024" z "2 :: rat"] by (auto simp: not_less [symmetric])
  qed
  then show ?thesis using assms by (auto simp: round64_def round_mag_powi Let_def)
qed

lemma pow_int_two:
  assumes "0 \<le> n" "n < 2 ^ 900"
  shows "pow_int 2 n = round64 (2 powi n)"
proof -
  consider "n = 0" | "n = 1" | "2 \<le> n" using assms(1) by linarith
  then show ?thesis
  proof cases
    case 3
    have fr: "frexp 2 = (1 / 2, 2)" using expo_powi [of 1] by (simp add: frexp_def)
    have "nat \<bar>n\<bar> < 2 ^ 900" using assms by (simp add: nat_less_iff)
    then obtain a e z where l: "pow_loop (nat \<bar>n\<bar>) (1 / 2) 2 1 0 = (a, e)" "a * 2 powi e = 2 powi z"
      "z = n \<or> 1024 \<le> z \<and> 1024 \<le> n"
      using pow_loop_two [of 2 0 0 "nat \<bar>n\<bar>" 900] assms(1) by auto
    then have "round64 (2 powi z) = round64 (2 powi n)" using assms(1) by (auto simp: round64_powi)
    then show ?thesis using 3 l by (simp add: pow_int_def fr)
  qed (use round64_powi [of 0] round64_powi [of 1] in \<open>simp_all add: pow_int_def\<close>)
qed

lemma stands_for_pow2:
  assumes "0 \<le> n" "n < 2 ^ 900"
  shows "stands_for (pow_int 2 n) (2 ^ nat n)"
proof -
  have "(2 :: rat) powi n = of_int (2 ^ nat n)" using assms(1) by (simp add: power_int_nonneg_exp)
  then show ?thesis unfolding pow_int_two [OF assms] using stands_for_round64 [of "2 ^ nat n"] by simp
qed

end
