(* ===== verification/Backoff.thy ===== *)
theory Backoff
  imports Float64
begin

text \<open>
  The retry schedules of package \<open>internal/sched\<close>: \<open>Backoff\<close> (\<open>retry.go\<close>), the policy of the
  scheduler's own jobs, and \<open>CloudTasksBackoff\<close> (\<open>cloudtasks.go\<close>), the documented schedule of
  Cloud Tasks. Both compute in \<open>float64\<close> and guard the conversion back.
\<close>

section \<open>Backoff\<close>

record backoff =
  bo_Min :: duration
  bo_Max :: duration
  bo_Multiplier :: f64
  bo_MaxAttempts :: int

definition DefaultBackoff :: backoff where
  "DefaultBackoff = \<lparr>bo_Min = 100 * Millisecond, bo_Max = 10 * Second, bo_Multiplier = Fin 2, bo_MaxAttempts = 5\<rparr>"

definition Backoff_Delay :: "backoff \<Rightarrow> int \<Rightarrow> duration" where
  "Backoff_Delay b attempt =
     (if attempt < 1 then 0
      else
        let mn = (if bo_Min b \<le> 0 then 100 * Millisecond else bo_Min b);
            mult = (if f64_less (bo_Multiplier b) (Fin 1) then Fin 1 else bo_Multiplier b);
            d = f64_mult (f64_of_int mn) (Pow mult (f64_of_int (attempt - 1)))
        in if bo_Max b > 0 \<and> (f64_less (f64_of_int (bo_Max b)) d \<or> IsInf d) then bo_Max b
           else if f64_less (f64_of_int max_int64) d then bo_Max b
           else int64_of_f64 d)"

definition Backoff_ShouldRetry :: "backoff \<Rightarrow> int \<Rightarrow> bool" where
  "Backoff_ShouldRetry b attempt = (if bo_MaxAttempts b \<le> 0 then True else attempt < bo_MaxAttempts b)"

section \<open>CloudTasksBackoff\<close>

record ct_backoff =
  ct_MaxAttempts :: int
  ct_MinBackoff :: duration
  ct_MaxBackoff :: duration
  ct_MaxDoublings :: int
  ct_MaxRetryDuration :: duration

definition DefaultCloudTasksBackoff :: ct_backoff where
  "DefaultCloudTasksBackoff = \<lparr>ct_MaxAttempts = 100, ct_MinBackoff = 100 * Millisecond,
     ct_MaxBackoff = Hour, ct_MaxDoublings = 16, ct_MaxRetryDuration = 0\<rparr>"

definition WithDefaults :: "ct_backoff \<Rightarrow> ct_backoff" where
  "WithDefaults b =
     (let d = DefaultCloudTasksBackoff;
          b = (if ct_MaxAttempts b = 0 then b\<lparr>ct_MaxAttempts := ct_MaxAttempts d\<rparr> else b);
          b = (if ct_MinBackoff b \<le> 0 then b\<lparr>ct_MinBackoff := ct_MinBackoff d\<rparr> else b);
          b = (if ct_MaxBackoff b \<le> 0 then b\<lparr>ct_MaxBackoff := ct_MaxBackoff d\<rparr> else b)
      in if ct_MaxDoublings b \<le> 0 then b\<lparr>ct_MaxDoublings := ct_MaxDoublings d\<rparr> else b)"

text \<open>The comparison as floats, before a conversion that could come out negative.\<close>

definition capped :: "duration \<Rightarrow> f64 \<Rightarrow> duration" where
  "capped mx d = (if f64_less (f64_of_int mx) d \<or> IsInf d \<or> d = NaN then mx else int64_of_f64 d)"

definition CloudTasks_Delay :: "ct_backoff \<Rightarrow> int \<Rightarrow> duration" where
  "CloudTasks_Delay b attempt =
     (if attempt < 1 then 0
      else
        let minB = f64_of_int (ct_MinBackoff b);
            k = attempt - 1;
            doublings = ct_MaxDoublings b;
            d = (if k \<le> doublings then f64_mult minB (Pow (Fin 2) (f64_of_int k))
                 else
                   let st = f64_mult minB (Pow (Fin 2) (f64_of_int doublings))
                   in f64_mult st (f64_of_int (to_int64 (k - doublings + 1))))
        in capped (ct_MaxBackoff b) d)"

definition CloudTasks_ShouldRetry :: "ct_backoff \<Rightarrow> int \<Rightarrow> bool" where
  "CloudTasks_ShouldRetry b attempts = (if ct_MaxAttempts b < 0 then True else attempts < ct_MaxAttempts b)"

definition ShouldRetryAfter :: "ct_backoff \<Rightarrow> int \<Rightarrow> duration \<Rightarrow> bool" where
  "ShouldRetryAfter b attempts sinceFirst =
     (if CloudTasks_ShouldRetry b attempts then True
      else ct_MaxRetryDuration b > 0 \<and> sinceFirst < ct_MaxRetryDuration b)"

section \<open>The schedule in exact arithmetic\<close>

text \<open>What the documentation of \<open>RetryConfig\<close> says: double \<open>MaxDoublings\<close> times, then grow linearly.\<close>

definition exact_delay :: "ct_backoff \<Rightarrow> int \<Rightarrow> int" where
  "exact_delay b attempt =
     (if attempt - 1 \<le> ct_MaxDoublings b then ct_MinBackoff b * 2 ^ nat (attempt - 1)
      else ct_MinBackoff b * 2 ^ nat (ct_MaxDoublings b) * (attempt - ct_MaxDoublings b))"

lemma f64_of_int_0 [simp]: "f64_of_int 0 = Fin 0"
  by (simp add: f64_of_int_def round64_def)

text \<open>An exponent in the range of \<open>int64\<close> stays an exponent below \<open>2^900\<close> as a float.\<close>

lemma trunc_of_int [simp]: "trunc (of_int n) = n"
  by (simp add: trunc_def)

lemma stands_for_cap:
  assumes "stands_for d n" "1 \<le> n" "0 \<le> mx" "mx \<le> 2 ^ 53"
  shows "capped mx d = min mx n"
proof -
  have r: "mx \<le> max_int64" "min_int64 \<le> mx"
    using assms(3,4) by (simp_all add: max_int64_def min_int64_def)
  have m: "f64_of_int mx = Fin (of_int mx)"
    using assms(3,4) round64_int [of mx] by (cases "mx = 0") (simp, simp add: f64_of_int_def)
  show ?thesis
  proof (cases "n \<le> 2 ^ 53")
    case True
    then have d: "d = Fin (of_int n)" using assms(1) by (simp add: stands_for_def)
    have "n \<le> max_int64" "min_int64 \<le> n"
      using True assms(2) by (simp_all add: max_int64_def min_int64_def)
    then show ?thesis by (simp add: capped_def d m IsInf_def min_def)
  next
    case False
    then have "f64_big d" using assms(1) by (simp add: stands_for_def)
    then consider "d = PInf" | x where "d = Fin x" "2 ^ 53 \<le> x" by (auto simp: f64_big_def)
    then show ?thesis
    proof cases
      case 1
      then show ?thesis using False assms(4) by (simp add: capped_def IsInf_def)
    next
      case (2 x)
      show ?thesis
      proof (cases "of_int mx < x")
        case True
        then show ?thesis using 2 m False assms(4) by (simp add: capped_def)
      next
        case f: False
        have "(of_int mx :: rat) \<le> of_int (2 ^ 53)" using assms(4) by (simp only: of_int_le_iff)
        then have "x = of_int mx" using f 2(2) by simp
        moreover have "min mx n = mx" using False assms(4) by simp
        ultimately show ?thesis using r by (simp add: 2(1) m capped_def IsInf_def)
      qed
    qed
  qed
qed

lemma f64_of_int_finite:
  assumes "1 \<le> k" "k \<le> max_int64"
  obtains y where "f64_of_int k = Fin y" "y \<le> 2 ^ 64"
proof -
  have "(of_int k :: rat) \<le> of_int max_int64" using assms(2) by (simp only: of_int_le_iff)
  then have "2 * (of_int k :: rat) \<le> 2 ^ 64" by (simp add: max_int64_def)
  moreover have "round_mag (of_int k) \<le> 2 * of_int k" using assms(1) by (intro round_mag_le_double) simp
  ultimately have b: "round_mag (of_int k) \<le> 2 ^ 64" by linarith
  also have "(2 :: rat) ^ 64 < f64_limit" by (simp add: f64_limit_def)
  finally have "\<not> f64_limit \<le> round_mag (of_int k)" by simp
  then show thesis using that [of "round_mag (of_int k)"] b assms(1) by (simp add: f64_of_int_def round64_def)
qed

lemma Pow2_value:
  assumes "0 \<le> k" "k \<le> max_int64"
  shows "Pow (Fin 2) (f64_of_int k) = (if k < 1024 then Fin (2 powi k) else PInf)"
proof (cases "k \<le> 2 ^ 53")
  case True
  then have "f64_of_int k = Fin (of_int k)"
    using assms(1) round64_int [of k] by (cases "k = 0") (simp, simp add: f64_of_int_def)
  moreover have "k < 2 ^ 900" using True by simp
  ultimately show ?thesis using assms(1) by (simp add: pow_int_two round64_powi)
next
  case False
  then have "1 \<le> k" by simp
  then obtain y where y: "f64_of_int k = Fin y" "y \<le> 2 ^ 64" using f64_of_int_finite assms(2) by blast
  have "f64_big (f64_of_int k)" using stands_for_of_int [OF \<open>1 \<le> k\<close>] False by (simp add: stands_for_def)
  then have "2 ^ 53 \<le> y" using y(1) by (simp add: f64_big_def)
  then have fl: "2 ^ 53 \<le> \<lfloor>y\<rfloor>" "\<lfloor>y\<rfloor> \<le> 2 ^ 64"
    using y(2) by (simp_all add: le_floor_iff floor_le_iff)
  have "pow_int 2 \<lfloor>y\<rfloor> = PInf" using fl pow_int_two [of "\<lfloor>y\<rfloor>"] round64_powi [of "\<lfloor>y\<rfloor>"] by simp
  then show ?thesis using y(1) False by simp
qed

lemma stands_for_Pow2:
  assumes "0 \<le> k" "k \<le> max_int64"
  shows "stands_for (Pow (Fin 2) (f64_of_int k)) (2 ^ nat k)"
proof -
  have "pow_int 2 k = (if k < 1024 then Fin (2 powi k) else PInf)"
    using assms by (simp add: pow_int_two round64_powi max_int64_def)
  then show ?thesis
    using Pow2_value [OF assms] stands_for_pow2 [OF assms(1)] assms(2) by (simp add: max_int64_def)
qed

lemma CloudTasks_Delay_exact:
  assumes "1 \<le> attempt" "attempt \<le> max_int64" "1 \<le> ct_MinBackoff b"
    and "0 \<le> ct_MaxBackoff b" "ct_MaxBackoff b \<le> 2 ^ 53"
    and "0 \<le> ct_MaxDoublings b" "ct_MaxDoublings b \<le> max_int64"
  shows "CloudTasks_Delay b attempt = min (ct_MaxBackoff b) (exact_delay b attempt)"
proof -
  let ?mn = "ct_MinBackoff b" and ?D = "ct_MaxDoublings b"
  note mn = stands_for_of_int [OF assms(3)]
  show ?thesis
  proof (cases "attempt - 1 \<le> ?D")
    case True
    have "stands_for (f64_mult (f64_of_int ?mn) (Pow (Fin 2) (f64_of_int (attempt - 1)))) (exact_delay b attempt)"
      unfolding exact_delay_def using True assms(1-3) stands_for_Pow2 [of "attempt - 1"]
      by (auto intro!: stands_for_mult mn)
    moreover have "1 \<le> exact_delay b attempt"
      using assms(3) True by (simp add: exact_delay_def one_le_mult_iff int_one_le_iff_zero_less)
    ultimately show ?thesis
      using stands_for_cap [OF _ _ assms(4,5)] True assms(1) by (simp add: CloudTasks_Delay_def)
  next
    case False
    have k: "to_int64 (attempt - 1 - ?D + 1) = attempt - ?D"
      using assms(2,6) False by (simp add: to_int64_id min_int64_def)
    have "stands_for (f64_mult (f64_mult (f64_of_int ?mn) (Pow (Fin 2) (f64_of_int ?D)))
        (f64_of_int (attempt - ?D))) (exact_delay b attempt)"
      unfolding exact_delay_def using False assms(3,6,7) stands_for_Pow2 [of ?D]
      by (auto intro!: stands_for_mult mn stands_for_of_int simp: int_one_le_iff_zero_less)
    moreover have "1 \<le> exact_delay b attempt"
      using assms(3) False by (simp add: exact_delay_def int_one_le_iff_zero_less)
    ultimately show ?thesis
      using stands_for_cap [OF _ _ assms(4,5)] False assms(1) k by (simp add: CloudTasks_Delay_def Let_def)
  qed
qed

lemma exact_delay_pos: "1 \<le> attempt \<Longrightarrow> 1 \<le> ct_MinBackoff b \<Longrightarrow> 0 \<le> ct_MaxDoublings b \<Longrightarrow> 1 \<le> exact_delay b attempt"
  by (auto simp: exact_delay_def int_one_le_iff_zero_less)

lemma exact_delay_mono:
  assumes "1 \<le> attempt" "1 \<le> ct_MinBackoff b" "0 \<le> ct_MaxDoublings b"
  shows "exact_delay b attempt \<le> exact_delay b (attempt + 1)"
proof -
  let ?mn = "ct_MinBackoff b" and ?D = "ct_MaxDoublings b"
  consider "attempt \<le> ?D" | "attempt - 1 = ?D" | "?D < attempt - 1" by linarith
  then show ?thesis
  proof cases
    case 1
    then have "nat attempt = Suc (nat (attempt - 1))" using assms(1) by simp
    with 1 assms show ?thesis by (simp add: exact_delay_def)
  next
    case 2
    then show ?thesis using assms by (simp add: exact_delay_def)
  next
    case 3
    have "?mn * 2 ^ nat ?D * (attempt - ?D) \<le> ?mn * 2 ^ nat ?D * (attempt + 1 - ?D)"
      using assms(2) by (intro mult_left_mono) simp_all
    with 3 show ?thesis by (simp add: exact_delay_def)
  qed
qed

lemma WithDefaults_fields:
  "1 \<le> ct_MinBackoff (WithDefaults b)" "1 \<le> ct_MaxBackoff (WithDefaults b)"
  "1 \<le> ct_MaxDoublings (WithDefaults b)" "ct_MaxAttempts (WithDefaults b) \<noteq> 0"
  "ct_MaxBackoff b \<le> 2 ^ 53 \<Longrightarrow> ct_MaxBackoff (WithDefaults b) \<le> 2 ^ 53"
  "ct_MaxDoublings b \<le> max_int64 \<Longrightarrow> ct_MaxDoublings (WithDefaults b) \<le> max_int64"
  "ct_MaxRetryDuration (WithDefaults b) = ct_MaxRetryDuration b"
  by (auto simp: WithDefaults_def DefaultCloudTasksBackoff_def duration_defs Let_def max_int64_def)

text \<open>C11: The delays of a queue's retries, computed in floating point, are exactly the documented
  schedule: the minimum doubled at most \<open>MaxDoublings\<close> times, then growing linearly, capped at the
  maximum; positive, at most the maximum, and never decreasing, for every attempt number an
  \<open>int\<close> can hold and every maximum up to \<open>2^53\<close> nanoseconds (104 days).\<close>

theorem retry_delay_schedule:
  assumes "ct_MaxBackoff b \<le> 2 ^ 53" "ct_MaxDoublings b \<le> max_int64"
    and "1 \<le> attempt" "attempt < max_int64"
  shows "CloudTasks_Delay (WithDefaults b) attempt =
      min (ct_MaxBackoff (WithDefaults b)) (exact_delay (WithDefaults b) attempt) \<and>
    0 < CloudTasks_Delay (WithDefaults b) attempt \<and>
    CloudTasks_Delay (WithDefaults b) attempt \<le> ct_MaxBackoff (WithDefaults b) \<and>
    CloudTasks_Delay (WithDefaults b) attempt \<le> CloudTasks_Delay (WithDefaults b) (attempt + 1)"
proof -
  let ?b = "WithDefaults b"
  note f = WithDefaults_fields [of b] and mx = WithDefaults_fields(5) [OF assms(1)]
    and db = WithDefaults_fields(6) [OF assms(2)]
  have eq: "CloudTasks_Delay ?b a = min (ct_MaxBackoff ?b) (exact_delay ?b a)" if "1 \<le> a" "a \<le> max_int64" for a
    using f(1-3) mx db that by (intro CloudTasks_Delay_exact) simp_all
  have "1 \<le> exact_delay ?b attempt" using assms(3) f(1,3) by (intro exact_delay_pos) simp_all
  moreover have "exact_delay ?b attempt \<le> exact_delay ?b (attempt + 1)"
    using assms(3) f(1,3) by (intro exact_delay_mono) simp_all
  ultimately show ?thesis
    using eq [of attempt] eq [of "attempt + 1"] assms(3,4) f(2) by (auto simp: min_def)
qed

theorem retry_delay_schedule_witness:
  "let b = \<lparr>ct_MaxAttempts = 0, ct_MinBackoff = 10 * Second, ct_MaxBackoff = 300 * Second,
        ct_MaxDoublings = 3, ct_MaxRetryDuration = 0\<rparr>
   in CloudTasks_Delay (WithDefaults b) 6 = 240 * Second"
proof -
  let ?b = "\<lparr>ct_MaxAttempts = 0, ct_MinBackoff = 10 * Second, ct_MaxBackoff = 300 * Second,
        ct_MaxDoublings = 3, ct_MaxRetryDuration = 0\<rparr>"
  have "CloudTasks_Delay (WithDefaults ?b) 6 =
      min (ct_MaxBackoff (WithDefaults ?b)) (exact_delay (WithDefaults ?b) 6)"
    using retry_delay_schedule [of ?b 6] by (simp add: duration_defs max_int64_def)
  then show ?thesis
    by (simp add: WithDefaults_def DefaultCloudTasksBackoff_def exact_delay_def duration_defs Let_def)
qed

text \<open>A delay beyond \<open>int64\<close>, as the guards of \<open>Backoff.Delay\<close> see it.\<close>

lemma beyond_int64:
  assumes "2 ^ 64 \<le> x"
  shows "f64_less (f64_of_int max_int64) (round64 x)"
proof -
  have "round_mag (of_int max_int64) \<le> 2 * of_int max_int64"
    by (intro round_mag_le_double) (simp add: max_int64_def)
  also have "\<dots> < (2 :: rat) ^ 64" by (simp add: max_int64_def)
  finally have m: "round_mag (of_int max_int64) < 2 ^ 64" .
  moreover have "(2 :: rat) ^ 64 < f64_limit" by (simp add: f64_limit_def)
  ultimately have "f64_of_int max_int64 = Fin (round_mag (of_int max_int64))"
    by (simp add: f64_of_int_def round64_def max_int64_def)
  moreover have "2 ^ 64 \<le> round_mag x" using round_mag_ge_pow [OF assms] .
  ultimately show ?thesis using m assms by (auto simp: round64_def Let_def)
qed

text \<open>C33: A scheduler backoff without a maximum does not stay large: once the delay passes what an
  \<open>int64\<close> holds, \<open>Delay\<close> returns the unset maximum, zero, and the retry is immediate. With the default
  minimum and multiplier the 27th delay is 78 days and every one from the 39th on is nothing.\<close>

theorem uncapped_backoff_drops_to_zero:
  assumes "39 \<le> attempt" "attempt \<le> max_int64" "b = DefaultBackoff\<lparr>bo_Max := 0\<rparr>"
  shows "Backoff_Delay b attempt = 0 \<and> Backoff_Delay b 27 = 100 * Millisecond * 2 ^ 26"
proof
  have mn: "f64_of_int (100 * Millisecond) = Fin 100000000"
    using round64_int [of 100000000] by (simp add: f64_of_int_def Millisecond_def)
  have "Pow (Fin 2) (f64_of_int (attempt - 1)) = (if attempt - 1 < 1024 then Fin (2 powi (attempt - 1)) else PInf)"
    using assms(1,2) by (intro Pow2_value) simp_all
  moreover have "f64_less (f64_of_int max_int64) (round64 (100000000 * 2 powi (attempt - 1)))"
  proof (rule beyond_int64)
    have "(2 :: rat) ^ 64 \<le> 100000000 * 2 powi 38" by simp
    also have "\<dots> \<le> 100000000 * 2 powi (attempt - 1)"
      using assms(1) by (intro mult_left_mono power_int_increasing) simp_all
    finally show "(2 :: rat) ^ 64 \<le> 100000000 * 2 powi (attempt - 1)" .
  qed
  moreover have "f64_less (f64_of_int max_int64) PInf"
    using f64_of_int_finite [of max_int64] by (metis f64_less.simps(2) max_int64_def order_refl one_le_numeral)
  ultimately show "Backoff_Delay b attempt = 0"
    using assms(1) mn by (simp add: Backoff_Delay_def assms(3) DefaultBackoff_def duration_defs Let_def)
  have "Pow (Fin 2) (f64_of_int 26) = Fin (2 ^ 26)" using Pow2_value [of 26] by (simp add: max_int64_def)
  moreover have "round64 6710886400000000 = Fin 6710886400000000" using round64_int [of 6710886400000000] by simp
  moreover have "\<not> f64_less (f64_of_int max_int64) (Fin 6710886400000000)"
  proof -
    have "f64_big (f64_of_int max_int64)"
      using stands_for_of_int [of max_int64] by (simp add: stands_for_def max_int64_def)
    then show ?thesis by (auto simp: f64_big_def)
  qed
  moreover have "trunc (6710886400000000) = 6710886400000000" using trunc_of_int [of 6710886400000000] by simp
  ultimately show "Backoff_Delay b 27 = 100 * Millisecond * 2 ^ 26"
    using mn by (simp add: Backoff_Delay_def assms(3) DefaultBackoff_def duration_defs Let_def
        max_int64_def min_int64_def)
qed

theorem uncapped_backoff_drops_to_zero_witness:
  "Backoff_Delay (DefaultBackoff\<lparr>bo_Max := 0\<rparr>) 39 = 0"
  using uncapped_backoff_drops_to_zero [of 39] by (simp add: max_int64_def)

end
