(* ===== verification/Sched.thy ===== *)
theory Sched
  imports Backoff "HOL-Library.Multiset"
begin

text \<open>
  The rest of package \<open>internal/sched\<close>: the controllable clock (\<open>clock.go\<close>) and the scheduler of
  background jobs (\<open>scheduler.go\<close>), whose loop and attempts run as separate goroutines and are
  therefore steps of a transition relation, one per critical section.
\<close>

section \<open>FakeClock\<close>

text \<open>
  A waiter is its deadline and its channel, a channel its number in order of creation. \<open>fc_sent\<close> logs
  the sends, each on a fresh channel of capacity one and so never blocking.
\<close>

record waiter =
  w_deadline :: time
  w_ch :: nat

record fake_clock =
  fc_now :: time
  fc_waiters :: "waiter list"
  fc_next :: nat
  fc_sent :: "(nat \<times> time) list"

definition NewFakeClock :: "time \<Rightarrow> fake_clock" where
  "NewFakeClock start = \<lparr>fc_now = start, fc_waiters = [], fc_next = 0, fc_sent = []\<rparr>"

definition FakeClock_After :: "duration \<Rightarrow> fake_clock \<Rightarrow> nat \<times> fake_clock" where
  "FakeClock_After d c =
     (let ch = fc_next c; c1 = c\<lparr>fc_next := Suc ch\<rparr> in
      if d \<le> 0 then (ch, c1\<lparr>fc_sent := fc_sent c @ [(ch, fc_now c)]\<rparr>)
      else (ch, c1\<lparr>fc_waiters := fc_waiters c @ [\<lparr>w_deadline = fc_now c + d, w_ch = ch\<rparr>]\<rparr>))"

text \<open>\<open>sort.Slice\<close> is not stable; \<open>sorter\<close> is whatever order it gives to equal deadlines.\<close>

definition sort_Slice_ok :: "(waiter list \<Rightarrow> waiter list) \<Rightarrow> bool" where
  "sort_Slice_ok sorter \<longleftrightarrow> (\<forall>ws. mset (sorter ws) = mset ws \<and> sorted (map w_deadline (sorter ws)))"

definition FakeClock_Advance :: "(waiter list \<Rightarrow> waiter list) \<Rightarrow> duration \<Rightarrow> fake_clock \<Rightarrow> fake_clock" where
  "FakeClock_Advance sorter d c =
     (let now = fc_now c + d;
          due = filter (\<lambda>w. \<not> w_deadline w > now) (fc_waiters c);
          remaining = filter (\<lambda>w. w_deadline w > now) (fc_waiters c)
      in c\<lparr>fc_now := now, fc_waiters := remaining,
           fc_sent := fc_sent c @ map (\<lambda>w. (w_ch w, now)) (sorter due)\<rparr>)"

definition HasWaiterAt :: "fake_clock \<Rightarrow> time \<Rightarrow> bool" where
  "HasWaiterAt c deadline = list_ex (\<lambda>w. w_deadline w = deadline) (fc_waiters c)"

definition Waiters :: "fake_clock \<Rightarrow> nat" where
  "Waiters c = length (fc_waiters c)"

text \<open>Every channel is served at most once, and is waiting or served, never both.\<close>

definition clock_ok :: "fake_clock \<Rightarrow> bool" where
  "clock_ok c \<longleftrightarrow>
     distinct (map w_ch (fc_waiters c) @ map fst (fc_sent c)) \<and>
     set (map w_ch (fc_waiters c) @ map fst (fc_sent c)) = {0..<fc_next c} \<and>
     (\<forall>w \<in> set (fc_waiters c). fc_now c < w_deadline w)"

lemma clock_ok_After:
  assumes "clock_ok c"
  shows "clock_ok (snd (FakeClock_After d c))"
  using assms by (auto simp: clock_ok_def FakeClock_After_def Let_def)

lemma clock_ok_Advance:
  assumes "clock_ok c" "sort_Slice_ok sorter" "0 \<le> d"
  shows "clock_ok (FakeClock_Advance sorter d c)"
proof -
  define due where "due = filter (\<lambda>w. \<not> w_deadline w > fc_now c + d) (fc_waiters c)"
  define rest where "rest = filter (\<lambda>w. w_deadline w > fc_now c + d) (fc_waiters c)"
  have ms: "mset (sorter due) = mset due" using assms(2) by (simp add: sort_Slice_ok_def)
  have part: "mset (fc_waiters c) = mset due + mset rest" 
    using multiset_partition [of "mset (fc_waiters c)" "\<lambda>w. w_deadline w > fc_now c + d"]
    by (simp add: due_def rest_def add.commute)
  have all: "mset (map w_ch rest @ map fst (fc_sent c) @ map w_ch (sorter due)) =
      mset (map w_ch (fc_waiters c) @ map fst (fc_sent c))"
    by (simp add: part ms ac_simps)
  have new: "map w_ch (fc_waiters (FakeClock_Advance sorter d c)) @ map fst (fc_sent (FakeClock_Advance sorter d c)) =
      map w_ch rest @ map fst (fc_sent c) @ map w_ch (sorter due)"
    by (simp add: FakeClock_Advance_def Let_def due_def rest_def o_def)
  have "distinct (map w_ch rest @ map fst (fc_sent c) @ map w_ch (sorter due))"
    "set (map w_ch rest @ map fst (fc_sent c) @ map w_ch (sorter due)) = {0..<fc_next c}"
    using assms(1) mset_eq_setD [OF all] mset_eq_imp_distinct_iff [OF all] unfolding clock_ok_def by blast+
  moreover have "fc_next (FakeClock_Advance sorter d c) = fc_next c"
    "\<forall>w \<in> set (fc_waiters (FakeClock_Advance sorter d c)).
       fc_now (FakeClock_Advance sorter d c) < w_deadline w"
    by (auto simp: FakeClock_Advance_def Let_def)
  ultimately show ?thesis unfolding clock_ok_def new by simp
qed



section \<open>Scheduler\<close>

record 'p job =
  job_ID :: string
  job_Due :: time
  job_Attempt :: int
  job_Payload :: 'p

text \<open>
  \<open>s_claimed\<close> holds the keys of the map \<open>claimed\<close>, \<open>s_wake\<close> whether the channel \<open>wake\<close>, of
  capacity one, holds a value; a failure is the job's ID and its number of attempts.
\<close>

record 'p sched =
  s_jobs :: "'p job gomap"
  s_closed :: bool
  s_claimed :: "string list"
  s_wake :: bool
  s_failures :: "(string \<times> int) list"

datatype sched_err = ErrClosed

definition sched_New :: "'p sched" where
  "sched_New = \<lparr>s_jobs = [], s_closed = False, s_claimed = [], s_wake = False, s_failures = []\<rparr>"

definition sched_notify :: "'p sched \<Rightarrow> 'p sched" where
  "sched_notify s = s\<lparr>s_wake := True\<rparr>"

definition sched_Schedule :: "'p job \<Rightarrow> 'p sched \<Rightarrow> (sched_err + unit) \<times> 'p sched" where
  "sched_Schedule job s =
     (if s_closed s then (Inl ErrClosed, s)
      else (Inr (), sched_notify (s\<lparr>s_jobs := AList.update (job_ID job) job (s_jobs s)\<rparr>)))"

definition sched_Cancel :: "string \<Rightarrow> 'p sched \<Rightarrow> 'p sched" where
  "sched_Cancel i s = sched_notify (s\<lparr>s_jobs := AList.delete i (s_jobs s)\<rparr>)"

definition sched_Pending :: "'p sched \<Rightarrow> nat" where
  "sched_Pending s = length (s_jobs s)"

definition sched_Failures :: "'p sched \<Rightarrow> (string \<times> int) list" where
  "sched_Failures s = s_failures s"

text \<open>One turn of the loop of \<open>due\<close> over the jobs.\<close>

fun due_loop :: "time \<Rightarrow> 'p job list \<Rightarrow> 'p job list \<times> duration \<times> string list \<Rightarrow>
    'p job list \<times> duration \<times> string list" where
  "due_loop now [] acc = acc"
| "due_loop now (j # js) (ready, nxt, claimed) =
     (if job_Due j > now then due_loop now js (ready, min nxt (time_sub (job_Due j) now), claimed)
      else if job_ID j \<in> set claimed then due_loop now js (ready, nxt, claimed)
      else due_loop now js (ready @ [j], nxt, job_ID j # claimed))"

definition sched_due :: "time \<Rightarrow> 'p sched \<Rightarrow> 'p job list \<times> duration \<times> 'p sched" where
  "sched_due now s =
     (let (ready, nxt, claimed) = due_loop now (map snd (s_jobs s)) ([], Hour, s_claimed s)
      in (sort_key job_ID ready, nxt, s\<lparr>s_claimed := claimed\<rparr>))"

text \<open>\<open>attempt\<close> after the handler returned: \<open>failed\<close> when it gave an error.\<close>

definition sched_attempt :: "backoff \<Rightarrow> bool \<Rightarrow> bool \<Rightarrow> time \<Rightarrow> 'p job \<Rightarrow> 'p sched \<Rightarrow> 'p sched" where
  "sched_attempt b failed ctx_err now job s =
     (let s1 = s\<lparr>s_claimed := removeAll (job_ID job) (s_claimed s)\<rparr> in
      if \<not> failed then s1\<lparr>s_jobs := AList.delete (job_ID job) (s_jobs s1)\<rparr>
      else if ctx_err then s1
      else
        let nxt = job\<lparr>job_Attempt := job_Attempt job + 1\<rparr> in
        if \<not> Backoff_ShouldRetry b (job_Attempt nxt) then
          s1\<lparr>s_jobs := AList.delete (job_ID job) (s_jobs s1),
             s_failures := s_failures s1 @ [(job_ID job, job_Attempt nxt)]\<rparr>
        else
          sched_notify (s1\<lparr>s_jobs := AList.update (job_ID job)
            (nxt\<lparr>job_Due := now + Backoff_Delay b (job_Attempt nxt)\<rparr>) (s_jobs s1)\<rparr>))"

text \<open>
  The scheduler at work. The loop of \<open>Run\<close> is about to call \<open>due\<close>, in its \<open>select\<close> until a time,
  waiting for its attempts, or over.
\<close>

datatype run_pc = Deciding | Selecting time | Waiting | Returned

record 'p run =
  r_sched :: "'p sched"
  r_pc :: run_pc
  r_inflight :: "'p job list"
  r_now :: time
  r_cancelled :: bool

inductive run_step :: "backoff \<Rightarrow> 'p run \<Rightarrow> 'p run \<Rightarrow> bool" for b where
  schedule: "run_step b r (r\<lparr>r_sched := snd (sched_Schedule j (r_sched r))\<rparr>)"
| cancel: "run_step b r (r\<lparr>r_sched := sched_Cancel i (r_sched r)\<rparr>)"
| pass: "r_pc r = Deciding \<Longrightarrow> sched_due (r_now r) (r_sched r) = (ready, nxt, s') \<Longrightarrow>
    run_step b r (r\<lparr>r_sched := s', r_inflight := r_inflight r @ ready, r_pc := Selecting (r_now r + nxt)\<rparr>)"
| woken: "r_pc r = Selecting t \<Longrightarrow> s_wake (r_sched r) \<Longrightarrow>
    run_step b r (r\<lparr>r_sched := (r_sched r)\<lparr>s_wake := False\<rparr>, r_pc := Deciding\<rparr>)"
| timer: "r_pc r = Selecting t \<Longrightarrow> t \<le> r_now r \<Longrightarrow> run_step b r (r\<lparr>r_pc := Deciding\<rparr>)"
| stop: "r_pc r = Selecting t \<Longrightarrow> r_cancelled r \<Longrightarrow> run_step b r (r\<lparr>r_pc := Waiting\<rparr>)"
| finish: "j \<in> set (r_inflight r) \<Longrightarrow>
    run_step b r (r\<lparr>r_sched := sched_attempt b failed (r_cancelled r) (r_now r) j (r_sched r),
                    r_inflight := remove1 j (r_inflight r)\<rparr>)"
| close: "r_pc r = Waiting \<Longrightarrow> r_inflight r = [] \<Longrightarrow>
    run_step b r (r\<lparr>r_sched := (r_sched r)\<lparr>s_closed := True\<rparr>, r_pc := Returned\<rparr>)"
| cancel_ctx: "run_step b r (r\<lparr>r_cancelled := True\<rparr>)"
| tick: "0 \<le> d \<Longrightarrow> run_step b r (r\<lparr>r_now := r_now r + d\<rparr>)"

definition run_start :: "time \<Rightarrow> 'p run" where
  "run_start now = \<lparr>r_sched = sched_New, r_pc = Deciding, r_inflight = [], r_now = now, r_cancelled = False\<rparr>"

abbreviation run_steps :: "backoff \<Rightarrow> 'p run \<Rightarrow> 'p run \<Rightarrow> bool" where
  "run_steps b \<equiv> (run_step b)\<^sup>*\<^sup>*"

subsection \<open>Invariant\<close>

text \<open>
  The claimed IDs are those in flight, each once; a job is filed under its ID; nothing is in flight
  once \<open>Run\<close> has returned.
\<close>

definition jobs_ok :: "'p job gomap \<Rightarrow> bool" where
  "jobs_ok m \<longleftrightarrow> gomap_ok m \<and> (\<forall>i j. map_of m i = Some j \<longrightarrow> job_ID j = i)"

definition run_inv :: "'p run \<Rightarrow> bool" where
  "run_inv r \<longleftrightarrow>
     jobs_ok (s_jobs (r_sched r)) \<and>
     distinct (map job_ID (r_inflight r)) \<and>
     set (s_claimed (r_sched r)) = set (map job_ID (r_inflight r)) \<and>
     (r_pc r = Returned \<longrightarrow> r_inflight r = [] \<and> s_closed (r_sched r))"

lemma jobs_ok_update: "jobs_ok m \<Longrightarrow> job_ID j = i \<Longrightarrow> jobs_ok (AList.update i j m)"
  by (auto simp: jobs_ok_def go_map)

lemma jobs_ok_delete: "jobs_ok m \<Longrightarrow> jobs_ok (AList.delete i m)"
  by (auto simp: jobs_ok_def go_map split: if_splits)

lemma jobs_ok_IDs: "jobs_ok m \<Longrightarrow> map job_ID (map snd m) = map fst m"
  by (auto simp: jobs_ok_def gomap_ok_def)

text \<open>What the loop claims: fresh IDs only, each job that is due.\<close>

definition claims :: "time \<Rightarrow> 'p job list \<Rightarrow> string list \<Rightarrow> 'p job list \<Rightarrow> string list \<Rightarrow> bool" where
  "claims now js claimed0 new claimed \<longleftrightarrow>
     set claimed = set claimed0 \<union> set (map job_ID new) \<and> distinct (map job_ID new) \<and>
     set (map job_ID new) \<inter> set claimed0 = {} \<and> set new \<subseteq> set js \<and> (\<forall>j \<in> set new. job_Due j \<le> now)"

lemma claims_skip: "claims now js c new c' \<Longrightarrow> claims now (j # js) c new c'"
  by (auto simp: claims_def)

lemma claims_take:
  "claims now js (job_ID j # c) new c' \<Longrightarrow> job_Due j \<le> now \<Longrightarrow> job_ID j \<notin> set c \<Longrightarrow> claims now (j # js) c (j # new) c'"
  by (auto simp: claims_def)

lemma due_loop_claims:
  "due_loop now js (ready0, nxt0, claimed0) = (ready, nxt, claimed) \<Longrightarrow>
   \<exists>new. ready = ready0 @ new \<and> claims now js claimed0 new claimed"
proof (induction js arbitrary: ready0 nxt0 claimed0)
  case Nil
  then show ?case by (simp add: claims_def)
next
  case (Cons j js)
  consider "job_Due j > now" | "\<not> job_Due j > now" "job_ID j \<in> set claimed0"
    | "\<not> job_Due j > now" "job_ID j \<notin> set claimed0" by blast
  then show ?case
  proof cases
    case 1
    with Cons.prems Cons.IH [of ready0 "min nxt0 (time_sub (job_Due j) now)" claimed0]
    show ?thesis using claims_skip by fastforce
  next
    case 2
    with Cons.prems Cons.IH [of ready0 nxt0 claimed0] show ?thesis using claims_skip by fastforce
  next
    case 3
    with Cons.prems Cons.IH [of "ready0 @ [j]" nxt0 "job_ID j # claimed0"]
    obtain new where "ready = (ready0 @ [j]) @ new" "claims now js (job_ID j # claimed0) new claimed" by auto
    with 3 show ?thesis using claims_take [of now js j claimed0 new claimed] by (intro exI [of _ "j # new"]) simp
  qed
qed

lemma sched_due_claims:
  assumes "sched_due now s = (ready, nxt, s')"
  shows "s' = s\<lparr>s_claimed := s_claimed s'\<rparr> \<and> claims now (map snd (s_jobs s)) (s_claimed s) ready (s_claimed s') \<and>
    sorted (map job_ID ready)"
proof -
  obtain rd nx cl where l: "due_loop now (map snd (s_jobs s)) ([], Hour, s_claimed s) = (rd, nx, cl)"
    by (cases "due_loop now (map snd (s_jobs s)) ([], Hour, s_claimed s)")
  then have "claims now (map snd (s_jobs s)) (s_claimed s) rd cl" using due_loop_claims by fastforce
  moreover have "mset (map job_ID (sort_key job_ID rd)) = mset (map job_ID rd)" by simp
  then have "distinct (map job_ID (sort_key job_ID rd)) = distinct (map job_ID rd)"
    using mset_eq_imp_distinct_iff by blast
  ultimately show ?thesis using assms l by (auto simp: sched_due_def claims_def disjoint_iff)
qed

lemmas sched_defs = sched_Schedule_def sched_Cancel_def sched_notify_def sched_attempt_def Let_def

lemma run_inv_step:
  assumes "run_step b r r'" "run_inv r"
  shows "run_inv r'"
  using assms(1)
proof cases
  case (pass ready nxt s')
  note d = sched_due_claims [OF pass(3)]
  have "s_jobs s' = s_jobs (r_sched r)" "s_closed s' = s_closed (r_sched r)"
    using d by (metis sched.select_convs(1,2) sched.surjective sched.update_convs(3))+
  with d pass assms(2) show ?thesis by (auto simp: run_inv_def claims_def)
next
  case (finish j failed)
  have "set (map job_ID (remove1 j (r_inflight r))) = set (map job_ID (r_inflight r)) - {job_ID j}"
    using assms(2) finish(2) by (auto simp: run_inv_def set_remove1_eq distinct_map inj_on_def)
  moreover have "distinct (map job_ID (remove1 j (r_inflight r)))"
    using assms(2) by (auto simp: run_inv_def distinct_map intro: inj_on_subset dest: set_remove1_subset [THEN subsetD])
  moreover have "jobs_ok (s_jobs (sched_attempt b failed (r_cancelled r) (r_now r) j (r_sched r)))"
    using assms(2) by (auto simp: run_inv_def sched_defs intro: jobs_ok_update jobs_ok_delete)
  ultimately show ?thesis
    using finish assms(2) by (auto simp: run_inv_def sched_defs)
qed (use assms(2) in \<open>auto simp: run_inv_def sched_defs jobs_ok_update jobs_ok_delete\<close>)

subsection \<open>Properties\<close>

lemma run_inv_steps: "run_steps b r r' \<Longrightarrow> run_inv r \<Longrightarrow> run_inv r'"
  by (induction rule: rtranclp_induct) (auto dest: run_inv_step)

lemma run_inv_start: "run_inv (run_start now)"
  by (simp add: run_inv_def run_start_def sched_New_def jobs_ok_def)

text \<open>C22: However its jobs, timers, cancellations and attempts interleave, the scheduler never runs
  two attempts of one job at the same time, and when \<open>Run\<close> has returned no handler is running and
  the scheduler takes no new job.\<close>

theorem no_concurrent_attempts:
  assumes "run_steps b (run_start now) r"
  shows "distinct (map job_ID (r_inflight r)) \<and>
    (r_pc r = Returned \<longrightarrow> r_inflight r = [] \<and> fst (sched_Schedule j (r_sched r)) = Inl ErrClosed)"
  using run_inv_steps [OF assms run_inv_start] by (auto simp: run_inv_def sched_Schedule_def)

definition job0 :: "nat job" where
  "job0 = \<lparr>job_ID = ''j'', job_Due = 0, job_Attempt = 0, job_Payload = 7\<rparr>"

text \<open>A run of one job up to its first attempt.\<close>

definition run1 :: "nat run" where
  "run1 = \<lparr>r_sched = \<lparr>s_jobs = [(''j'', job0)], s_closed = False, s_claimed = [''j''], s_wake = True,
     s_failures = []\<rparr>, r_pc = Selecting (5 + Hour), r_inflight = [job0], r_now = 5, r_cancelled = False\<rparr>"

lemma run1_reached: "run_steps b (run_start 5) run1"
proof -
  let ?r = "(run_start 5)\<lparr>r_sched := snd (sched_Schedule job0 sched_New)\<rparr>"
  have "run_step b (run_start 5) ?r"
    using run_step.schedule [of b "run_start 5" job0] by (simp add: run_start_def)
  moreover have "run_step b ?r run1"
    using run_step.pass [of ?r "[job0]" Hour "\<lparr>s_jobs = [(''j'', job0)], s_closed = False,
        s_claimed = [''j''], s_wake = True, s_failures = []\<rparr>" b]
    by (simp add: run_start_def run1_def sched_defs sched_New_def sched_due_def job0_def)
  ultimately show ?thesis by (meson converse_rtranclp_into_rtranclp r_into_rtranclp)
qed

theorem no_concurrent_attempts_witness:
  "map job_ID (r_inflight run1) = [''j''] \<and> distinct (map job_ID (r_inflight run1))"
  using no_concurrent_attempts [OF run1_reached [of DefaultBackoff]] by (simp add: run1_def job0_def)

text \<open>The same run after the job was cancelled, and after a new job was scheduled under its ID.\<close>

definition run2 :: "nat run" where
  "run2 = run1\<lparr>r_sched := sched_Cancel ''j'' (r_sched run1)\<rparr>"

definition run3 :: "nat run" where
  "run3 = run2\<lparr>r_sched := snd (sched_Schedule (job0\<lparr>job_Payload := 8\<rparr>) (r_sched run2))\<rparr>"

definition attempt_over :: "bool \<Rightarrow> nat run \<Rightarrow> nat run" where
  "attempt_over failed r = r\<lparr>r_sched := sched_attempt DefaultBackoff failed (r_cancelled r) (r_now r) job0 (r_sched r),
     r_inflight := remove1 job0 (r_inflight r)\<rparr>"

lemma attempt_over_step: "job0 \<in> set (r_inflight r) \<Longrightarrow> run_step DefaultBackoff r (attempt_over failed r)"
  unfolding attempt_over_def by (rule run_step.finish)


end
