(* ===== verification/Iampolicy.thy ===== *)
theory Iampolicy
  imports Apierror
begin

text \<open>
  Package \<open>internal/iampolicy\<close>: IAM policies as the services keep them beside their resources. The
  protocol buffer messages are records of the fields the code reads; errors are their status codes.
  The enum of audit log types is generated code and a parameter: its names by number and its numbers
  by name.
\<close>

section \<open>Messages and the stored form\<close>

record binding_pb =
  bp_role :: string
  bp_members :: "string list"
  bp_condition :: bool

record log_config_pb =
  lp_log_type :: int
  lp_exempted :: "string list"

record audit_config_pb =
  ap_service :: string
  ap_log_configs :: "log_config_pb list"

record policy_pb =
  pp_version :: int
  pp_bindings :: "binding_pb list"
  pp_audit_configs :: "audit_config_pb list"
  pp_etag :: string

record set_policy_req =
  sp_policy :: "policy_pb option"
  sp_mask :: "string list"

record iam_binding =
  ib_Role :: string
  ib_Members :: "string list"

record audit_log_config =
  al_LogType :: string
  al_ExemptedMembers :: "string list"

record audit_config =
  ac_Service :: string
  ac_LogConfigs :: "audit_log_config list"

record stored_policy =
  st_Bindings :: "iam_binding list"
  st_AuditConfigs :: "audit_config list"
  st_Etag :: string

section \<open>Reading\<close>

definition emptyEtag :: string where
  "emptyEtag = [CHR 0x00, CHR 0x20, CHR 0x01]"

definition policy_etag :: "stored_policy option \<Rightarrow> string" where
  "policy_etag s = (case s of None \<Rightarrow> emptyEtag | Some p \<Rightarrow> if st_Etag p = [] then emptyEtag else st_Etag p)"

definition policy_Proto :: "(string \<Rightarrow> int) \<Rightarrow> stored_policy option \<Rightarrow> policy_pb" where
  "policy_Proto lt_value s =
     (case s of
        None \<Rightarrow> \<lparr>pp_version = 1, pp_bindings = [], pp_audit_configs = [], pp_etag = policy_etag s\<rparr>
      | Some p \<Rightarrow>
          \<lparr>pp_version = 1,
           pp_bindings = map (\<lambda>b. \<lparr>bp_role = ib_Role b, bp_members = ib_Members b, bp_condition = False\<rparr>) (st_Bindings p),
           pp_audit_configs = map (\<lambda>a. \<lparr>ap_service = ac_Service a,
             ap_log_configs = map (\<lambda>l. \<lparr>lp_log_type = lt_value (al_LogType l), lp_exempted = al_ExemptedMembers l\<rparr>)
               (ac_LogConfigs a)\<rparr>) (st_AuditConfigs p),
           pp_etag = policy_etag s\<rparr>)"

definition iam_Get :: "(string \<Rightarrow> int) \<Rightarrow> stored_policy option \<Rightarrow> int \<Rightarrow> code + policy_pb" where
  "iam_Get lt_value current version =
     (if version \<in> set [0, 1, 3] then Inr (policy_Proto lt_value current) else Inl InvalidArgument)"

definition iam_Permissions :: "string list \<Rightarrow> string list" where
  "iam_Permissions requested = requested"

section \<open>Setting\<close>

text \<open>The fields the mask names; \<open>audit_configs\<close> in either spelling.\<close>

definition policy_fields :: "string list" where
  "policy_fields = [''bindings'', ''etag'', ''version'']"

definition audit_fields :: "string list" where
  "audit_fields = [''audit_configs'', ''auditConfigs'']"

fun mask_fields :: "bool \<Rightarrow> string list \<Rightarrow> code + string list" where
  "mask_fields audit [] = Inr []"
| "mask_fields audit (path # paths) =
     (if path \<in> set policy_fields then map_sum id (Cons path) (mask_fields audit paths)
      else if path \<in> set audit_fields then
        (if \<not> audit then Inl Unimplemented
         else map_sum id (Cons ''audit_configs'') (mask_fields audit paths))
      else Inl InvalidArgument)"

fun set_bindings :: "binding_pb list \<Rightarrow> code + iam_binding list" where
  "set_bindings [] = Inr []"
| "set_bindings (b # bs) =
     (if bp_condition b then Inl Unimplemented
      else if bp_role b = [] then Inl InvalidArgument
      else if bp_members b = [] then set_bindings bs
      else map_sum id (Cons \<lparr>ib_Role = bp_role b, ib_Members = bp_members b\<rparr>) (set_bindings bs))"

fun log_configs :: "(int \<Rightarrow> string option) \<Rightarrow> log_config_pb list \<Rightarrow> code + audit_log_config list" where
  "log_configs lt_name [] = Inr []"
| "log_configs lt_name (l # ls) =
     (if lp_log_type l = 0 then Inl InvalidArgument
      else case lt_name (lp_log_type l) of
             None \<Rightarrow> Inl InvalidArgument
           | Some nm \<Rightarrow>
               map_sum id (Cons \<lparr>al_LogType = nm, al_ExemptedMembers = lp_exempted l\<rparr>) (log_configs lt_name ls))"

fun auditConfigs :: "(int \<Rightarrow> string option) \<Rightarrow> audit_config_pb list \<Rightarrow> code + audit_config list" where
  "auditConfigs lt_name [] = Inr []"
| "auditConfigs lt_name (a # as) =
     (if ap_service a = [] then Inl InvalidArgument
      else case log_configs lt_name (ap_log_configs a) of
             Inl e \<Rightarrow> Inl e
           | Inr ls \<Rightarrow> map_sum id (Cons \<lparr>ac_Service = ap_service a, ac_LogConfigs = ls\<rparr>) (auditConfigs lt_name as))"

text \<open>
  The policy to store: without \<open>bindings\<close> in the mask the stored bindings stay, without
  \<open>audit_configs\<close> the stored audit configs. \<open>rnd\<close> is what \<open>rand.Read\<close> puts into the eight bytes
  of the new etag.
\<close>

definition next_policy :: "string \<Rightarrow> stored_policy option \<Rightarrow> bool \<Rightarrow> string list \<Rightarrow> iam_binding list \<Rightarrow>
    audit_config list \<Rightarrow> stored_policy" where
  "next_policy rnd current audit masked bindings audits =
     \<lparr>st_Bindings =
        (case current of
           Some c \<Rightarrow> if audit \<and> ''bindings'' \<notin> set masked then st_Bindings c else bindings
         | None \<Rightarrow> bindings),
      st_AuditConfigs =
        (if \<not> audit then []
         else if ''audit_configs'' \<in> set masked then audits
         else case current of Some c \<Rightarrow> st_AuditConfigs c | None \<Rightarrow> []),
      st_Etag = rnd\<rparr>"

definition iam_apply :: "(int \<Rightarrow> string option) \<Rightarrow> string \<Rightarrow> stored_policy option \<Rightarrow> set_policy_req \<Rightarrow> bool \<Rightarrow>
    code + stored_policy" where
  "iam_apply lt_name rnd current req audit =
     (case mask_fields audit (sp_mask req) of
        Inl e \<Rightarrow> Inl e
      | Inr mfields \<Rightarrow>
          (case sp_policy req of
             None \<Rightarrow> Inl InvalidArgument
           | Some p \<Rightarrow>
               if pp_version p \<notin> set [0, 1, 3] then Inl InvalidArgument
               else if \<not> audit \<and> pp_audit_configs p \<noteq> [] then Inl Unimplemented
               else case set_bindings (pp_bindings p) of
                 Inl e \<Rightarrow> Inl e
               | Inr bindings \<Rightarrow>
                   (case auditConfigs lt_name (pp_audit_configs p) of
                      Inl e \<Rightarrow> Inl e
                    | Inr audits \<Rightarrow>
                        if pp_etag p \<noteq> [] \<and> pp_etag p \<noteq> policy_etag current then Inl Aborted
                        else Inr (next_policy rnd current audit
                          (if mfields = [] then [''bindings'', ''etag''] else mfields) bindings audits))))"

definition iam_Set :: "(int \<Rightarrow> string option) \<Rightarrow> string \<Rightarrow> stored_policy option \<Rightarrow> set_policy_req \<Rightarrow> code + stored_policy" where
  "iam_Set lt_name rnd current req = iam_apply lt_name rnd current req False"

definition SetWithAuditConfigs :: "(int \<Rightarrow> string option) \<Rightarrow> string \<Rightarrow> stored_policy option \<Rightarrow> set_policy_req \<Rightarrow> code + stored_policy" where
  "SetWithAuditConfigs lt_name rnd current req = iam_apply lt_name rnd current req True"

section \<open>Lemmas\<close>

lemma set_bindings_ok:
  "set_bindings bs = Inr out \<Longrightarrow>
   list_all (\<lambda>b. \<not> bp_condition b \<and> bp_role b \<noteq> []) bs \<and>
   out = map (\<lambda>b. \<lparr>ib_Role = bp_role b, ib_Members = bp_members b\<rparr>) (filter (\<lambda>b. bp_members b \<noteq> []) bs)"
proof (induction bs arbitrary: out)
  case (Cons b bs)
  then show ?case by (cases "set_bindings bs") (auto split: if_splits)
qed simp

lemma log_configs_back:
  assumes "\<And>n nm. lt_name n = Some nm \<Longrightarrow> lt_value nm = n"
  shows "log_configs lt_name ls = Inr out \<Longrightarrow>
    map (\<lambda>l. \<lparr>lp_log_type = lt_value (al_LogType l), lp_exempted = al_ExemptedMembers l\<rparr>) out = ls"
proof (induction ls arbitrary: out)
  case (Cons l ls)
  then show ?case using assms
    by (cases "log_configs lt_name ls") (auto split: if_splits option.splits)
qed simp

lemma auditConfigs_back:
  assumes "\<And>n nm. lt_name n = Some nm \<Longrightarrow> lt_value nm = n"
  shows "auditConfigs lt_name as = Inr out \<Longrightarrow>
    map (\<lambda>a. \<lparr>ap_service = ac_Service a,
      ap_log_configs = map (\<lambda>l. \<lparr>lp_log_type = lt_value (al_LogType l), lp_exempted = al_ExemptedMembers l\<rparr>)
        (ac_LogConfigs a)\<rparr>) out = as"
proof (induction as arbitrary: out)
  case (Cons a as)
  then obtain ls rest where "log_configs lt_name (ap_log_configs a) = Inr ls" "auditConfigs lt_name as = Inr rest"
    "out = \<lparr>ac_Service = ap_service a, ac_LogConfigs = ls\<rparr> # rest"
    by (cases "auditConfigs lt_name as") (auto split: if_splits sum.splits)
  with Cons.IH [of rest] log_configs_back [of lt_name lt_value, OF assms] show ?case by simp
qed simp

lemma mask_fields_eq:
  "mask_fields True paths = Inr m \<Longrightarrow>
   m = map (\<lambda>q. if q \<in> set policy_fields then q else ''audit_configs'') paths"
proof (induction paths arbitrary: m)
  case (Cons q qs)
  then show ?case by (cases "mask_fields True qs") (simp_all split: if_splits)
qed simp

lemma mask_fields_keep:
  assumes "mask_fields True paths = Inr m"
  shows "''bindings'' \<in> set paths \<Longrightarrow> ''bindings'' \<in> set m"
    "''audit_configs'' \<in> set paths \<Longrightarrow> ''audit_configs'' \<in> set m"
  unfolding mask_fields_eq [OF assms] set_map
  by (rule image_eqI [of _ _ "''bindings''"], simp_all add: policy_fields_def)
    (rule image_eqI [of _ _ "''audit_configs''"], simp_all add: policy_fields_def)

text \<open>An accepted request, taken apart.\<close>

lemma iam_apply_Inr:
  assumes "iam_apply lt_name rnd current req audit = Inr s"
  obtains p mfields bindings audits where "sp_policy req = Some p" "mask_fields audit (sp_mask req) = Inr mfields"
    "set_bindings (pp_bindings p) = Inr bindings" "auditConfigs lt_name (pp_audit_configs p) = Inr audits"
    "pp_etag p = [] \<or> pp_etag p = policy_etag current"
    "s = next_policy rnd current audit (if mfields = [] then [''bindings'', ''etag''] else mfields) bindings audits"
  using assms unfolding iam_apply_def by (simp split: sum.splits option.splits if_splits)

text \<open>C24: A read-modify-write of a policy is not lost. When two clients read the same policy and both
  send it back with its etag, the second is refused once the first has been stored, unless its
  request was invalid anyway; the stored policy is then the first one's.\<close>

theorem concurrent_set_is_refused:
  assumes "iam_apply lt_name rnd1 current req1 audit = Inr s1"
    and "sp_policy req2 = Some p2" "pp_etag p2 = policy_etag current"
    and "rnd1 \<noteq> policy_etag current" "rnd1 \<noteq> []"
  shows "\<exists>e. iam_apply lt_name rnd2 (Some s1) req2 audit' = Inl e"
proof -
  have s1: "st_Etag s1 = rnd1" using assms(1) by (elim iam_apply_Inr) (simp add: next_policy_def)
  have ne: "pp_etag p2 \<noteq> []" "pp_etag p2 \<noteq> policy_etag (Some s1)"
    using assms(3-5) s1 by (auto simp: policy_etag_def emptyEtag_def split: option.splits if_splits)
  show ?thesis
  proof (cases "iam_apply lt_name rnd2 (Some s1) req2 audit'")
    case (Inr s2)
    then obtain p where "sp_policy req2 = Some p" "pp_etag p = [] \<or> pp_etag p = policy_etag (Some s1)"
      using iam_apply_Inr by blast
    with ne assms(2) show ?thesis by simp
  qed simp
qed

definition simple_policy :: "string \<Rightarrow> policy_pb" where
  "simple_policy etag = \<lparr>pp_version = 3, pp_bindings = [\<lparr>bp_role = ''r'', bp_members = [''m''], bp_condition = False\<rparr>],
     pp_audit_configs = [], pp_etag = etag\<rparr>"

theorem concurrent_set_is_refused_witness:
  "\<exists>e. iam_apply (\<lambda>_. None) ''22222222''
      (Some \<lparr>st_Bindings = [\<lparr>ib_Role = ''r'', ib_Members = [''m'']\<rparr>], st_AuditConfigs = [], st_Etag = ''11111111''\<rparr>)
      \<lparr>sp_policy = Some (simple_policy emptyEtag), sp_mask = []\<rparr> False = Inl e"
proof -
  have "iam_apply (\<lambda>_. None) ''11111111'' None \<lparr>sp_policy = Some (simple_policy emptyEtag), sp_mask = []\<rparr> False =
      Inr \<lparr>st_Bindings = [\<lparr>ib_Role = ''r'', ib_Members = [''m'']\<rparr>], st_AuditConfigs = [], st_Etag = ''11111111''\<rparr>"
    by (simp add: iam_apply_def next_policy_def policy_fields_def audit_fields_def simple_policy_def policy_etag_def)
  from concurrent_set_is_refused [OF this, of "\<lparr>sp_policy = Some (simple_policy emptyEtag), sp_mask = []\<rparr>"
      "simple_policy emptyEtag" "''22222222''" False]
  show ?thesis by (simp add: simple_policy_def policy_etag_def emptyEtag_def)
qed

text \<open>What a resource with audit configs stores is what it returns: after an accepted set whose mask
  names both fields, \<open>Get\<close> gives the bindings that have members and the audit configs as they were
  sent, without any condition, under the new etag. The enum's names are assumed to be inverse to its
  numbers, as generated code has them.\<close>

theorem set_then_get:
  assumes "SetWithAuditConfigs lt_name rnd current req = Inr s" "sp_policy req = Some p"
    and "''bindings'' \<in> set (sp_mask req)" "''audit_configs'' \<in> set (sp_mask req)" "rnd \<noteq> []"
    and "\<And>n nm. lt_name n = Some nm \<Longrightarrow> lt_value nm = n"
  shows "iam_Get lt_value (Some s) 3 = Inr \<lparr>pp_version = 1,
      pp_bindings = map (\<lambda>b. b\<lparr>bp_condition := False\<rparr>) (filter (\<lambda>b. bp_members b \<noteq> []) (pp_bindings p)),
      pp_audit_configs = pp_audit_configs p, pp_etag = rnd\<rparr>"
proof -
  obtain p' m bindings audits where ok: "sp_policy req = Some p'" "mask_fields True (sp_mask req) = Inr m"
    "set_bindings (pp_bindings p') = Inr bindings" "auditConfigs lt_name (pp_audit_configs p') = Inr audits"
    "s = next_policy rnd current True (if m = [] then [''bindings'', ''etag''] else m) bindings audits"
    using assms(1) unfolding SetWithAuditConfigs_def by (rule iam_apply_Inr)
  then have [simp]: "p' = p" using assms(2) by simp
  have m: "''bindings'' \<in> set m" "''audit_configs'' \<in> set m"
    using mask_fields_keep [OF ok(2)] assms(3,4) by blast+
  then have "m \<noteq> []" by auto
  then have s: "s = \<lparr>st_Bindings = bindings, st_AuditConfigs = audits, st_Etag = rnd\<rparr>"
    using ok(5) m by (simp add: next_policy_def split: option.splits)
  note b = set_bindings_ok [OF ok(3)] and a = auditConfigs_back [of lt_name lt_value, OF assms(6) ok(4)]
  show ?thesis using b a assms(5) by (simp add: s iam_Get_def policy_Proto_def policy_etag_def o_def)
qed

theorem set_then_get_witness:
  "iam_Get (\<lambda>nm. if nm = ''DATA_READ'' then 3 else 0)
     (Some \<lparr>st_Bindings = [\<lparr>ib_Role = ''r'', ib_Members = [''m'']\<rparr>], st_AuditConfigs = [], st_Etag = ''11111111''\<rparr>) 3 =
   Inr ((simple_policy ''11111111'')\<lparr>pp_version := 1\<rparr>)"
proof -
  let ?n = "\<lambda>n :: int. if n = 3 then Some ''DATA_READ'' else None"
  let ?req = "\<lparr>sp_policy = Some (simple_policy []), sp_mask = [''bindings'', ''audit_configs'']\<rparr>"
  have "SetWithAuditConfigs ?n ''11111111'' None ?req =
      Inr \<lparr>st_Bindings = [\<lparr>ib_Role = ''r'', ib_Members = [''m'']\<rparr>], st_AuditConfigs = [], st_Etag = ''11111111''\<rparr>"
    by (simp add: SetWithAuditConfigs_def iam_apply_def next_policy_def policy_fields_def audit_fields_def simple_policy_def)
  moreover have "(if nm = ''DATA_READ'' then 3 else 0) = n" if "?n n = Some nm" for n nm
    using that by (simp split: if_splits)
  ultimately show ?thesis
    using set_then_get [of ?n "''11111111''" None ?req _ "simple_policy []"
        "\<lambda>nm. if nm = ''DATA_READ'' then 3 else 0"]
    by (simp add: simple_policy_def)
qed


end
