(* ===== verification/Tasks_Types.thy ===== *)
theory Tasks_Types
  imports Backoff Iampolicy Resource
begin

text \<open>
  The data of package \<open>internal/service/tasks\<close>: the stored forms of \<open>store.go\<close>,
  \<open>appengine1447.go\<close> and \<open>logging1256.go\<close>, and the protocol buffer messages of
  google.cloud.tasks.v2 as records of the fields the package reads and writes. A message's
  \<open>Duration\<close> or \<open>Timestamp\<close> is the value its \<open>AsDuration\<close> or \<open>AsTime\<close> gives; a field that is
  not set is \<open>None\<close>. What the generated code and the protobuf library compute is gathered in
  \<open>pb_lib\<close>, an argument of the definitions that call it.
\<close>

section \<open>Floating-point comparisons\<close>

text \<open>\<open>a <= b\<close>, false when either is NaN.\<close>

definition f64_le :: "f64 \<Rightarrow> f64 \<Rightarrow> bool" where
  "f64_le a b \<longleftrightarrow> a \<noteq> NaN \<and> b \<noteq> NaN \<and> \<not> f64_less b a"

definition f64_finite :: "f64 \<Rightarrow> bool" where
  "f64_finite a \<longleftrightarrow> a \<noteq> NaN \<and> \<not> IsInf a"

section \<open>Queues\<close>

text \<open>\<open>State\<close> is a string type.\<close>

type_synonym queue_state = string

definition StateRunning :: queue_state where "StateRunning = ''RUNNING''"
definition StatePaused :: queue_state where "StatePaused = ''PAUSED''"
definition StateDisabled :: queue_state where "StateDisabled = ''DISABLED''"

lemmas queue_state_defs = StateRunning_def StatePaused_def StateDisabled_def

text \<open>\<open>RetryConfig\<close> has the fields of \<open>sched.CloudTasksBackoff\<close> and is converted to and from it.\<close>

type_synonym retry_config = ct_backoff

definition unset_retry :: retry_config where
  "unset_retry = \<lparr>ct_MaxAttempts = 0, ct_MinBackoff = 0, ct_MaxBackoff = 0, ct_MaxDoublings = 0,
     ct_MaxRetryDuration = 0\<rparr>"

definition DefaultRetryConfig :: retry_config where
  "DefaultRetryConfig = DefaultCloudTasksBackoff"

definition retry_withDefaults :: "retry_config \<Rightarrow> retry_config" where
  "retry_withDefaults rc = WithDefaults rc"

record rate_limits =
  rl_MaxDispatchesPerSecond :: f64
  rl_MaxConcurrentDispatches :: int

definition unset_rate :: rate_limits where
  "unset_rate = \<lparr>rl_MaxDispatchesPerSecond = Fin 0, rl_MaxConcurrentDispatches = 0\<rparr>"

definition DefaultRateLimits :: rate_limits where
  "DefaultRateLimits = \<lparr>rl_MaxDispatchesPerSecond = Fin 500, rl_MaxConcurrentDispatches = 1000\<rparr>"

definition rate_withDefaults :: "rate_limits \<Rightarrow> rate_limits" where
  "rate_withDefaults rl =
     (let d = DefaultRateLimits;
          rl = (if f64_le (rl_MaxDispatchesPerSecond rl) (Fin 0)
                then rl\<lparr>rl_MaxDispatchesPerSecond := rl_MaxDispatchesPerSecond d\<rparr> else rl)
      in if rl_MaxConcurrentDispatches rl \<le> 0
         then rl\<lparr>rl_MaxConcurrentDispatches := rl_MaxConcurrentDispatches d\<rparr> else rl)"

record logging_config =
  lc_SamplingRatio :: f64

record ae_routing =
  aer_Service :: string
  aer_Version :: string
  aer_Instance :: string

text \<open>\<open>HTTPTarget\<close> is the proto JSON of the queue's \<open>http_target\<close>, empty for none.\<close>

record queue =
  q_Name :: string
  q_State :: queue_state
  q_RetryConfig :: retry_config
  q_RateLimits :: rate_limits
  q_Created :: time
  q_Purged :: time
  q_IAMPolicy :: "stored_policy option"
  q_Logging :: "logging_config option"
  q_HTTPTarget :: string
  q_AppEngineRouting :: "ae_routing option"

definition zero_queue :: queue where
  "zero_queue = \<lparr>q_Name = [], q_State = [], q_RetryConfig = unset_retry, q_RateLimits = unset_rate,
     q_Created = zero_time, q_Purged = zero_time, q_IAMPolicy = None, q_Logging = None,
     q_HTTPTarget = [], q_AppEngineRouting = None\<rparr>"

section \<open>Tasks\<close>

record oidc_token =
  oi_ServiceAccountEmail :: string
  oi_Audience :: string

record oauth_token =
  oa_ServiceAccountEmail :: string
  oa_Scope :: string

record http_request =
  hr_URL :: string
  hr_Method :: string
  hr_Headers :: "string gomap"
  hr_Body :: string
  hr_OIDCToken :: "oidc_token option"
  hr_OAuthToken :: "oauth_token option"

record ae_request =
  ae_Method :: string
  ae_RelativeURI :: string
  ae_Headers :: "string gomap"
  ae_Body :: string
  ae_Routing :: "ae_routing option"

record attempt =
  at_Scheduled :: time
  at_Dispatched :: time
  at_Responded :: time
  at_Code :: int
  at_Message :: string

record task =
  t_Name :: string
  t_Queue :: string
  t_HTTPRequest :: "http_request option"
  t_AppEngineHTTPRequest :: "ae_request option"
  t_ScheduleTime :: time
  t_Created :: time
  t_DispatchCount :: int
  t_ResponseCount :: int
  t_LastResponseCode :: int
  t_FirstAttempt :: time
  t_LastAttempt :: "attempt option"
  t_DispatchDeadline :: duration
  t_Traceparent :: string
  t_RunRequested :: time
  t_NamedByServer :: bool

definition zero_task :: task where
  "zero_task = \<lparr>t_Name = [], t_Queue = [], t_HTTPRequest = None, t_AppEngineHTTPRequest = None,
     t_ScheduleTime = zero_time, t_Created = zero_time, t_DispatchCount = 0, t_ResponseCount = 0,
     t_LastResponseCode = 0, t_FirstAttempt = zero_time, t_LastAttempt = None, t_DispatchDeadline = 0,
     t_Traceparent = [], t_RunRequested = zero_time, t_NamedByServer = False\<rparr>"

section \<open>Messages\<close>

text \<open>The constants of the enum \<open>HttpMethod\<close> the code names; any other value is \<open>OtherMethod\<close>.\<close>

datatype http_method =
    HTTP_METHOD_UNSPECIFIED | POST | GET | HEAD | PUT | DELETE | OPTIONS | OtherMethod int

text \<open>The scheme is the enum's number, 0 for \<open>SCHEME_UNSPECIFIED\<close>.\<close>

record uri_override_pb =
  uo_Scheme :: "int option"
  uo_Host :: "string option"
  uo_Port :: "int option"
  uo_PathOverride :: "string option"
  uo_QueryOverride :: "string option"
  uo_IfNotExists :: bool

datatype auth_pb = NoAuth | OidcAuth oidc_token | OauthAuth oauth_token

record http_target_pb =
  ht_UriOverride :: "uri_override_pb option"
  ht_HttpMethod :: http_method
  ht_HeaderOverrides :: "(string \<times> string) list"
  ht_Authorization :: auth_pb

record rate_limits_pb =
  rp_MaxDispatchesPerSecond :: f64
  rp_MaxConcurrentDispatches :: int
  rp_MaxBurstSize :: int

record retry_config_pb =
  cp_MaxAttempts :: int
  cp_MinBackoff :: "duration option"
  cp_MaxBackoff :: "duration option"
  cp_MaxDoublings :: int
  cp_MaxRetryDuration :: "duration option"

datatype state_pb = RUNNING | PAUSED | DISABLED | OtherState int

record routing_pb =
  rt_Service :: string
  rt_Version :: string
  rt_Instance :: string
  rt_Host :: string

record queue_pb =
  qp_Name :: string
  qp_State :: state_pb
  qp_RateLimits :: "rate_limits_pb option"
  qp_RetryConfig :: "retry_config_pb option"
  qp_PurgeTime :: "time option"
  qp_Logging :: "f64 option"
  qp_HttpTarget :: "http_target_pb option"
  qp_AppEngineRoutingOverride :: "routing_pb option"

record http_request_pb =
  hp_Url :: string
  hp_HttpMethod :: http_method
  hp_Headers :: "string gomap"
  hp_Body :: string
  hp_Authorization :: auth_pb

record ae_request_pb =
  ep_HttpMethod :: http_method
  ep_RelativeUri :: string
  ep_Headers :: "string gomap"
  ep_Body :: string
  ep_Routing :: "routing_pb option"

datatype message_type = NoMessage | HttpMessage http_request_pb | AppEngineMessage ae_request_pb

record attempt_pb =
  tp_ScheduleTime :: "time option"
  tp_DispatchTime :: "time option"
  tp_ResponseTime :: "time option"
  tp_ResponseStatus :: "(int \<times> string) option"

record task_pb =
  tk_Name :: string
  tk_ScheduleTime :: "time option"
  tk_CreateTime :: "time option"
  tk_DispatchDeadline :: "duration option"
  tk_DispatchCount :: int
  tk_ResponseCount :: int
  tk_MessageType :: message_type
  tk_FirstAttempt :: "attempt_pb option"
  tk_LastAttempt :: "attempt_pb option"

text \<open>
  The operation a batch returns: its metadata (times, whether some request failed, the failures by
  index) and its result. A batch of deletions answers with the empty message, \<open>BatchDeleted\<close>.
\<close>

datatype batch_result = BatchError code | BatchTasks "task_pb list" | BatchDeleted

record batch_op =
  lo_Name :: string
  lo_Start :: time
  lo_End :: time
  lo_Partial :: bool
  lo_Failed :: "(int \<times> code) list"
  lo_Done :: bool
  lo_Result :: batch_result

text \<open>
  \<open>url.URL\<close>: the fields the code reads or replaces; the others, among them the user and the fragment,
  are kept together in \<open>u_Other\<close>.
\<close>

record url =
  u_Scheme :: string
  u_Host :: string
  u_Path :: string
  u_RawPath :: string
  u_RawQuery :: string
  u_Other :: "string list"

text \<open>
  Code outside the repository: names and numbers of the enums, \<open>proto.Size\<close>, \<open>protojson\<close> on an
  \<open>HttpTarget\<close>, and \<open>url.Parse\<close> and \<open>URL.String\<close>.
\<close>

record pb_lib =
  method_String :: "http_method \<Rightarrow> string"
  HttpMethod_value :: "string \<Rightarrow> http_method option"
  scheme_String :: "int \<Rightarrow> string"
  target_Size :: "http_target_pb \<Rightarrow> nat"
  target_Marshal :: "http_target_pb \<Rightarrow> string"
  target_Unmarshal :: "string \<Rightarrow> http_target_pb option"
  url_Parse :: "string \<Rightarrow> url option"
  url_String :: "url \<Rightarrow> string"

section \<open>Documents\<close>

text \<open>
  What the store keeps under a key of this service: the JSON of a queue, a task, an instant or a
  string, or the wire form of an operation. A document stands for its bytes: reading back what
  \<open>json.Marshal\<close> wrote gives the value it was given, for the strings of protocol buffers are
  valid UTF-8, floats are printed with the digits that determine them and instants with their
  nanoseconds.
\<close>

datatype doc = JQueue queue | JTask task | JTime time | JString string | POperation batch_op

text \<open>\<open>json.Marshal\<close> fails on an infinite or NaN float and on an instant \<open>time_json_ok\<close> refuses.\<close>

definition queue_json_ok :: "queue \<Rightarrow> bool" where
  "queue_json_ok q \<longleftrightarrow>
     time_json_ok (q_Created q) \<and> time_json_ok (q_Purged q) \<and>
     f64_finite (rl_MaxDispatchesPerSecond (q_RateLimits q)) \<and>
     (case q_Logging q of None \<Rightarrow> True | Some c \<Rightarrow> f64_finite (lc_SamplingRatio c))"

definition attempt_json_ok :: "attempt \<Rightarrow> bool" where
  "attempt_json_ok a \<longleftrightarrow>
     time_json_ok (at_Scheduled a) \<and> time_json_ok (at_Dispatched a) \<and> time_json_ok (at_Responded a)"

definition task_json_ok :: "task \<Rightarrow> bool" where
  "task_json_ok t \<longleftrightarrow>
     time_json_ok (t_ScheduleTime t) \<and> time_json_ok (t_Created t) \<and> time_json_ok (t_FirstAttempt t) \<and>
     time_json_ok (t_RunRequested t) \<and>
     (case t_LastAttempt t of None \<Rightarrow> True | Some a \<Rightarrow> attempt_json_ok a)"

fun json_Marshal :: "doc \<Rightarrow> doc option" where
  "json_Marshal (JQueue q) = (if queue_json_ok q then Some (JQueue q) else None)"
| "json_Marshal (JTask t) = (if task_json_ok t then Some (JTask t) else None)"
| "json_Marshal (JTime t) = (if time_json_ok t then Some (JTime t) else None)"
| "json_Marshal (JString s) = Some (JString s)"
| "json_Marshal (POperation p) = Some (POperation p)"

lemma json_Marshal_Some: "json_Marshal v = Some b \<Longrightarrow> b = v"
  by (cases v) (simp_all split: if_splits)

lemma rate_withDefaults_pos:
  "rl_MaxConcurrentDispatches (rate_withDefaults rl) > 0"
  "rl_MaxDispatchesPerSecond (rate_withDefaults rl) \<noteq> NaN \<Longrightarrow>
   f64_less (Fin 0) (rl_MaxDispatchesPerSecond (rate_withDefaults rl))"
  by (auto simp: rate_withDefaults_def DefaultRateLimits_def f64_le_def Let_def split: if_splits)

end
