(* ===== verification/Tasks_Filter.thy ===== *)
theory Tasks_Filter
  imports Tasks_Types Apierror
begin

text \<open>
  The filters of \<open>ListQueues\<close> (\<open>filter.go\<close>): the lexer, the parser, the resolution of field paths, the
  check of a value against its field and the evaluation on a queue. A panic is the value \<open>None\<close>.
  \<open>strconv.ParseFloat\<close> and \<open>strconv.ParseBool\<close> are modelled; the protobuf reflection of a queue,
  \<open>time.Parse\<close> and Unicode's lower case are the record \<open>reflect_lib\<close>, an argument.
\<close>

section \<open>Numbers in text\<close>

fun f64_add :: "f64 \<Rightarrow> f64 \<Rightarrow> f64" where
  "f64_add (Fin x) (Fin y) = round64 (x + y)"
| "f64_add NaN _ = NaN"
| "f64_add _ NaN = NaN"
| "f64_add PInf NInf = NaN"
| "f64_add NInf PInf = NaN"
| "f64_add PInf _ = PInf"
| "f64_add _ PInf = PInf"
| "f64_add NInf _ = NInf"
| "f64_add _ NInf = NInf"

definition hex_digit :: "char \<Rightarrow> int option" where
  "hex_digit c =
     (if CHR ''0'' \<le> c \<and> c \<le> CHR ''9'' then Some (of_char c - 48)
      else if CHR ''a'' \<le> lower_char c \<and> lower_char c \<le> CHR ''f'' then Some (of_char (lower_char c) - 87)
      else None)"

definition base_digit :: "bool \<Rightarrow> char \<Rightarrow> int option" where
  "base_digit hex c = (if hex \<or> CHR ''0'' \<le> c \<and> c \<le> CHR ''9'' then hex_digit c else None)"

text \<open>
  The mantissa of \<open>readFloat\<close>: the digits read as one number, how many stood after the dot, whether
  there was a digit, and the rest.
\<close>

fun read_mantissa :: "bool \<Rightarrow> bool \<Rightarrow> bool \<Rightarrow> int \<Rightarrow> int \<Rightarrow> string \<Rightarrow> int \<times> int \<times> bool \<times> string" where
  "read_mantissa hex dot digits m fr [] = (m, fr, digits, [])"
| "read_mantissa hex dot digits m fr (c # s) =
     (if c = CHR ''_'' then read_mantissa hex dot digits m fr s
      else if c = CHR ''.'' then
        (if dot then (m, fr, digits, c # s) else read_mantissa hex True digits m fr s)
      else case base_digit hex c of
        Some d \<Rightarrow> read_mantissa hex dot True (m * (if hex then 16 else 10) + d) (if dot then fr + 1 else fr) s
      | None \<Rightarrow> (m, fr, digits, c # s))"

text \<open>The exponent's digits, saturating, and the rest.\<close>

fun read_digits :: "int \<Rightarrow> string \<Rightarrow> int \<times> string" where
  "read_digits e [] = (e, [])"
| "read_digits e (c # s) =
     (if c = CHR ''_'' then read_digits e s
      else case base_digit False c of
        Some d \<Rightarrow> read_digits (if e < 10000 then e * 10 + d else e) s
      | None \<Rightarrow> (e, c # s))"

fun read_sign :: "string \<Rightarrow> bool \<times> string" where
  "read_sign (c # s) = (if c = CHR ''+'' then (False, s) else if c = CHR ''-'' then (True, s) else (False, c # s))"
| "read_sign [] = (False, [])"

definition read_exponent :: "bool \<Rightarrow> string \<Rightarrow> (int \<times> string) option" where
  "read_exponent hex s =
     (case s of
        c # r \<Rightarrow>
          if lower_char c = (if hex then CHR ''p'' else CHR ''e'') then
            (case read_sign r of (neg, r') \<Rightarrow>
               (case r' of
                  d # _ \<Rightarrow> (if base_digit False d = None then None
                            else case read_digits 0 r' of (e, rest) \<Rightarrow> Some (if neg then - e else e, rest))
                | [] \<Rightarrow> None))
          else if hex then None else Some (0, s)
      | [] \<Rightarrow> if hex then None else Some (0, []))"

text \<open>\<open>underscoreOK\<close>: an underscore stands between digits, or after the base prefix.\<close>

datatype seen = AtStart | Digit | Underscore | Other

fun underscores_ok :: "bool \<Rightarrow> seen \<Rightarrow> string \<Rightarrow> bool" where
  "underscores_ok hex i [] = (i \<noteq> Underscore)"
| "underscores_ok hex i (c # s) =
     (if base_digit hex c \<noteq> None then underscores_ok hex Digit s
      else if c = CHR ''_'' then i = Digit \<and> underscores_ok hex Underscore s
      else i \<noteq> Underscore \<and> underscores_ok hex Other s)"

definition underscoreOK :: "string \<Rightarrow> bool" where
  "underscoreOK s =
     (case snd (read_sign s) of
        z # b # r \<Rightarrow>
          if z = CHR ''0'' \<and> lower_char b \<in> {CHR ''b'', CHR ''o'', CHR ''x''}
          then underscores_ok (lower_char b = CHR ''x'') Digit r
          else underscores_ok False AtStart (z # b # r)
      | r \<Rightarrow> underscores_ok False AtStart r)"

definition is_hex :: "string \<Rightarrow> bool" where
  "is_hex s = (case s of z # x # _ # _ \<Rightarrow> z = CHR ''0'' \<and> lower_char x = CHR ''x'' | _ \<Rightarrow> False)"

text \<open>
  \<open>strconv.ParseFloat(s, 64)\<close>, \<open>None\<close> for an error: bad syntax, or a finite number too large.
\<close>

definition ParseFloat :: "string \<Rightarrow> f64 option" where
  "ParseFloat s =
     (case read_sign s of (neg, r) \<Rightarrow>
        if ToLower r \<in> {''inf'', ''infinity''} then Some (if neg then NInf else PInf)
        else if ToLower s = ''nan'' then Some NaN
        else let hex = is_hex r in
          (case read_mantissa hex False False 0 0 (if hex then drop 2 r else r) of (m, fr, digits, r1) \<Rightarrow>
             if \<not> digits then None
             else (case read_exponent hex r1 of
               None \<Rightarrow> None
             | Some (e, rest) \<Rightarrow>
                 if rest \<noteq> [] \<or> CHR ''_'' \<in> set s \<and> \<not> underscoreOK s then None
                 else
                   let x = of_int m * (if hex then 2 powi (e - 4 * fr) else 10 powi (e - fr));
                       f = round64 (if neg then - x else x)
                   in if IsInf f then None else Some f)))"

definition ParseBool :: "string \<Rightarrow> bool option" where
  "ParseBool s =
     (if s \<in> {''1'', ''t'', ''T'', ''true'', ''TRUE'', ''True''} then Some True
      else if s \<in> {''0'', ''f'', ''F'', ''false'', ''FALSE'', ''False''} then Some False else None)"

section \<open>The lexer\<close>

record qtoken =
  qt_text :: string
  qt_quoted :: bool

abbreviation plain :: "string \<Rightarrow> qtoken" where
  "plain w \<equiv> \<lparr>qt_text = w, qt_quoted = False\<rparr>"

abbreviation quoted :: "string \<Rightarrow> qtoken" where
  "quoted w \<equiv> \<lparr>qt_text = w, qt_quoted = True\<rparr>"

text \<open>\<open>unicode.IsSpace(rune(c))\<close> of one byte: the bytes 85 and A0 count too.\<close>

definition byte_space :: "char \<Rightarrow> bool" where
  "byte_space c \<longleftrightarrow> is_space c \<or> c = CHR 0x85 \<or> c = CHR 0xA0"

definition operator_start :: "char \<Rightarrow> bool" where
  "operator_start c \<longleftrightarrow> c \<in> set ''<>=!:~''"

definition operator_more :: "char \<Rightarrow> bool" where
  "operator_more c \<longleftrightarrow> c \<in> set ''<>=!~''"

definition word_char :: "char \<Rightarrow> bool" where
  "word_char c \<longleftrightarrow> \<not> byte_space c \<and> c \<notin> set ''()<>=!:~'' \<and> c \<noteq> CHR 0x22"

text \<open>The inside of a string up to its closing quote; \<open>None\<close> if there is none.\<close>

fun read_string :: "string \<Rightarrow> (string \<times> string) option" where
  "read_string [] = None"
| "read_string (c # s) =
     (if c = CHR 0x22 then Some ([], s)
      else case s of
        [] \<Rightarrow> None
      | d # r \<Rightarrow>
          (case (if c = CHR 0x5C then (d, read_string r) else (c, read_string s)) of
             (x, None) \<Rightarrow> None
           | (x, Some (w, rest)) \<Rightarrow> Some (x # w, rest)))"

lemma read_string_shorter: "read_string s = Some (w, rest) \<Longrightarrow> length rest < length s"
proof (induction s arbitrary: w rest rule: read_string.induct)
  case (2 c s)
  show ?case
  proof (cases "c = CHR 0x22")
    case True
    then show ?thesis using 2 by simp
  next
    case False
    then show ?thesis using 2
      by (cases s) (fastforce split: if_splits option.splits)+
  qed
qed simp

function lexQueueFilter :: "string \<Rightarrow> code + qtoken list" where
  "lexQueueFilter [] = Inr []"
| "lexQueueFilter (c # s) =
     (if byte_space c then lexQueueFilter s
      else if c = CHR ''('' \<or> c = CHR '')'' then map_sum id ((#) (plain [c])) (lexQueueFilter s)
      else if c = CHR 0x22 then
        (case read_string s of
           None \<Rightarrow> Inl InvalidArgument
         | Some (w, rest) \<Rightarrow> map_sum id ((#) (quoted w)) (lexQueueFilter rest))
      else if operator_start c then
        map_sum id ((#) (plain (c # takeWhile operator_more s))) (lexQueueFilter (dropWhile operator_more s))
      else map_sum id ((#) (plain (c # takeWhile word_char s))) (lexQueueFilter (dropWhile word_char s)))"
  by pat_completeness auto
termination
  by (relation "measure length")
    (auto simp: read_string_shorter less_Suc_eq_le length_dropWhile_le dest: read_string_shorter)

section \<open>Fields of a queue\<close>

datatype kind = BoolKind | EnumKind | StringKind | MessageKind | DoubleKind | FloatKind
  | Uint32Kind | Uint64Kind | Fixed32Kind | Fixed64Kind | OtherKind

text \<open>A \<open>FieldDescriptor\<close>: of a message field the full name of its type, of an enum the names and numbers.\<close>

record fdesc =
  fd_Name :: string
  fd_Kind :: kind
  fd_IsList :: bool
  fd_IsMap :: bool
  fd_Message :: string
  fd_Enum :: "(string \<times> int) list"

text \<open>A value read by reflection; a \<open>Duration\<close> or \<open>Timestamp\<close> as its seconds and nanoseconds.\<close>

datatype pvalue = VEnum int | VString string | VBool bool | VTime int int | VFloat f64 | VUint int | VInt int

text \<open>
  What the protobuf library and the generated code answer: the fields of a message type by name and by
  JSON name, and along a path of fields the value and whether the last one is set. Further the Unix
  time of a time in RFC 3339, in nanoseconds, and \<open>strings.ToLower\<close> on all of Unicode.
\<close>

record reflect_lib =
  rf_Queue :: string
  rf_ByName :: "string \<Rightarrow> string \<Rightarrow> fdesc option"
  rf_ByJSONName :: "string \<Rightarrow> string \<Rightarrow> fdesc option"
  rf_Get :: "queue_pb \<Rightarrow> fdesc list \<Rightarrow> pvalue"
  rf_Has :: "queue_pb \<Rightarrow> fdesc list \<Rightarrow> bool"
  rf_UnixNano :: "string \<Rightarrow> int option"
  rf_ToLower :: "string \<Rightarrow> string"

definition Duration_name :: string where
  "Duration_name = ''google.protobuf.Duration''"

definition leafMessage :: "string \<Rightarrow> bool" where
  "leafMessage md \<longleftrightarrow> md = Duration_name \<or> md = ''google.protobuf.Timestamp''"

fun field_path :: "reflect_lib \<Rightarrow> string \<Rightarrow> string list \<Rightarrow> fdesc list option" where
  "field_path R md [] = None"
| "field_path R md (part # parts) =
     (case (case rf_ByName R md part of Some fd \<Rightarrow> Some fd | None \<Rightarrow> rf_ByJSONName R md part) of
        None \<Rightarrow> None
      | Some fd \<Rightarrow>
          if fd_IsList fd \<or> fd_IsMap fd then None
          else if fd_Kind fd \<noteq> MessageKind \<or> leafMessage (fd_Message fd) then
            (if parts = [] then Some [fd] else None)
          else map_option ((#) fd) (field_path R (fd_Message fd) parts))"

definition queueFieldPath :: "reflect_lib \<Rightarrow> string \<Rightarrow> fdesc list option" where
  "queueFieldPath R field = field_path R (rf_Queue R) (split_on (CHR ''.'') field)"

section \<open>The parser\<close>

datatype qnode = NAnd "qnode list" | NOr "qnode list" | NNot qnode | NRestriction "fdesc list" string string

definition parseFilterSeconds :: "string \<Rightarrow> f64 option" where
  "parseFilterSeconds s = ParseFloat (TrimSuffix s ''s'')"

text \<open>\<open>check\<close>: whether the field can hold the value, for the comparison asked.\<close>

definition value_ok :: "reflect_lib \<Rightarrow> fdesc \<Rightarrow> string \<Rightarrow> string \<Rightarrow> bool" where
  "value_ok R fd cmp val =
     (if val = ''*'' then cmp = '':''
      else case fd_Kind fd of
        EnumKind \<Rightarrow> cmp \<in> {''='', ''!='', '':''} \<and>
          (case map_of (fd_Enum fd) val of None \<Rightarrow> False | Some n \<Rightarrow> n \<noteq> 0)
      | MessageKind \<Rightarrow> if fd_Message fd = Duration_name then parseFilterSeconds val \<noteq> None
                       else rf_UnixNano R val \<noteq> None
      | StringKind \<Rightarrow> True
      | BoolKind \<Rightarrow> ParseBool val \<noteq> None
      | _ \<Rightarrow> ParseFloat val \<noteq> None)"

definition at_word :: "string \<Rightarrow> qtoken list \<Rightarrow> bool" where
  "at_word w toks = (case toks of [] \<Rightarrow> False | t # _ \<Rightarrow> \<not> qt_quoted t \<and> qt_text t = w)"

definition operators :: "string list" where
  "operators = [''='', ''!='', ''<'', ''>'', ''<='', ''>='', '':'']"

definition restriction :: "reflect_lib \<Rightarrow> qtoken list \<Rightarrow> code + (qnode \<times> qtoken list)" where
  "restriction R toks =
     (case toks of
        field # t # rest \<Rightarrow>
          if qt_quoted t then Inl InvalidArgument
          else if qt_text t \<notin> set operators then
            Inl (if qt_text t \<in> {''=~'', ''!~'', ''~''} then Unimplemented else InvalidArgument)
          else
            (case rest of
               [] \<Rightarrow> Inl InvalidArgument
             | v # rest' \<Rightarrow>
                 if \<not> qt_quoted v \<and> (qt_text v = ''('' \<or> qt_text v = '')'') then Inl InvalidArgument
                 else (case queueFieldPath R (qt_text field) of
                   None \<Rightarrow> Inl InvalidArgument
                 | Some path \<Rightarrow>
                     if value_ok R (last path) (qt_text t) (qt_text v)
                     then Inr (NRestriction path (qt_text t) (qt_text v), rest') else Inl InvalidArgument))
      | _ \<Rightarrow> Inl InvalidArgument)"

text \<open>
  The three mutually recursive methods and their loops, on the tokens not yet read; the first argument
  bounds the calls, \<open>None\<close> if it is not enough.
\<close>

fun parse_and :: "nat \<Rightarrow> reflect_lib \<Rightarrow> qnode list \<Rightarrow> qtoken list \<Rightarrow> (code + (qnode \<times> qtoken list)) option"
  and parse_or :: "nat \<Rightarrow> reflect_lib \<Rightarrow> qnode list \<Rightarrow> qtoken list \<Rightarrow> (code + (qnode \<times> qtoken list)) option"
  and parse_unary :: "nat \<Rightarrow> reflect_lib \<Rightarrow> qtoken list \<Rightarrow> (code + (qnode \<times> qtoken list)) option"
where
  "parse_and 0 R kids toks = None"
| "parse_and (Suc n) R kids toks =
     (if toks = [] \<or> at_word '')'' toks then
        Some (if kids = [] then Inl InvalidArgument else Inr (NAnd kids, toks))
      else if at_word ''AND'' toks then parse_and n R kids (tl toks)
      else case parse_or n R [] toks of
        None \<Rightarrow> None
      | Some (Inl e) \<Rightarrow> Some (Inl e)
      | Some (Inr (k, rest)) \<Rightarrow> parse_and n R (kids @ [k]) rest)"
| "parse_or 0 R kids toks = None"
| "parse_or (Suc n) R kids toks =
     (case parse_unary n R toks of
        None \<Rightarrow> None
      | Some (Inl e) \<Rightarrow> Some (Inl e)
      | Some (Inr (k, rest)) \<Rightarrow>
          if at_word ''OR'' rest then parse_or n R (kids @ [k]) (tl rest)
          else Some (Inr (NOr (kids @ [k]), rest)))"
| "parse_unary 0 R toks = None"
| "parse_unary (Suc n) R toks =
     (case toks of
        [] \<Rightarrow> Some (Inl InvalidArgument)
      | t # rest \<Rightarrow>
          if \<not> qt_quoted t \<and> qt_text t = ''NOT'' then
            map_option (map_sum id (map_prod NNot id)) (parse_unary n R rest)
          else if \<not> qt_quoted t \<and> HasPrefix (qt_text t) ''-'' \<and> 1 < length (qt_text t) then
            map_option (map_sum id (map_prod NNot id)) (parse_unary n R (plain (tl (qt_text t)) # rest))
          else if \<not> qt_quoted t \<and> qt_text t = ''('' then
            (case parse_and n R [] rest of
               None \<Rightarrow> None
             | Some (Inl e) \<Rightarrow> Some (Inl e)
             | Some (Inr (k, rest')) \<Rightarrow>
                 Some (if at_word '')'' rest' then Inr (k, tl rest') else Inl InvalidArgument))
          else Some (restriction R toks))"

section \<open>Evaluation\<close>

definition compareFilter :: "int \<Rightarrow> string \<Rightarrow> bool" where
  "compareFilter c cmp =
     (if cmp = ''='' \<or> cmp = '':'' then c = 0 else if cmp = ''<'' then c < 0 else if cmp = ''>'' then c > 0
      else if cmp = ''<='' then c \<le> 0 else if cmp = ''>='' then c \<ge> 0 else False)"

definition compareFloat :: "f64 \<Rightarrow> f64 \<Rightarrow> string \<Rightarrow> bool" where
  "compareFloat got want cmp =
     compareFilter (if f64_less got want then - 1 else if f64_less want got then 1 else 0) cmp"

definition strings_Compare :: "string \<Rightarrow> string \<Rightarrow> int" where
  "strings_Compare a b = (if a = b then 0 else if a < b then - 1 else 1)"

text \<open>A value of the wrong sort for its field and an enum number without a name panic.\<close>

definition parsed :: "f64 option \<Rightarrow> f64" where
  "parsed x = (case x of None \<Rightarrow> Fin 0 | Some f \<Rightarrow> f)"

definition filter_matches :: "reflect_lib \<Rightarrow> fdesc \<Rightarrow> pvalue \<Rightarrow> string \<Rightarrow> string \<Rightarrow> bool option" where
  "filter_matches R fd v cmp val =
     (case (fd_Kind fd, v) of
        (EnumKind, VEnum n) \<Rightarrow>
          map_option (\<lambda>(nm, _). nm = val) (List.find (\<lambda>(_, k). k = n) (fd_Enum fd))
      | (StringKind, VString s) \<Rightarrow>
          Some (if cmp = '':'' then Contains (rf_ToLower R s) (rf_ToLower R val)
                else compareFilter (strings_Compare s val) cmp)
      | (BoolKind, VBool b) \<Rightarrow> Some ((cmp = ''='' \<or> cmp = '':'') \<and> b = (ParseBool val = Some True))
      | (MessageKind, VTime seconds nanos) \<Rightarrow>
          let secs = f64_add (f64_of_int seconds) (f64_div (f64_of_int nanos) (Fin 1000000000));
              want = (if fd_Message fd = Duration_name then parsed (parseFilterSeconds val)
                      else f64_div (f64_of_int (case rf_UnixNano R val of None \<Rightarrow> 0 | Some t \<Rightarrow> t)) (Fin 1000000000))
          in Some (compareFloat secs want cmp)
      | (DoubleKind, VFloat x) \<Rightarrow> Some (compareFloat x (parsed (ParseFloat val)) cmp)
      | (FloatKind, VFloat x) \<Rightarrow> Some (compareFloat x (parsed (ParseFloat val)) cmp)
      | (Uint32Kind, VUint n) \<Rightarrow> Some (compareFloat (f64_of_int n) (parsed (ParseFloat val)) cmp)
      | (Uint64Kind, VUint n) \<Rightarrow> Some (compareFloat (f64_of_int n) (parsed (ParseFloat val)) cmp)
      | (Fixed32Kind, VUint n) \<Rightarrow> Some (compareFloat (f64_of_int n) (parsed (ParseFloat val)) cmp)
      | (Fixed64Kind, VUint n) \<Rightarrow> Some (compareFloat (f64_of_int n) (parsed (ParseFloat val)) cmp)
      | (OtherKind, VInt n) \<Rightarrow> Some (compareFloat (f64_of_int n) (parsed (ParseFloat val)) cmp)
      | _ \<Rightarrow> None)"

definition eval_restriction :: "reflect_lib \<Rightarrow> queue_pb \<Rightarrow> fdesc list \<Rightarrow> string \<Rightarrow> string \<Rightarrow> bool option" where
  "eval_restriction R q path cmp val =
     (if val = ''*'' then Some (rf_Has R q path)
      else if cmp = ''!='' then map_option Not (filter_matches R (last path) (rf_Get R q path) ''='' val)
      else filter_matches R (last path) (rf_Get R q path) cmp val)"

fun qfilter_eval :: "reflect_lib \<Rightarrow> queue_pb \<Rightarrow> qnode \<Rightarrow> bool option"
  and eval_all :: "reflect_lib \<Rightarrow> queue_pb \<Rightarrow> qnode list \<Rightarrow> bool option"
  and eval_any :: "reflect_lib \<Rightarrow> queue_pb \<Rightarrow> qnode list \<Rightarrow> bool option"
where
  "qfilter_eval R q (NAnd kids) = eval_all R q kids"
| "qfilter_eval R q (NOr kids) = eval_any R q kids"
| "qfilter_eval R q (NNot k) = map_option Not (qfilter_eval R q k)"
| "qfilter_eval R q (NRestriction path cmp val) = eval_restriction R q path cmp val"
| "eval_all R q [] = Some True"
| "eval_all R q (k # kids) =
     (case qfilter_eval R q k of Some True \<Rightarrow> eval_all R q kids | r \<Rightarrow> r)"
| "eval_any R q [] = Some False"
| "eval_any R q (k # kids) =
     (case qfilter_eval R q k of Some False \<Rightarrow> eval_any R q kids | r \<Rightarrow> r)"

text \<open>
  \<open>queueFilter\<close>: the predicate a filter compiles to. The fuel is a bound no parse reaches: three calls
  for each token and each byte of one.
\<close>

definition parse_fuel :: "qtoken list \<Rightarrow> nat" where
  "parse_fuel toks = 3 * sum_list (map (\<lambda>t. Suc (length (qt_text t))) toks) + 3"

definition queueFilter :: "reflect_lib \<Rightarrow> string \<Rightarrow> code + (queue_pb \<Rightarrow> bool option)" where
  "queueFilter R s =
     (if blank s then Inr (\<lambda>_. Some True)
      else case lexQueueFilter s of
        Inl e \<Rightarrow> Inl e
      | Inr toks \<Rightarrow>
          (case parse_and (parse_fuel toks) R [] toks of
             Some (Inr (nd, [])) \<Rightarrow> Inr (\<lambda>q. qfilter_eval R q nd)
           | Some (Inl e) \<Rightarrow> Inl e
           | _ \<Rightarrow> Inl InvalidArgument))"

section \<open>The parser returns\<close>

abbreviation weight :: "qtoken list \<Rightarrow> nat" where
  "weight toks \<equiv> sum_list (map (\<lambda>t. Suc (length (qt_text t))) toks)"

lemma at_word_tl: "at_word w toks \<Longrightarrow> weight (tl toks) < weight toks"
  by (cases toks) (auto simp: at_word_def)

lemma restriction_consumes: "restriction R toks = Inr (k, rest) \<Longrightarrow> weight rest < weight toks"
  by (auto simp: restriction_def Let_def split: list.splits if_splits option.splits)

lemma negated_Inr: "map_sum id (map_prod NNot id) z = Inr (k, rest) \<longleftrightarrow> (\<exists>k'. z = Inr (k', rest) \<and> k = NNot k')"
  by (cases z) auto

lemma parse_consumes:
  "parse_and n R kids toks = Some (Inr (k, rest)) \<Longrightarrow> weight rest \<le> weight toks"
  "parse_or n R kids toks = Some (Inr (k, rest)) \<Longrightarrow> weight rest < weight toks"
  "parse_unary n R toks = Some (Inr (k, rest)) \<Longrightarrow> weight rest < weight toks"
proof (induction n R kids toks and n R kids toks and n R toks arbitrary: k rest and k rest and k rest
    rule: parse_and_parse_or_parse_unary.induct)
  case (2 n R kids toks)
  show ?case
  proof (cases "toks = [] \<or> at_word '')'' toks")
    case stop: False
    show ?thesis
    proof (cases "at_word ''AND'' toks")
      case True
      then have "weight rest \<le> weight (tl toks)" using 2 stop by simp
      then show ?thesis using at_word_tl [OF True] by linarith
    next
      case False
      then obtain k' rest' where o: "parse_or n R [] toks = Some (Inr (k', rest'))"
          and a: "parse_and n R (kids @ [k']) rest' = Some (Inr (k, rest))"
        using 2(4) stop by (auto split: option.splits sum.splits)
      from 2(2) [OF stop False o] 2(3) [OF stop False o _ _ a] show ?thesis by simp
    qed
  qed (use 2(4) in \<open>simp split: if_splits\<close>)
next
  case (4 n R kids toks)
  then obtain k' rest' where u: "parse_unary n R toks = Some (Inr (k', rest'))"
    by (auto split: option.splits sum.splits)
  note w = 4(1) [OF u]
  show ?case
  proof (cases "at_word ''OR'' rest'")
    case True
    then have "weight rest < weight (tl rest')" using 4(2) [OF u _ _ True] 4(3) u by simp
    then show ?thesis using at_word_tl [OF True] w by linarith
  qed (use 4(3) u w in simp)
next
  case (6 n R toks)
  show ?case
  proof (cases toks)
    case (Cons t ts)
    let ?not = "\<not> qt_quoted t \<and> qt_text t = ''NOT''"
    let ?dash = "\<not> qt_quoted t \<and> HasPrefix (qt_text t) ''-'' \<and> 1 < length (qt_text t)"
    let ?open = "\<not> qt_quoted t \<and> qt_text t = ''(''"
    consider (n) ?not | (d) "\<not> ?not" ?dash | (p) "\<not> ?not" "\<not> ?dash" ?open | (r) "\<not> ?not" "\<not> ?dash" "\<not> ?open" by blast
    then show ?thesis
    proof cases
      case n
      then obtain k' where "parse_unary n R ts = Some (Inr (k', rest))" using 6(4) Cons by (auto simp: negated_Inr)
      then show ?thesis using 6(1) [OF Cons n] Cons by fastforce
    next
      case d
      then obtain k' where u: "parse_unary n R (plain (tl (qt_text t)) # ts) = Some (Inr (k', rest))"
        using 6(4) Cons by (auto simp: negated_Inr)
      have "weight rest < weight (plain (tl (qt_text t)) # ts)" by (rule 6(2) [OF Cons d u])
      also have "\<dots> < weight toks" using d(2) Cons by (cases "qt_text t") auto
      finally show ?thesis .
    next
      case p
      then obtain k' rest' where a: "parse_and n R [] ts = Some (Inr (k', rest'))"
          and "at_word '')'' rest'" "rest = tl rest'"
        using 6(4) Cons by (auto split: option.splits sum.splits if_splits)
      then show ?thesis using 6(3) [OF Cons p a] at_word_tl [of "'')''" rest'] Cons by simp
    next
      case r
      then show ?thesis using 6(4) Cons restriction_consumes [of R toks k rest] by (auto split: if_splits)
    qed
  qed (use 6(4) in simp)
qed simp_all

lemma parse_returns:
  "3 * weight toks + 3 \<le> n \<Longrightarrow> parse_and n R kids toks \<noteq> None"
  "3 * weight toks + 2 \<le> n \<Longrightarrow> parse_or n R kids toks \<noteq> None"
  "3 * weight toks + 1 \<le> n \<Longrightarrow> parse_unary n R toks \<noteq> None"
proof (induction n R kids toks and n R kids toks and n R toks rule: parse_and_parse_or_parse_unary.induct)
  case (2 n R kids toks)
  show ?case
  proof (cases "toks = [] \<or> at_word '')'' toks")
    case stop: False
    show ?thesis
    proof (cases "at_word ''AND'' toks")
      case True
      then have "parse_and n R kids (tl toks) \<noteq> None"
        using 2(1) [OF stop True] at_word_tl [OF True] 2(4) by simp
      then show ?thesis using True stop by simp
    next
      case False
      have "parse_or n R [] toks \<noteq> None" using 2(2) [OF stop False] 2(4) by simp
      moreover have "parse_and n R (kids @ [k]) rest \<noteq> None" if o: "parse_or n R [] toks = Some (Inr (k, rest))" for k rest
        using 2(3) [OF stop False o] parse_consumes(2) [OF o] 2(4) by simp
      ultimately show ?thesis using stop False by (auto split: sum.split)
    qed
  qed simp
next
  case (4 n R kids toks)
  have "parse_unary n R toks \<noteq> None" using 4(1,3) by simp
  moreover have "parse_or n R (kids @ [k]) (tl rest) \<noteq> None"
    if u: "parse_unary n R toks = Some (Inr (k, rest))" and w: "at_word ''OR'' rest" for k rest
    using 4(2) [OF u _ _ w] parse_consumes(3) [OF u] at_word_tl [OF w] 4(3) by simp
  ultimately show ?case by (auto split: sum.split)
next
  case (6 n R toks)
  show ?case
  proof (cases toks)
    case (Cons t ts)
    let ?not = "\<not> qt_quoted t \<and> qt_text t = ''NOT''"
    let ?dash = "\<not> qt_quoted t \<and> HasPrefix (qt_text t) ''-'' \<and> 1 < length (qt_text t)"
    let ?open = "\<not> qt_quoted t \<and> qt_text t = ''(''"
    have n: "parse_unary n R ts \<noteq> None" if ?not using 6(1) [OF Cons that] 6(4) Cons by simp
    have d: "parse_unary n R (plain (tl (qt_text t)) # ts) \<noteq> None" if "\<not> ?not" ?dash
      using 6(2) [OF Cons that] 6(4) Cons that(2) by (cases "qt_text t") auto
    have p: "parse_and n R [] ts \<noteq> None" if "\<not> ?not" "\<not> ?dash" ?open
      using 6(3) [OF Cons that] 6(4) Cons by simp
    show ?thesis unfolding Cons parse_unary.simps list.case
      using n d p by (auto split: option.splits sum.splits)
  qed simp
qed simp_all

section \<open>What a filter means\<close>

text \<open>
  Filters as they are documented: a conjunction of alternatives, each a list of tests, negations or
  groups. A test has a field, an operator and a value.
\<close>

datatype fatom = FNot fatom | FGroup "fatom list list" | FTest qtoken string qtoken

fun atom_toks :: "fatom \<Rightarrow> qtoken list" and any_toks :: "fatom list \<Rightarrow> qtoken list"
  and all_toks :: "fatom list list \<Rightarrow> qtoken list"
where
  "atom_toks (FNot a) = plain ''NOT'' # atom_toks a"
| "atom_toks (FGroup css) = plain ''('' # all_toks css @ [plain '')'']"
| "atom_toks (FTest f cmp v) = [f, plain cmp, v]"
| "any_toks [] = []"
| "any_toks (a # as) = atom_toks a @ (if as = [] then [] else plain ''OR'' # any_toks as)"
| "all_toks [] = []"
| "all_toks (cs # css) = any_toks cs @ (if css = [] then [] else plain ''AND'' # all_toks css)"

definition is_word :: "string \<Rightarrow> bool" where
  "is_word w \<longleftrightarrow> w \<noteq> [] \<and> list_all word_char w"

lemma is_word_simps [simp]: "\<not> is_word ''(''" "\<not> is_word '')''" "is_word ''NOT''" "is_word ''AND''" "is_word ''OR''"
  by (simp_all add: is_word_def word_char_def byte_space_def is_space_def)

lemma is_word_paren: "is_word w \<Longrightarrow> w \<noteq> ''('' \<and> w \<noteq> '')''"
  by auto

definition test_ok :: "reflect_lib \<Rightarrow> qtoken \<Rightarrow> string \<Rightarrow> qtoken \<Rightarrow> bool" where
  "test_ok R f cmp v \<longleftrightarrow> cmp \<in> set operators \<and>
     (qt_quoted f \<or> is_word (qt_text f) \<and> qt_text f \<noteq> ''NOT'' \<and> qt_text f \<noteq> ''AND'' \<and> \<not> HasPrefix (qt_text f) ''-'') \<and>
     (qt_quoted v \<or> is_word (qt_text v)) \<and>
     (case queueFieldPath R (qt_text f) of None \<Rightarrow> False | Some path \<Rightarrow> value_ok R (last path) cmp (qt_text v))"

fun atom_ok :: "reflect_lib \<Rightarrow> fatom \<Rightarrow> bool" and any_ok :: "reflect_lib \<Rightarrow> fatom list \<Rightarrow> bool"
  and all_ok :: "reflect_lib \<Rightarrow> fatom list list \<Rightarrow> bool"
where
  "atom_ok R (FNot a) = atom_ok R a"
| "atom_ok R (FGroup css) = (css \<noteq> [] \<and> all_ok R css)"
| "atom_ok R (FTest f cmp v) = test_ok R f cmp v"
| "any_ok R [] = True"
| "any_ok R (a # as) = (atom_ok R a \<and> any_ok R as)"
| "all_ok R [] = True"
| "all_ok R (cs # css) = (cs \<noteq> [] \<and> any_ok R cs \<and> all_ok R css)"

fun atom_node :: "reflect_lib \<Rightarrow> fatom \<Rightarrow> qnode" and any_nodes :: "reflect_lib \<Rightarrow> fatom list \<Rightarrow> qnode list"
  and all_nodes :: "reflect_lib \<Rightarrow> fatom list list \<Rightarrow> qnode list"
where
  "atom_node R (FNot a) = NNot (atom_node R a)"
| "atom_node R (FGroup css) = NAnd (all_nodes R css)"
| "atom_node R (FTest f cmp v) = NRestriction (the (queueFieldPath R (qt_text f))) cmp (qt_text v)"
| "any_nodes R [] = []"
| "any_nodes R (a # as) = atom_node R a # any_nodes R as"
| "all_nodes R [] = []"
| "all_nodes R (cs # css) = NOr (any_nodes R cs) # all_nodes R css"

lemma at_word_simps [simp]:
  "\<not> at_word w []" "at_word w (t # ts) \<longleftrightarrow> \<not> qt_quoted t \<and> qt_text t = w"
  by (simp_all add: at_word_def)

text \<open>No atom begins with a closing parenthesis or \<open>AND\<close>.\<close>

lemma atom_start:
  assumes "atom_ok R a"
  obtains t ts where "atom_toks a = t # ts" "\<not> at_word '')'' (t # ts)" "\<not> at_word ''AND'' (t # ts)"
  using assms by (cases a) (auto simp: test_ok_def dest: is_word_paren)

lemma any_start:
  assumes "any_ok R cs" "cs \<noteq> []"
  obtains t ts where "any_toks cs = t # ts" "\<not> at_word '')'' (t # ts)" "\<not> at_word ''AND'' (t # ts)"
  using assms by (cases cs) (auto elim: atom_start)

definition closes :: "qtoken list \<Rightarrow> bool" where
  "closes rest \<longleftrightarrow> rest = [] \<or> at_word '')'' rest"

lemma parse_test:
  assumes "test_ok R f cmp v"
  shows "parse_unary (Suc m) R (f # plain cmp # v # rest) =
    Some (Inr (NRestriction (the (queueFieldPath R (qt_text f))) cmp (qt_text v), rest))"
proof -
  have "restriction R (f # plain cmp # v # rest) =
      Inr (NRestriction (the (queueFieldPath R (qt_text f))) cmp (qt_text v), rest)"
    using assms by (auto simp: test_ok_def restriction_def dest: is_word_paren split: option.splits)
  moreover have "\<not> (\<not> qt_quoted f \<and> qt_text f = ''NOT'')" "\<not> (\<not> qt_quoted f \<and> HasPrefix (qt_text f) ''-'' \<and> 1 < length (qt_text f))"
    "\<not> (\<not> qt_quoted f \<and> qt_text f = ''('')"
    using assms by (auto simp: test_ok_def dest: is_word_paren)
  ultimately show ?thesis by (simp only: parse_unary.simps list.case if_False)
qed

lemma parse_and_step:
  "toks \<noteq> [] \<Longrightarrow> \<not> at_word '')'' toks \<Longrightarrow> \<not> at_word ''AND'' toks \<Longrightarrow> parse_or n R [] toks = Some (Inr (k, rest)) \<Longrightarrow>
   parse_and (Suc n) R kids toks = parse_and n R (kids @ [k]) rest"
  by simp

lemma parse_toks:
  "atom_ok R a \<Longrightarrow> 3 * weight (atom_toks a @ rest) + 1 \<le> n \<Longrightarrow>
     parse_unary n R (atom_toks a @ rest) = Some (Inr (atom_node R a, rest))"
  "any_ok R cs \<Longrightarrow> cs \<noteq> [] \<Longrightarrow> \<not> at_word ''OR'' rest \<Longrightarrow> 3 * weight (any_toks cs @ rest) + 2 \<le> n \<Longrightarrow>
     parse_or n R kids (any_toks cs @ rest) = Some (Inr (NOr (kids @ any_nodes R cs), rest))"
  "all_ok R css \<Longrightarrow> css \<noteq> [] \<Longrightarrow> closes rest \<Longrightarrow> 3 * weight (all_toks css @ rest) + 3 \<le> n \<Longrightarrow>
     parse_and n R kids (all_toks css @ rest) = Some (Inr (NAnd (kids @ all_nodes R css), rest))"
proof (induction a and cs and css arbitrary: rest n and rest n kids and rest n kids
    rule: atom_toks_any_toks_all_toks.induct)
  case (1 a)
  then obtain m where n: "n = Suc m" by (cases n) auto
  have "parse_unary m R (atom_toks a @ rest) = Some (Inr (atom_node R a, rest))"
    by (rule 1(1)) (use 1(2,3) in \<open>simp_all add: n\<close>)
  then show ?case by (simp add: n)
next
  case (2 css)
  then obtain m where n: "n = Suc m" by (cases n) auto
  have "parse_and m R [] (all_toks css @ plain '')'' # rest) = Some (Inr (NAnd ([] @ all_nodes R css), plain '')'' # rest))"
    by (rule 2(1)) (use 2(2,3) in \<open>simp_all add: n closes_def\<close>)
  then show ?case by (simp add: n)
next
  case (3 f cmp v)
  then obtain m where n: "n = Suc m" by (cases n) auto
  from 3 have t: "test_ok R f cmp v" by simp
  from parse_test [OF t, of m rest] show ?case by (simp only: n atom_toks.simps atom_node.simps append.simps)
next
  case (5 a as)
  then obtain m where n: "n = Suc m" by (cases n) auto
  let ?more = "(if as = [] then [] else plain ''OR'' # any_toks as) @ rest"
  have u: "parse_unary m R (atom_toks a @ ?more) = Some (Inr (atom_node R a, ?more))"
    by (rule 5(1)) (use 5(3-6) in \<open>simp_all add: n\<close>)
  have "parse_or m R (kids @ [atom_node R a]) (any_toks as @ rest) =
      Some (Inr (NOr ((kids @ [atom_node R a]) @ any_nodes R as), rest))" if "as \<noteq> []"
    by (rule 5(2)) (use 5(3-6) that in \<open>simp_all add: n\<close>)
  then show ?case using u 5(5) by (cases "as = []") (simp_all add: n)
next
  case (7 cs css)
  then obtain m where n: "n = Suc m" by (cases n) auto
  let ?more = "(if css = [] then [] else plain ''AND'' # all_toks css) @ rest"
  have cs: "any_ok R cs" "cs \<noteq> []" using 7(3) by simp_all
  from any_start [OF cs] obtain t ts where t: "any_toks cs = t # ts" "\<not> at_word '')'' (t # ts)" "\<not> at_word ''AND'' (t # ts)" .
  have "\<not> at_word ''OR'' ?more" using 7(5) by (cases rest) (auto simp: closes_def)
  then have o: "parse_or m R [] (any_toks cs @ ?more) = Some (Inr (NOr ([] @ any_nodes R cs), ?more))"
    by - (rule 7(1), use 7(6) cs in \<open>simp_all add: n\<close>)
  have "parse_and m R (kids @ [NOr (any_nodes R cs)]) ?more = Some (Inr (NAnd ((kids @ [NOr (any_nodes R cs)]) @ all_nodes R css), rest))"
  proof (cases "css = []")
    case True
    then show ?thesis using 7(5,6) t(1) by (cases m) (auto simp: n closes_def)
  next
    case False
    obtain m' where m: "m = Suc m'" using 7(6) t(1) by (cases m) (auto simp: n)
    have "parse_and m' R (kids @ [NOr (any_nodes R cs)]) (all_toks css @ rest) =
        Some (Inr (NAnd ((kids @ [NOr (any_nodes R cs)]) @ all_nodes R css), rest))"
      by (rule 7(2)) (use 7(3,5,6) False in \<open>simp_all add: n m\<close>)
    then show ?thesis using False by (simp add: m)
  qed
  moreover have "parse_and n R kids (any_toks cs @ ?more) = parse_and m R (kids @ [NOr (any_nodes R cs)]) ?more"
    unfolding n by (rule parse_and_step) (use t o in simp_all)
  ultimately show ?case by simp
qed simp_all

text \<open>The truth of a filter on a queue, and that no test of it panics there.\<close>

definition test_value :: "reflect_lib \<Rightarrow> queue_pb \<Rightarrow> qtoken \<Rightarrow> string \<Rightarrow> qtoken \<Rightarrow> bool option" where
  "test_value R q f cmp v = eval_restriction R q (the (queueFieldPath R (qt_text f))) cmp (qt_text v)"

fun atom_true :: "reflect_lib \<Rightarrow> queue_pb \<Rightarrow> fatom \<Rightarrow> bool" where
  "atom_true R q (FNot a) = (\<not> atom_true R q a)"
| "atom_true R q (FGroup css) = (\<forall>cs\<in>set css. \<exists>a\<in>set cs. atom_true R q a)"
| "atom_true R q (FTest f cmp v) = (test_value R q f cmp v = Some True)"

fun atom_defined :: "reflect_lib \<Rightarrow> queue_pb \<Rightarrow> fatom \<Rightarrow> bool" where
  "atom_defined R q (FNot a) = atom_defined R q a"
| "atom_defined R q (FGroup css) = (\<forall>cs\<in>set css. \<forall>a\<in>set cs. atom_defined R q a)"
| "atom_defined R q (FTest f cmp v) = (test_value R q f cmp v \<noteq> None)"

lemma eval_nodes:
  "atom_defined R q a \<Longrightarrow> qfilter_eval R q (atom_node R a) = Some (atom_true R q a)"
  "\<forall>a\<in>set cs. atom_defined R q a \<Longrightarrow> eval_any R q (any_nodes R cs) = Some (\<exists>a\<in>set cs. atom_true R q a)"
  "\<forall>cs\<in>set css. \<forall>a\<in>set cs. atom_defined R q a \<Longrightarrow>
     eval_all R q (all_nodes R css) = Some (\<forall>cs\<in>set css. \<exists>a\<in>set cs. atom_true R q a)"
proof (induction a and cs and css rule: atom_toks_any_toks_all_toks.induct)
  case (3 f cmp v)
  then show ?case by (auto simp: test_value_def)
next
  case (5 a as)
  then show ?case by (cases "as = []"; cases "atom_true R q a") simp_all
next
  case (7 cs css)
  then show ?case by (cases "css = []"; cases "\<exists>a\<in>set cs. atom_true R q a") simp_all
qed simp_all

section \<open>Writing a filter out\<close>

definition escape :: "char \<Rightarrow> string" where
  "escape c = (if c = CHR 0x22 \<or> c = CHR 0x5C then [CHR 0x5C, c] else [c])"

definition show_tok :: "qtoken \<Rightarrow> string" where
  "show_tok t = (if qt_quoted t then CHR 0x22 # concat (map escape (qt_text t)) @ [CHR 0x22] else qt_text t)"

definition show_toks :: "qtoken list \<Rightarrow> string" where
  "show_toks toks = concat (map (\<lambda>t. show_tok t @ '' '') toks)"

definition tok_ok :: "qtoken \<Rightarrow> bool" where
  "tok_ok t \<longleftrightarrow> qt_quoted t \<or> is_word (qt_text t) \<or> qt_text t \<in> {''('', '')''} \<or> qt_text t \<in> set operators"

lemma read_string_escape: "read_string (concat (map escape w) @ CHR 0x22 # s) = Some (w, s)"
proof (induction w)
  case (Cons c w)
  define t where "t = concat (map escape w) @ CHR 0x22 # s"
  have "t \<noteq> []" by (simp add: t_def)
  then obtain d r where t: "t = d # r" by (cases t) blast+
  have ih: "read_string (d # r) = Some (w, s)" using Cons t t_def by simp
  have "read_string (escape c @ d # r) = Some (c # w, s)"
  proof (cases "c = CHR 0x22 \<or> c = CHR 0x5C")
    case True
    then show ?thesis using ih by (auto simp: escape_def simp del: read_string.simps simp add: read_string.simps(2) [of "CHR 0x5C"])
  next
    case False
    then show ?thesis using ih by (simp add: escape_def del: read_string.simps) (simp add: read_string.simps(2) [of c] del: read_string.simps)
  qed
  then show ?case using t by (simp add: t_def)
qed simp

lemma takeWhile_stop: "list_all P cs \<Longrightarrow> \<not> P x \<Longrightarrow> takeWhile P (cs @ x # s) = cs \<and> dropWhile P (cs @ x # s) = x # s"
  by (induction cs) auto

lemma lex_space: "lexQueueFilter (CHR '' '' # s) = lexQueueFilter s"
  by (simp add: byte_space_def is_space_def)

lemma lex_word:
  assumes "is_word w"
  shows "lexQueueFilter (w @ CHR '' '' # s) = map_sum id ((#) (plain w)) (lexQueueFilter s)"
proof -
  obtain c cs where w: "w = c # cs" "word_char c" "list_all word_char cs" using assms by (cases w) (auto simp: is_word_def)
  have sp: "\<not> word_char (CHR '' '')" by (simp add: word_char_def byte_space_def is_space_def)
  have "\<not> byte_space c" "c \<noteq> CHR ''(''" "c \<noteq> CHR '')''" "c \<noteq> CHR 0x22" "\<not> operator_start c"
    using w(2) by (auto simp: word_char_def operator_start_def)
  then show ?thesis using takeWhile_stop [OF w(3) sp, of s]
    by (simp add: w(1) lexQueueFilter.simps(2) [of c] lex_space del: lexQueueFilter.simps)
qed

lemma lex_operator:
  assumes "cmp \<in> set operators"
  shows "lexQueueFilter (cmp @ CHR '' '' # s) = map_sum id ((#) (plain cmp)) (lexQueueFilter s)"
proof -
  have sp: "\<not> operator_more (CHR '' '')" by (simp add: operator_more_def)
  define c cs where "c = hd cmp" and "cs = tl cmp"
  have w: "cmp = c # cs" "list_all operator_more cs"
      "\<not> byte_space c \<and> c \<noteq> CHR ''('' \<and> c \<noteq> CHR '')'' \<and> c \<noteq> CHR 0x22 \<and> operator_start c"
    using assms unfolding c_def cs_def
    by (auto simp: operators_def operator_more_def operator_start_def byte_space_def is_space_def)
  then show ?thesis using takeWhile_stop [OF w(2) sp, of s]
    by (simp add: w(1) lexQueueFilter.simps(2) [of c] lex_space del: lexQueueFilter.simps)
qed

lemma lex_tok:
  assumes "tok_ok t"
  shows "lexQueueFilter (show_tok t @ CHR '' '' # s) = map_sum id ((#) t) (lexQueueFilter s)"
proof (cases "qt_quoted t")
  case True
  have "\<not> byte_space (CHR 0x22)" by (simp add: byte_space_def is_space_def)
  then show ?thesis using True read_string_escape [of "qt_text t" "CHR '' '' # s"]
    by (cases t) (simp add: show_tok_def lexQueueFilter.simps(2) [of "CHR 0x22"] lex_space del: lexQueueFilter.simps)
next
  case False
  then have t: "t = plain (qt_text t)" "show_tok t = qt_text t" by (cases t, simp_all add: show_tok_def)
  have paren: "lexQueueFilter (p @ CHR '' '' # s) = map_sum id ((#) (plain p)) (lexQueueFilter s)" if "p \<in> {''('', '')''}" for p
    using that by (auto simp: byte_space_def is_space_def)
  from assms False consider "is_word (qt_text t)" | "qt_text t \<in> {''('', '')''}" | "qt_text t \<in> set operators"
    by (auto simp: tok_ok_def)
  then show ?thesis
  proof cases
    case 1
    then show ?thesis using lex_word [OF 1, of s] t by simp
  next
    case 2
    then show ?thesis using paren [OF 2] t by simp
  next
    case 3
    then show ?thesis using lex_operator [OF 3, of s] t by simp
  qed
qed

lemma lex_show: "list_all tok_ok toks \<Longrightarrow> lexQueueFilter (show_toks toks) = Inr toks"
proof (induction toks)
  case (Cons t toks)
  then show ?case using lex_tok [of t "show_toks toks"] by (simp add: show_toks_def)
qed (simp add: show_toks_def)

text \<open>The tokens of a filter lex, and one of them is an operator, so that its text is not blank.\<close>

lemma toks_ok:
  "atom_ok R a \<Longrightarrow> list_all tok_ok (atom_toks a) \<and> (\<exists>cmp\<in>set operators. plain cmp \<in> set (atom_toks a))"
  "any_ok R cs \<Longrightarrow> list_all tok_ok (any_toks cs) \<and> (cs \<noteq> [] \<longrightarrow> (\<exists>cmp\<in>set operators. plain cmp \<in> set (any_toks cs)))"
  "all_ok R css \<Longrightarrow> list_all tok_ok (all_toks css) \<and> (css \<noteq> [] \<longrightarrow> (\<exists>cmp\<in>set operators. plain cmp \<in> set (all_toks css)))"
proof (induction a and cs and css rule: atom_toks_any_toks_all_toks.induct)
  case (3 f cmp v)
  then show ?case by (auto simp: test_ok_def tok_ok_def)
next
  case (5 a as)
  then show ?case by (cases "as = []") (auto simp: tok_ok_def)
next
  case (7 cs css)
  then show ?case by (cases "css = []") (auto simp: tok_ok_def)
qed (auto simp: tok_ok_def)

lemma blank_bytes: "blank s \<Longrightarrow> \<forall>c\<in>set s. is_space c \<or> CHR 0x80 \<le> c"
proof (induction s rule: blank.induct)
  case (2 a s)
  have big: "space2 x y \<Longrightarrow> CHR 0x80 \<le> x \<and> CHR 0x80 \<le> y" "space3 x y z \<Longrightarrow> CHR 0x80 \<le> x \<and> CHR 0x80 \<le> y \<and> CHR 0x80 \<le> z" for x y z
    by (auto simp: space2_def space3_def)
  show ?case
  proof (cases "is_space a")
    case True
    then show ?thesis using 2(1,4) by simp
  next
    case False
    then obtain b r where s: "s = b # r" using 2(4) by (cases s) simp_all
    show ?thesis
    proof (cases "space2 a b")
      case True
      then show ?thesis using 2(2) [OF False s True] 2(4) False s big(1) [OF True] by simp
    next
      case no: False
      then obtain c r' where r: "r = c # r'" "space3 a b c" "blank r'" using 2(4) False s by (cases r) simp_all
      then show ?thesis using 2(3) [OF False s no r(1)] s big(2) [OF r(2)] by simp
    qed
  qed
qed simp

lemma show_not_blank:
  assumes "plain cmp \<in> set toks" "cmp \<in> set operators"
  shows "\<not> blank (show_toks toks)"
proof
  assume b: "blank (show_toks toks)"
  have "set cmp \<subseteq> set (show_toks toks)" using assms(1) by (force simp: show_toks_def show_tok_def)
  moreover have "hd cmp \<in> set cmp" "\<not> is_space (hd cmp)" "\<not> CHR 0x80 \<le> hd cmp"
    using assms(2) by (auto simp: operators_def is_space_def)
  ultimately show False using blank_bytes [OF b] by blast
qed

section \<open>Filters mean what they say\<close>

lemma filter_compiles:
  assumes "all_ok R css" "css \<noteq> []"
  shows "queueFilter R (show_toks (all_toks css)) = Inr (\<lambda>q. eval_all R q (all_nodes R css))"
proof -
  obtain cmp where "plain cmp \<in> set (all_toks css)" "cmp \<in> set operators" using toks_ok(3) [OF assms(1)] assms(2) by blast
  then have "\<not> blank (show_toks (all_toks css))" by (rule show_not_blank)
  moreover have "lexQueueFilter (show_toks (all_toks css)) = Inr (all_toks css)"
    using toks_ok(3) [OF assms(1)] by (simp add: lex_show)
  moreover have "parse_and (parse_fuel (all_toks css)) R [] (all_toks css) = Some (Inr (NAnd (all_nodes R css), []))"
    using parse_toks(3) [OF assms, of "[]" "parse_fuel (all_toks css)" "[]"] by (simp add: closes_def parse_fuel_def)
  ultimately show ?thesis by (simp add: queueFilter_def)
qed

text \<open>C5: A \<open>ListQueues\<close> filter is read as it is written: any conjunction of alternatives of tests, negations and
  groups, written out with \<open>AND\<close>, \<open>OR\<close>, \<open>NOT\<close> and parentheses, its values quoted or not, is accepted,
  and on every queue where no test panics it holds exactly if every conjunct has an alternative that
  does. \<open>OR\<close> binds tighter than \<open>AND\<close>.\<close>

theorem filter_means_what_it_says:
  assumes "all_ok R css" "css \<noteq> []"
  shows "\<exists>keep. queueFilter R (show_toks (all_toks css)) = Inr keep \<and>
    (\<forall>q. (\<forall>cs\<in>set css. \<forall>a\<in>set cs. atom_defined R q a) \<longrightarrow>
       keep q = Some (\<forall>cs\<in>set css. \<exists>a\<in>set cs. atom_true R q a))"
  using filter_compiles [OF assms] eval_nodes(3) [of css R] by simp

text \<open>A library that knows the state of a queue.\<close>

definition demo_state :: fdesc where
  "demo_state = \<lparr>fd_Name = ''state'', fd_Kind = EnumKind, fd_IsList = False, fd_IsMap = False, fd_Message = [],
     fd_Enum = [(''STATE_UNSPECIFIED'', 0), (''RUNNING'', 1), (''PAUSED'', 2), (''DISABLED'', 3)]\<rparr>"

fun state_number :: "state_pb \<Rightarrow> int" where
  "state_number RUNNING = 1"
| "state_number PAUSED = 2"
| "state_number DISABLED = 3"
| "state_number (OtherState n) = n"

definition demo_reflect :: reflect_lib where
  "demo_reflect = \<lparr>rf_Queue = ''google.cloud.tasks.v2.Queue'',
     rf_ByName = (\<lambda>md f. if f = ''state'' then Some demo_state else None), rf_ByJSONName = (\<lambda>_ _. None),
     rf_Get = (\<lambda>q path. VEnum (state_number (qp_State q))), rf_Has = (\<lambda>_ _. True), rf_UnixNano = (\<lambda>_. None), rf_ToLower = id\<rparr>"

definition demo_pb :: "state_pb \<Rightarrow> queue_pb" where
  "demo_pb st = \<lparr>qp_Name = ''q'', qp_State = st, qp_RateLimits = None, qp_RetryConfig = None, qp_PurgeTime = None,
     qp_Logging = None, qp_HttpTarget = None, qp_AppEngineRoutingOverride = None\<rparr>"

definition demo_test :: "string \<Rightarrow> fatom" where
  "demo_test v = FTest (plain ''state'') ''='' (plain v)"

lemma demo_path: "queueFieldPath demo_reflect ''state'' = Some [demo_state]"
  by (simp add: queueFieldPath_def demo_reflect_def demo_state_def)

lemma demo_test_ok: "v \<in> {''PAUSED'', ''RUNNING'', ''DISABLED''} \<Longrightarrow> atom_ok demo_reflect (demo_test v)"
  by (auto simp: demo_test_def test_ok_def demo_path operators_def value_ok_def demo_state_def is_word_def word_char_def
      byte_space_def is_space_def)

lemma demo_test_value:
  "v \<noteq> ''*'' \<Longrightarrow> test_value demo_reflect (demo_pb st) (plain ''state'') ''='' (plain v) =
     map_option (\<lambda>(nm, _). nm = v) (List.find (\<lambda>(_, k). k = state_number st) (fd_Enum demo_state))"
proof -
  have "rf_Get demo_reflect (demo_pb st) [demo_state] = VEnum (state_number st)" "fd_Kind demo_state = EnumKind"
    by (simp_all add: demo_reflect_def demo_pb_def demo_state_def)
  then show "v \<noteq> ''*'' \<Longrightarrow> ?thesis" by (simp add: test_value_def demo_path eval_restriction_def filter_matches_def)
qed

theorem filter_means_what_it_says_witness:
  "\<exists>keep. queueFilter demo_reflect (show_toks (all_toks [[demo_test ''PAUSED'', FNot (demo_test ''RUNNING'')], [demo_test ''DISABLED'']])) = Inr keep \<and>
     keep (demo_pb DISABLED) = Some True \<and> keep (demo_pb PAUSED) = Some False"
proof -
  let ?css = "[[demo_test ''PAUSED'', FNot (demo_test ''RUNNING'')], [demo_test ''DISABLED'']]"
  have "all_ok demo_reflect ?css" using demo_test_ok by simp
  from filter_means_what_it_says [OF this] obtain keep where
    k: "queueFilter demo_reflect (show_toks (all_toks ?css)) = Inr keep"
      "\<forall>q. (\<forall>cs\<in>set ?css. \<forall>a\<in>set cs. atom_defined demo_reflect q a) \<longrightarrow>
         keep q = Some (\<forall>cs\<in>set ?css. \<exists>a\<in>set cs. atom_true demo_reflect q a)" by blast
  have "keep (demo_pb DISABLED) = Some True" "keep (demo_pb PAUSED) = Some False"
    using spec [OF k(2), of "demo_pb DISABLED"] spec [OF k(2), of "demo_pb PAUSED"]
    by (simp_all add: demo_test_def demo_test_value demo_state_def)
  with k(1) show ?thesis by blast
qed

text \<open>C39: A filter on an enum field is accepted and then panics on a queue whose field holds a number the enum
  does not name, which an API client may store: the name of a value that was not found is asked for.\<close>

theorem unnamed_enum_number_panics:
  assumes "test_ok R f cmp v" "qt_text v \<noteq> ''*''" "queueFieldPath R (qt_text f) = Some path" "fd_Kind (last path) = EnumKind"
    and "rf_Get R q path = VEnum n" "n \<notin> snd ` set (fd_Enum (last path))"
  shows "\<exists>keep. queueFilter R (show_toks (all_toks [[FTest f cmp v]])) = Inr keep \<and> keep q = None"
proof -
  have "List.find (\<lambda>(_, k). k = n) (fd_Enum (last path)) = None"
    using assms(6) by (force simp: find_None_iff)
  then have "eval_restriction R q path cmp (qt_text v) = None"
    using assms(2,4,5) by (simp add: eval_restriction_def filter_matches_def)
  then show ?thesis
    using filter_compiles [of R "[[FTest f cmp v]]"] assms(1,3) by simp
qed

theorem unnamed_enum_number_panics_witness:
  "\<exists>keep. queueFilter demo_reflect (show_toks (all_toks [[demo_test ''PAUSED'']])) = Inr keep \<and> keep (demo_pb (OtherState 99)) = None"
  using unnamed_enum_number_panics [of demo_reflect "plain ''state''" "''=''" "plain ''PAUSED''" "[demo_state]" "demo_pb (OtherState 99)" 99]
    demo_test_ok [of "''PAUSED''"] demo_path
  by (simp add: demo_test_def demo_reflect_def demo_pb_def demo_state_def)

end
