(* ===== verification/Tasks_Target.thy ===== *)
theory Tasks_Target
  imports Tasks_Types
begin

text \<open>
  Where a task's attempts go: the queue's \<open>http_target\<close> (\<open>httptarget1282.go\<close>) and the App Engine
  routing (\<open>appengine1447.go\<close>), with the checks and conversions between stored and API forms.
\<close>

section \<open>Codes\<close>

text \<open>The numbers of \<open>google.golang.org/grpc/codes\<close>, as \<open>int32(code)\<close> gives them.\<close>

fun code_number :: "code \<Rightarrow> int" where
  "code_number OK = 0"
| "code_number Canceled = 1"
| "code_number Unknown = 2"
| "code_number InvalidArgument = 3"
| "code_number DeadlineExceeded = 4"
| "code_number NotFound = 5"
| "code_number AlreadyExists = 6"
| "code_number PermissionDenied = 7"
| "code_number ResourceExhausted = 8"
| "code_number FailedPrecondition = 9"
| "code_number Aborted = 10"
| "code_number OutOfRange = 11"
| "code_number Unimplemented = 12"
| "code_number Internal = 13"
| "code_number Unavailable = 14"
| "code_number DataLoss = 15"
| "code_number Unauthenticated = 16"
| "code_number (OtherCode n) = to_int32 (int n)"

section \<open>The http\_target of a queue\<close>

definition checkUriOverride :: "uri_override_pb \<Rightarrow> code + unit" where
  "checkUriOverride ov =
     (if uo_Host ov = Some [] then Inl InvalidArgument
      else let port = (case uo_Port ov of None \<Rightarrow> 0 | Some n \<Rightarrow> n) in
        if port < 0 \<or> 65535 < port then Inl InvalidArgument else Inr ())"

definition checkHTTPTarget :: "queue_pb \<Rightarrow> code + unit" where
  "checkHTTPTarget p =
     (case qp_HttpTarget p of
        None \<Rightarrow> Inr ()
      | Some ht \<Rightarrow>
          (case (case ht_UriOverride ht of None \<Rightarrow> Inr () | Some ov \<Rightarrow> checkUriOverride ov) of
             Inl e \<Rightarrow> Inl e
           | Inr _ \<Rightarrow>
               if list_ex (\<lambda>(k, v). blank k) (ht_HeaderOverrides ht) then Inl InvalidArgument
               else (case ht_Authorization ht of
                       OidcAuth a \<Rightarrow> if oi_ServiceAccountEmail a = [] then Inl InvalidArgument else Inr ()
                     | OauthAuth a \<Rightarrow> if oa_ServiceAccountEmail a = [] then Inl InvalidArgument else Inr ()
                     | NoAuth \<Rightarrow> Inr ())))"

definition httpTargetJSON :: "pb_lib \<Rightarrow> http_target_pb option \<Rightarrow> string" where
  "httpTargetJSON L ht =
     (case ht of None \<Rightarrow> [] | Some h \<Rightarrow> if target_Size L h = 0 then [] else target_Marshal L h)"

definition queueHTTPTarget :: "pb_lib \<Rightarrow> queue \<Rightarrow> http_target_pb option" where
  "queueHTTPTarget L q = (if q_HTTPTarget q = [] then None else target_Unmarshal L (q_HTTPTarget q))"

text \<open>The getters of a nil message give zero values, so no target and no override name no host.\<close>

definition targetsHost :: "pb_lib \<Rightarrow> queue \<Rightarrow> bool" where
  "targetsHost L q =
     (case queueHTTPTarget L q of
        None \<Rightarrow> False
      | Some ht \<Rightarrow> (case ht_UriOverride ht of
          None \<Rightarrow> False
        | Some ov \<Rightarrow> (case uo_Host ov of None \<Rightarrow> False | Some h \<Rightarrow> h \<noteq> [])))"

text \<open>
  \<open>u.Hostname()\<close> and \<open>u.Port()\<close>: a port is split off only if it is empty or digits, and brackets are
  removed from the host.
\<close>

definition validOptionalPort :: "string \<Rightarrow> bool" where
  "validOptionalPort port \<longleftrightarrow> port = [] \<or> hd port = CHR '':'' \<and> list_all is_digit (tl port)"

definition splitHostPort :: "string \<Rightarrow> string \<times> string" where
  "splitHostPort hostPort =
     (let (host, port) =
        (if CHR '':'' \<in> set hostPort \<and> validOptionalPort (CHR '':'' # after_last (CHR '':'') hostPort)
         then (take (length hostPort - length (after_last (CHR '':'') hostPort) - 1) hostPort,
               after_last (CHR '':'') hostPort)
         else (hostPort, []))
      in if HasPrefix host ''['' \<and> HasSuffix host '']'' then (butlast (tl host), port) else (host, port))"

definition override_host :: "uri_override_pb \<Rightarrow> string \<Rightarrow> string" where
  "override_host ov hostPort =
     (let (host, port) = splitHostPort hostPort;
          host = (case uo_Host ov of Some h \<Rightarrow> h | None \<Rightarrow> host);
          port = (case uo_Port ov of Some n \<Rightarrow> if n > 0 then int_dec n else [] | None \<Rightarrow> port)
      in if port \<noteq> [] then host @ '':'' @ port else host)"

definition overrideURI :: "pb_lib \<Rightarrow> string \<Rightarrow> uri_override_pb \<Rightarrow> string" where
  "overrideURI L raw ov =
     (let https = \<lparr>u_Scheme = ''https'', u_Host = [], u_Path = [], u_RawPath = [], u_RawQuery = [], u_Other = []\<rparr>;
          u = (case url_Parse L raw of None \<Rightarrow> https | Some u \<Rightarrow> if raw = [] then https else u);
          u = (case uo_Scheme ov of
                 Some n \<Rightarrow> if n \<noteq> 0 then u\<lparr>u_Scheme := ToLower (scheme_String L n)\<rparr> else u
               | None \<Rightarrow> u);
          u = u\<lparr>u_Host := override_host ov (u_Host u)\<rparr>;
          u = (case uo_PathOverride ov of Some p \<Rightarrow> u\<lparr>u_Path := p, u_RawPath := []\<rparr> | None \<Rightarrow> u);
          u = (case uo_QueryOverride ov of Some q \<Rightarrow> u\<lparr>u_RawQuery := q\<rparr> | None \<Rightarrow> u)
      in url_String L u)"

text \<open>The headers of a task under the overrides: an override replaces every spelling of its key.\<close>

definition override_headers :: "string gomap \<Rightarrow> (string \<times> string) list \<Rightarrow> string gomap" where
  "override_headers headers hs =
     foldl (\<lambda>m (k, v). AList.update k v (filter (\<lambda>(k', _). \<not> EqualFold k' k) m)) headers hs"

definition body_ignored :: "http_method \<Rightarrow> bool" where
  "body_ignored m \<longleftrightarrow> m = GET \<or> m = HEAD \<or> m = DELETE \<or> m = OPTIONS"

definition withQueueTarget :: "pb_lib \<Rightarrow> http_request \<Rightarrow> queue \<Rightarrow> http_request" where
  "withQueueTarget L hr q =
     (case queueHTTPTarget L q of
        None \<Rightarrow> hr
      | Some ht \<Rightarrow>
          let hr = (case ht_UriOverride ht of
                Some ov \<Rightarrow> if \<not> uo_IfNotExists ov \<or> hr_URL hr = [] then hr\<lparr>hr_URL := overrideURI L (hr_URL hr) ov\<rparr> else hr
              | None \<Rightarrow> hr);
              m = ht_HttpMethod ht;
              hr = (if m \<noteq> HTTP_METHOD_UNSPECIFIED
                    then hr\<lparr>hr_Method := method_String L m, hr_Body := if body_ignored m then [] else hr_Body hr\<rparr>
                    else hr);
              hr = (if ht_HeaderOverrides ht \<noteq> []
                    then hr\<lparr>hr_Headers := override_headers (hr_Headers hr) (ht_HeaderOverrides ht)\<rparr> else hr)
          in case ht_Authorization ht of
               OidcAuth a \<Rightarrow> hr\<lparr>hr_OIDCToken := Some a, hr_OAuthToken := None\<rparr>
             | OauthAuth a \<Rightarrow> hr\<lparr>hr_OIDCToken := None, hr_OAuthToken := Some a\<rparr>
             | NoAuth \<Rightarrow> hr)"

section \<open>App Engine routing\<close>

definition AppEngineAttemptStatus :: int where
  "AppEngineAttemptStatus = 404"

definition AppEngineUserAgent :: string where
  "AppEngineUserAgent = ''AppEngine-Google; (+http://code.google.com/appengine)''"

definition AppEngineHost :: "string \<Rightarrow> ae_routing \<Rightarrow> string" where
  "AppEngineHost project r =
     foldl (\<lambda>host part. if part \<noteq> [] then part @ ''.'' @ host else host) (project @ ''.appspot.com'')
       [aer_Service r, aer_Version r, aer_Instance r]"

definition no_routing :: ae_routing where
  "no_routing = \<lparr>aer_Service = [], aer_Version = [], aer_Instance = []\<rparr>"

definition effectiveRouting :: "ae_request \<Rightarrow> ae_routing option \<Rightarrow> ae_routing" where
  "effectiveRouting a override =
     (case override of
        Some r \<Rightarrow> r
      | None \<Rightarrow> (case ae_Routing a of Some r \<Rightarrow> r | None \<Rightarrow> no_routing))"

definition projectOf :: "string \<Rightarrow> string" where
  "projectOf nm =
     (let p = split_on (CHR ''/'') nm in
      if length p < 2 \<or> p ! 0 \<noteq> ''projects'' then [] else p ! 1)"

definition routingFromProto :: "routing_pb option \<Rightarrow> ae_routing option" where
  "routingFromProto p =
     (case p of
        None \<Rightarrow> None
      | Some r \<Rightarrow>
          if rt_Service r = [] \<and> rt_Version r = [] \<and> rt_Instance r = [] then None
          else Some \<lparr>aer_Service = rt_Service r, aer_Version = rt_Version r, aer_Instance = rt_Instance r\<rparr>)"

definition routingToProto :: "ae_routing option \<Rightarrow> string \<Rightarrow> routing_pb option" where
  "routingToProto r project =
     map_option (\<lambda>x. \<lparr>rt_Service = aer_Service x, rt_Version = aer_Version x, rt_Instance = aer_Instance x,
       rt_Host = AppEngineHost project x\<rparr>) r"

definition appEngineFromProto :: "pb_lib \<Rightarrow> ae_request_pb \<Rightarrow> code + ae_request" where
  "appEngineFromProto L p =
     (let uri = (if ep_RelativeUri p = [] then ''/'' else ep_RelativeUri p);
          meth = (if ep_HttpMethod p = HTTP_METHOD_UNSPECIFIED then POST else ep_HttpMethod p)
      in if \<not> HasPrefix uri ''/'' then Inl InvalidArgument
         else if ep_Body p \<noteq> [] \<and> meth \<noteq> POST \<and> meth \<noteq> PUT then Inl InvalidArgument
         else Inr \<lparr>ae_Method = method_String L meth, ae_RelativeURI = uri, ae_Headers = ep_Headers p,
                   ae_Body = ep_Body p, ae_Routing = routingFromProto (ep_Routing p)\<rparr>)"

definition appEngineToProto :: "pb_lib \<Rightarrow> ae_request \<Rightarrow> string \<Rightarrow> ae_routing option \<Rightarrow> ae_request_pb" where
  "appEngineToProto L a taskName override =
     (let meth = (case HttpMethod_value L (ae_Method a) of Some m \<Rightarrow> m | None \<Rightarrow> POST);
          host = AppEngineHost (projectOf taskName) (effectiveRouting a override);
          routing = (case ae_Routing a of
            None \<Rightarrow> \<lparr>rt_Service = [], rt_Version = [], rt_Instance = [], rt_Host = host\<rparr>
          | Some r \<Rightarrow> \<lparr>rt_Service = aer_Service r, rt_Version = aer_Version r,
                       rt_Instance = aer_Instance r, rt_Host = host\<rparr>)
      in \<lparr>ep_HttpMethod = meth, ep_RelativeUri = ae_RelativeURI a, ep_Headers = ae_Headers a,
          ep_Body = ae_Body a, ep_Routing = Some routing\<rparr>)"

definition attemptsToProto :: "task \<Rightarrow> task_pb \<Rightarrow> task_pb" where
  "attemptsToProto t pt =
     (let pt = (if t_FirstAttempt t = zero_time then pt
                else pt\<lparr>tk_FirstAttempt := Some \<lparr>tp_ScheduleTime = None, tp_DispatchTime = Some (t_FirstAttempt t),
                       tp_ResponseTime = None, tp_ResponseStatus = None\<rparr>\<rparr>)
      in case t_LastAttempt t of
           None \<Rightarrow> pt
         | Some a \<Rightarrow>
             let la = \<lparr>tp_ScheduleTime = Some (at_Scheduled a), tp_DispatchTime = Some (at_Dispatched a),
                       tp_ResponseTime = None, tp_ResponseStatus = None\<rparr>
             in pt\<lparr>tk_LastAttempt := Some
                  (if at_Responded a = zero_time then la
                   else la\<lparr>tp_ResponseTime := Some (at_Responded a),
                           tp_ResponseStatus := Some (at_Code a, at_Message a)\<rparr>)\<rparr>)"

definition appEngineReason :: "task \<Rightarrow> string \<Rightarrow> string" where
  "appEngineReason t host =
     ''HTTP '' @ int_dec AppEngineAttemptStatus @
     '': App Engine is not available on this CloudBurrow instance, so no app serves '' @ host @
     (case t_AppEngineHTTPRequest t of None \<Rightarrow> [] | Some a \<Rightarrow> ae_RelativeURI a)"

definition appEngineTargetAddress :: "task \<Rightarrow> ae_request \<Rightarrow> queue \<Rightarrow> string" where
  "appEngineTargetAddress t a q =
     ae_Method a @ '' https://'' @ AppEngineHost (projectOf (t_Name t)) (effectiveRouting a (q_AppEngineRouting q)) @
     ae_RelativeURI a"

end
