(* ===== verification/Tasks_Store.thy ===== *)
theory Tasks_Store
  imports Tasks_Target StoreDB
begin

text \<open>
  \<open>internal/service/tasks/store.go\<close>: queues, tasks and tombstones over the metadata store. The
  mutex makes every method one atomic step. A method that reads the injected clock takes that
  reading as \<open>now\<close>, and one that calls \<open>time.Now\<close> takes it as \<open>wall\<close>; errors are status codes.
\<close>

section \<open>Keys and names\<close>

definition queueKey :: "string \<Rightarrow> string" where
  "queueKey nm = ''tasks/queues/'' @ nm"

definition taskKey :: "string \<Rightarrow> string" where
  "taskKey nm = ''tasks/tasks/'' @ nm"

definition tombstoneKey :: "string \<Rightarrow> string" where
  "tombstoneKey nm = ''tasks/tombstones/'' @ nm"

definition TombstoneTTL :: duration where
  "TombstoneTTL = Hour"

definition tombstoneSweep :: duration where
  "tombstoneSweep = Minute"

text \<open>\<open>^[A-Za-z0-9-]{1,100}$\<close> and \<open>^[A-Za-z0-9_-]{1,500}$\<close>.\<close>

definition queueIDRE :: "string \<Rightarrow> bool" where
  "queueIDRE s \<longleftrightarrow> 1 \<le> length s \<and> length s \<le> 100 \<and> list_all (\<lambda>c. is_alnum c \<or> c = CHR ''-'') s"

definition taskIDRE :: "string \<Rightarrow> bool" where
  "taskIDRE s \<longleftrightarrow> 1 \<le> length s \<and> length s \<le> 500 \<and> list_all (\<lambda>c. is_alnum c \<or> c = CHR ''_'' \<or> c = CHR ''-'') s"

definition checkQueueName :: "string \<Rightarrow> code + unit" where
  "checkQueueName nm =
     (case Parse nm of
        None \<Rightarrow> Inl InvalidArgument
      | Some n \<Rightarrow>
          if Collection n \<noteq> ''queues'' then Inl InvalidArgument
          else if \<not> queueIDRE (ID n) then Inl InvalidArgument
          else Inr ())"

definition TaskName :: "string \<Rightarrow> string \<Rightarrow> string" where
  "TaskName q i = TrimSuffix q ''/'' @ ''/tasks/'' @ i"

section \<open>The state\<close>

record tasks_store =
  ts_db :: "doc db"
  ts_swept :: time

definition NewStore :: "doc db \<Rightarrow> tasks_store" where
  "NewStore d = \<lparr>ts_db = d, ts_swept = zero_time\<rparr>"

text \<open>
  \<open>get\<close> reads a key into a variable of the expected type; no caller distinguishes its errors. A
  document of another type is an error too, and \<open>typed_store\<close> below shows that it never happens.
\<close>

definition get_queue :: "doc db \<Rightarrow> string \<Rightarrow> queue option" where
  "get_queue d k = (case db_Get d k of Inr (JQueue q) \<Rightarrow> Some q | _ \<Rightarrow> None)"

definition get_task :: "doc db \<Rightarrow> string \<Rightarrow> task option" where
  "get_task d k = (case db_Get d k of Inr (JTask t) \<Rightarrow> Some t | _ \<Rightarrow> None)"

definition get_time :: "doc db \<Rightarrow> string \<Rightarrow> time option" where
  "get_time d k = (case db_Get d k of Inr (JTime t) \<Rightarrow> Some t | _ \<Rightarrow> None)"

definition get_string :: "doc db \<Rightarrow> string \<Rightarrow> string option" where
  "get_string d k = (case db_Get d k of Inr (JString t) \<Rightarrow> Some t | _ \<Rightarrow> None)"

text \<open>An error of the metadata store carries no status, so \<open>apierror.From\<close> makes it internal.\<close>

definition store_failure :: "store_err \<Rightarrow> code" where
  "store_failure e = Internal"

definition commit :: "tasks_store \<Rightarrow> doc op list \<Rightarrow> (code + unit) \<times> tasks_store" where
  "commit s ops =
     (case db_Commit (ts_db s) ops of
        (Inl e, d) \<Rightarrow> (Inl (store_failure e), s\<lparr>ts_db := d\<rparr>)
      | (Inr _, d) \<Rightarrow> (Inr (), s\<lparr>ts_db := d\<rparr>))"

definition put :: "tasks_store \<Rightarrow> string \<Rightarrow> doc \<Rightarrow> (code + unit) \<times> tasks_store" where
  "put s k v =
     (case json_Marshal v of
        None \<Rightarrow> (Inl Internal, s)
      | Some b \<Rightarrow>
          (case db_Put (ts_db s) k b of
             (Inl e, d) \<Rightarrow> (Inl (store_failure e), s\<lparr>ts_db := d\<rparr>)
           | (Inr _, d) \<Rightarrow> (Inr (), s\<lparr>ts_db := d\<rparr>)))"

text \<open>\<open>return v, s.put(...)\<close>: the callers use the value only when there is no error.\<close>

definition returning :: "'a \<Rightarrow> (code + unit) \<times> tasks_store \<Rightarrow> (code + 'a) \<times> tasks_store" where
  "returning v r = (case r of (Inl e, s) \<Rightarrow> (Inl e, s) | (Inr _, s) \<Rightarrow> (Inr v, s))"

section \<open>Queues\<close>

definition new_queue :: "time \<Rightarrow> queue \<Rightarrow> queue" where
  "new_queue wall q =
     (let q = (if q_State q = [] then q\<lparr>q_State := StateRunning\<rparr> else q);
          q = q\<lparr>q_RetryConfig := retry_withDefaults (q_RetryConfig q)\<rparr>;
          q = q\<lparr>q_RateLimits := rate_withDefaults (q_RateLimits q)\<rparr>
      in if q_Created q = zero_time then q\<lparr>q_Created := wall\<rparr> else q)"

definition CreateQueue :: "time \<Rightarrow> tasks_store \<Rightarrow> queue \<Rightarrow> (code + queue) \<times> tasks_store" where
  "CreateQueue wall s q =
     (case checkQueueName (q_Name q) of
        Inl e \<Rightarrow> (Inl e, s)
      | Inr _ \<Rightarrow>
          (case db_Get (ts_db s) (queueKey (q_Name q)) of
             Inr _ \<Rightarrow> (Inl AlreadyExists, s)
           | Inl _ \<Rightarrow>
               let q = new_queue wall q
               in returning q (put s (queueKey (q_Name q)) (JQueue q))))"

definition with_defaults :: "queue \<Rightarrow> queue" where
  "with_defaults q =
     q\<lparr>q_RetryConfig := retry_withDefaults (q_RetryConfig q),
       q_RateLimits := rate_withDefaults (q_RateLimits q)\<rparr>"

definition UpdateQueue ::
  "time \<Rightarrow> tasks_store \<Rightarrow> string \<Rightarrow> (queue \<Rightarrow> code + queue) \<Rightarrow> (code + (queue \<times> bool)) \<times> tasks_store" where
  "UpdateQueue wall s nm update =
     (case checkQueueName nm of
        Inl e \<Rightarrow> (Inl e, s)
      | Inr _ \<Rightarrow>
          let (q, created) =
            (case get_queue (ts_db s) (queueKey nm) of
               Some q \<Rightarrow> (q, False)
             | None \<Rightarrow> (zero_queue\<lparr>q_Name := nm, q_State := StateRunning, q_Created := wall\<rparr>, True))
          in case update q of
               Inl e \<Rightarrow> (Inl e, s)
             | Inr q' \<Rightarrow>
                 let q' = with_defaults q'
                 in returning (q', created) (put s (queueKey nm) (JQueue q')))"

definition GetQueue :: "tasks_store \<Rightarrow> string \<Rightarrow> code + queue" where
  "GetQueue s nm =
     (case get_queue (ts_db s) (queueKey nm) of None \<Rightarrow> Inl NotFound | Some q \<Rightarrow> Inr q)"

definition SetIamPolicy ::
  "(int \<Rightarrow> string option) \<Rightarrow> string \<Rightarrow> tasks_store \<Rightarrow> string \<Rightarrow> set_policy_req \<Rightarrow> (code + stored_policy) \<times> tasks_store" where
  "SetIamPolicy lt_name rnd s nm req =
     (case get_queue (ts_db s) (queueKey nm) of
        None \<Rightarrow> (Inl NotFound, s)
      | Some q \<Rightarrow>
          (case iam_Set lt_name rnd (q_IAMPolicy q) req of
             Inl e \<Rightarrow> (Inl e, s)
           | Inr next \<Rightarrow> returning next (put s (queueKey nm) (JQueue (q\<lparr>q_IAMPolicy := Some next\<rparr>)))))"

text \<open>The queues under the keys of a listing; one that cannot be read is left out.\<close>

definition queues_at :: "doc db \<Rightarrow> string list \<Rightarrow> queue list" where
  "queues_at d keys = sort_key q_Name (List.map_filter (get_queue d) keys)"

definition AllQueues :: "tasks_store \<Rightarrow> queue list" where
  "AllQueues s = queues_at (ts_db s) (db_List (ts_db s) ''tasks/queues/'')"

definition ListQueues :: "tasks_store \<Rightarrow> string \<Rightarrow> code + queue list" where
  "ListQueues s parent =
     (if parent = [] then Inl InvalidArgument
      else Inr (queues_at (ts_db s) (db_List (ts_db s) (queueKey (parent @ ''/queues/'')))))"

definition DeleteQueue :: "tasks_store \<Rightarrow> string \<Rightarrow> (code + unit) \<times> tasks_store" where
  "DeleteQueue s nm =
     (case db_Get (ts_db s) (queueKey nm) of
        Inl _ \<Rightarrow> (Inl NotFound, s)
      | Inr _ \<Rightarrow>
          let taskKeys = db_List (ts_db s) (taskKey (nm @ ''/tasks/''));
              tombKeys = db_List (ts_db s) (tombstoneKey (nm @ ''/tasks/''))
          in commit s (OpDelete (queueKey nm) # map OpDelete (taskKeys @ tombKeys)))"

definition SetQueueState :: "tasks_store \<Rightarrow> string \<Rightarrow> queue_state \<Rightarrow> (code + queue) \<times> tasks_store" where
  "SetQueueState s nm state =
     (case get_queue (ts_db s) (queueKey nm) of
        None \<Rightarrow> (Inl NotFound, s)
      | Some q \<Rightarrow> let q = q\<lparr>q_State := state\<rparr> in returning q (put s (queueKey nm) (JQueue q)))"

definition PurgeQueue :: "time \<Rightarrow> tasks_store \<Rightarrow> string \<Rightarrow> (code + unit) \<times> tasks_store" where
  "PurgeQueue now s nm =
     (case get_queue (ts_db s) (queueKey nm) of
        None \<Rightarrow> (Inl NotFound, s)
      | Some q \<Rightarrow>
          let keys = db_List (ts_db s) (taskKey (nm @ ''/tasks/''))
          in case json_Marshal (JQueue (q\<lparr>q_Purged := now\<rparr>)) of
               None \<Rightarrow> (Inl Internal, s)
             | Some b \<Rightarrow> commit s (OpPut (queueKey nm) b # map OpDelete keys))"

section \<open>Tasks\<close>

text \<open>\<open>CreateTask\<close> in its parts: the checks on the name and the target, the tombstone, the defaults.\<close>

definition check_task :: "task \<Rightarrow> code + name" where
  "check_task t =
     (case Parse (t_Name t) of
        None \<Rightarrow> Inl InvalidArgument
      | Some n \<Rightarrow>
          if Collection n \<noteq> ''tasks'' \<or> ParentCollection n \<noteq> ''queues'' then Inl InvalidArgument
          else if \<not> taskIDRE (ID n) then Inl InvalidArgument
          else if t_HTTPRequest t = None \<and> t_AppEngineHTTPRequest t = None then Inl InvalidArgument
          else Inr n)"

definition lacks_url :: "pb_lib \<Rightarrow> queue \<Rightarrow> task \<Rightarrow> bool" where
  "lacks_url L q t =
     (case t_HTTPRequest t of None \<Rightarrow> False | Some hr \<Rightarrow> hr_URL hr = [] \<and> \<not> targetsHost L q)"

definition new_task :: "time \<Rightarrow> task \<Rightarrow> task" where
  "new_task wall t =
     (let t = t\<lparr>t_HTTPRequest := map_option (\<lambda>hr. if hr_Method hr = [] then hr\<lparr>hr_Method := ''POST''\<rparr> else hr)
                 (t_HTTPRequest t)\<rparr>;
          t = (if t_Created t = zero_time then t\<lparr>t_Created := wall\<rparr> else t)
      in if t_ScheduleTime t = zero_time then t\<lparr>t_ScheduleTime := wall\<rparr> else t)"

text \<open>The error of deleting an expired tombstone is dropped.\<close>

definition CreateTask :: "pb_lib \<Rightarrow> time \<Rightarrow> time \<Rightarrow> tasks_store \<Rightarrow> task \<Rightarrow> (code + task) \<times> tasks_store" where
  "CreateTask L now wall s t =
     (case check_task t of
        Inl e \<Rightarrow> (Inl e, s)
      | Inr n \<Rightarrow>
          let queue = (if t_Queue t = [] then LocationName n @ ''/queues/'' @ ParentID n else t_Queue t);
              t = t\<lparr>t_Queue := queue\<rparr>
          in case get_queue (ts_db s) (queueKey queue) of
               None \<Rightarrow> (Inl NotFound, s)
             | Some q \<Rightarrow>
                 if lacks_url L q t then (Inl InvalidArgument, s)
                 else (case db_Get (ts_db s) (taskKey (t_Name t)) of
                         Inr _ \<Rightarrow> (Inl AlreadyExists, s)
                       | Inl _ \<Rightarrow>
                           (case get_time (ts_db s) (tombstoneKey (t_Name t)) of
                              None \<Rightarrow>
                                let t = new_task wall t in returning t (put s (taskKey (t_Name t)) (JTask t))
                            | Some until \<Rightarrow>
                                if now < until then (Inl AlreadyExists, s)
                                else
                                  let s = s\<lparr>ts_db := snd (db_Delete (ts_db s) (tombstoneKey (t_Name t)))\<rparr>;
                                      t = new_task wall t
                                  in returning t (put s (taskKey (t_Name t)) (JTask t)))))"

definition GetTask :: "tasks_store \<Rightarrow> string \<Rightarrow> code + task" where
  "GetTask s nm =
     (case get_task (ts_db s) (taskKey nm) of None \<Rightarrow> Inl NotFound | Some t \<Rightarrow> Inr t)"

definition tasks_at :: "doc db \<Rightarrow> string list \<Rightarrow> task list" where
  "tasks_at d keys = sort_key t_Name (List.map_filter (get_task d) keys)"

definition ListTasks :: "tasks_store \<Rightarrow> string \<Rightarrow> code + task list" where
  "ListTasks s queue =
     (case db_Get (ts_db s) (queueKey queue) of
        Inl _ \<Rightarrow> Inl NotFound
      | Inr _ \<Rightarrow> Inr (tasks_at (ts_db s) (db_List (ts_db s) (taskKey (queue @ ''/tasks/'')))))"

definition expiredTombstones :: "doc db \<Rightarrow> time \<Rightarrow> doc op list" where
  "expiredTombstones d now =
     map OpDelete (filter (\<lambda>k. case get_time d k of Some until \<Rightarrow> \<not> now < until | None \<Rightarrow> False)
       (db_List d ''tasks/tombstones/''))"

text \<open>The sweep is recorded as done before the batch is committed.\<close>

definition DeleteTask :: "time \<Rightarrow> tasks_store \<Rightarrow> string \<Rightarrow> (code + unit) \<times> tasks_store" where
  "DeleteTask now s nm =
     (case get_task (ts_db s) (taskKey nm) of
        None \<Rightarrow> (Inl NotFound, s)
      | Some t \<Rightarrow>
          (case (if t_NamedByServer t then Some []
                 else map_option (\<lambda>b. [OpPut (tombstoneKey nm) b]) (json_Marshal (JTime (now + TombstoneTTL)))) of
             None \<Rightarrow> (Inl Internal, s)
           | Some tomb \<Rightarrow>
               if tombstoneSweep \<le> time_sub now (ts_swept s)
               then commit (s\<lparr>ts_swept := now\<rparr>) (OpDelete (taskKey nm) # tomb @ expiredTombstones (ts_db s) now)
               else commit s (OpDelete (taskKey nm) # tomb)))"

definition UpdateTask :: "tasks_store \<Rightarrow> task \<Rightarrow> (code + unit) \<times> tasks_store" where
  "UpdateTask s t =
     (case get_task (ts_db s) (taskKey (t_Name t)) of
        None \<Rightarrow> (Inl NotFound, s)
      | Some stored \<Rightarrow>
          let t = (if t_RunRequested stored \<noteq> zero_time \<and> t_RunRequested stored \<noteq> t_RunRequested t
                   then t\<lparr>t_RunRequested := t_RunRequested stored\<rparr> else t)
          in put s (taskKey (t_Name t)) (JTask t))"

definition RunTask :: "time \<Rightarrow> tasks_store \<Rightarrow> string \<Rightarrow> (code + task) \<times> tasks_store" where
  "RunTask now s nm =
     (case get_task (ts_db s) (taskKey nm) of
        None \<Rightarrow> (Inl NotFound, s)
      | Some t \<Rightarrow>
          let t = t\<lparr>t_RunRequested := now\<rparr> in returning t (put s (taskKey nm) (JTask t)))"

definition TakeRun :: "tasks_store \<Rightarrow> string \<Rightarrow> time \<Rightarrow> tasks_store" where
  "TakeRun s nm requested =
     (case get_task (ts_db s) (taskKey nm) of
        None \<Rightarrow> s
      | Some t \<Rightarrow>
          if t_RunRequested t \<noteq> requested then s
          else snd (put s (taskKey nm) (JTask (t\<lparr>t_RunRequested := zero_time\<rparr>))))"

text \<open>The loop of \<open>DueTasks\<close> with its cache of which queues are running.\<close>

definition is_running :: "doc db \<Rightarrow> string \<Rightarrow> bool" where
  "is_running d nm =
     (case get_queue d (queueKey nm) of None \<Rightarrow> False | Some q \<Rightarrow> q_State q = StateRunning)"

fun due_tasks :: "doc db \<Rightarrow> time \<Rightarrow> string list \<Rightarrow> bool gomap \<Rightarrow> task list" where
  "due_tasks d now [] running = []"
| "due_tasks d now (k # ks) running =
     (case get_task d k of
        None \<Rightarrow> due_tasks d now ks running
      | Some t \<Rightarrow>
          if t_RunRequested t \<noteq> zero_time then t # due_tasks d now ks running
          else if t_ScheduleTime t > now then due_tasks d now ks running
          else (case map_of running (t_Queue t) of
                  Some ok \<Rightarrow> if ok then t # due_tasks d now ks running else due_tasks d now ks running
                | None \<Rightarrow>
                    let ok = is_running d (t_Queue t);
                        running = AList.update (t_Queue t) ok running
                    in if ok then t # due_tasks d now ks running else due_tasks d now ks running))"

definition DueTasks :: "tasks_store \<Rightarrow> time \<Rightarrow> task list" where
  "DueTasks s now = sort_key t_Name (due_tasks (ts_db s) now (db_List (ts_db s) ''tasks/tasks/'') [])"

section \<open>Operations of batches and CMEK configs\<close>

text \<open>The parts of \<open>grpc1215.go\<close> that read and write the store.\<close>

definition batchKey :: "string \<Rightarrow> string \<Rightarrow> string" where
  "batchKey queue requestID = ''tasks/batches/'' @ queue @ ''/'' @ requestID"

definition Store_batchOperation :: "tasks_store \<Rightarrow> string \<Rightarrow> string \<Rightarrow> batch_op option" where
  "Store_batchOperation s queue requestID =
     (if requestID = [] then None
      else case db_Get (ts_db s) (batchKey queue requestID) of Inr (POperation p) \<Rightarrow> Some p | _ \<Rightarrow> None)"

definition keepBatchOperation :: "tasks_store \<Rightarrow> string \<Rightarrow> string \<Rightarrow> batch_op \<Rightarrow> tasks_store" where
  "keepBatchOperation s queue requestID p =
     (if requestID = [] then s
      else s\<lparr>ts_db := snd (db_Put (ts_db s) (batchKey queue requestID) (POperation p))\<rparr>)"

definition cmekKey :: "string \<Rightarrow> string" where
  "cmekKey nm = ''tasks/cmek/'' @ nm"

text \<open>\<open>^projects/[^/]+/locations/[^/]+/cmekConfig$\<close> and the pattern of a key.\<close>

definition cmekNameRE :: "string \<Rightarrow> bool" where
  "cmekNameRE s =
     (case split_on (CHR ''/'') s of
        [a, p, b, l, c] \<Rightarrow> a = ''projects'' \<and> p \<noteq> [] \<and> b = ''locations'' \<and> l \<noteq> [] \<and> c = ''cmekConfig''
      | _ \<Rightarrow> False)"

definition kmsKeyRE :: "string \<Rightarrow> bool" where
  "kmsKeyRE s =
     (case split_on (CHR ''/'') s of
        [a, p, b, l, c, r, d, k] \<Rightarrow> a = ''projects'' \<and> p \<noteq> [] \<and> b = ''locations'' \<and> l \<noteq> [] \<and>
          c = ''keyRings'' \<and> r \<noteq> [] \<and> d = ''cryptoKeys'' \<and> k \<noteq> []
      | _ \<Rightarrow> False)"

record cmek_config =
  ck_Name :: string
  ck_KmsKey :: string

definition GetCmekConfig :: "tasks_store \<Rightarrow> string \<Rightarrow> code + cmek_config" where
  "GetCmekConfig s nm =
     (if \<not> cmekNameRE nm then Inl InvalidArgument
      else Inr \<lparr>ck_Name = nm, ck_KmsKey = (case get_string (ts_db s) (cmekKey nm) of None \<Rightarrow> [] | Some k \<Rightarrow> k)\<rparr>)"

definition kms_key_refused :: "string \<Rightarrow> string \<Rightarrow> bool" where
  "kms_key_refused nm key \<longleftrightarrow>
     key \<noteq> [] \<and> (\<not> kmsKeyRE key \<or> split_on (CHR ''/'') key ! 3 \<noteq> split_on (CHR ''/'') nm ! 3)"

text \<open>A key that cannot be deleted is an error only while one is still stored.\<close>

definition clear_cmek :: "tasks_store \<Rightarrow> string \<Rightarrow> (code + unit) \<times> tasks_store" where
  "clear_cmek s k =
     (case db_Delete (ts_db s) k of
        (Inr _, d) \<Rightarrow> (Inr (), s\<lparr>ts_db := d\<rparr>)
      | (Inl e, d) \<Rightarrow>
          if get_string d k = None then (Inr (), s\<lparr>ts_db := d\<rparr>) else (Inl (store_failure e), s\<lparr>ts_db := d\<rparr>))"

definition UpdateCmekConfig :: "tasks_store \<Rightarrow> cmek_config \<Rightarrow> string list \<Rightarrow> (code + cmek_config) \<times> tasks_store" where
  "UpdateCmekConfig s cfg paths =
     (let nm = ck_Name cfg; key = ck_KmsKey cfg in
      if \<not> cmekNameRE nm then (Inl InvalidArgument, s)
      else if list_ex (\<lambda>p. p \<noteq> ''kms_key'' \<and> p \<noteq> ''kmsKey'') paths then (Inl InvalidArgument, s)
      else if kms_key_refused nm key then (Inl InvalidArgument, s)
      else returning \<lparr>ck_Name = nm, ck_KmsKey = key\<rparr>
             (if key = [] then clear_cmek s (cmekKey nm) else put s (cmekKey nm) (JString key)))"

section \<open>Reading and writing through the interface\<close>

abbreviation ts_view :: "tasks_store \<Rightarrow> string \<Rightarrow> doc option" where
  "ts_view s \<equiv> db_view (ts_db s)"

abbreviation ts_ok :: "tasks_store \<Rightarrow> bool" where
  "ts_ok s \<equiv> db_inv (ts_db s)"

lemma get_iff:
  assumes "db_inv d"
  shows "get_queue d k = Some q \<longleftrightarrow> SafeKey k \<and> db_view d k = Some (JQueue q)"
    and "get_task d k = Some t \<longleftrightarrow> SafeKey k \<and> db_view d k = Some (JTask t)"
    and "get_time d k = Some u \<longleftrightarrow> SafeKey k \<and> db_view d k = Some (JTime u)"
    and "get_string d k = Some w \<longleftrightarrow> SafeKey k \<and> db_view d k = Some (JString w)"
  using assms
  by (auto simp: get_queue_def get_task_def get_time_def get_string_def db.sget_eq split: option.splits doc.splits)

lemma put_cases:
  assumes "ts_ok s"
  obtains (ok) s' where "put s k v = (Inr (), s')" "ts_ok s'" "SafeKey k" "json_Marshal v = Some v"
      "ts_view s' = (ts_view s)(k \<mapsto> v)" "ts_swept s' = ts_swept s"
  | (failed) s' where "put s k v = (Inl Internal, s')" "ts_ok s'" "ts_view s' = ts_view s"
      "ts_swept s' = ts_swept s"
proof (cases "json_Marshal v")
  case None
  then show thesis using failed [of s] assms by (simp add: put_def)
next
  case (Some b)
  then have b: "b = v" by (rule json_Marshal_Some)
  show thesis
  proof (cases rule: db_Commit_cases [OF assms, of "[OpPut k v]"])
    case (1 d)
    then show thesis
      using Some b by (intro ok [of "s\<lparr>ts_db := d\<rparr>"]) (simp_all add: put_def db_Put_commit)
  next
    case (2 e d)
    then show thesis
      using Some b by (intro failed [of "s\<lparr>ts_db := d\<rparr>"]) (simp_all add: put_def db_Put_commit store_failure_def)
  qed
qed

lemma commit_cases:
  assumes "ts_ok s"
  obtains (ok) s' where "commit s ops = (Inr (), s')" "ts_ok s'" "list_all (\<lambda>x. SafeKey (op_key x)) ops"
      "ts_view s' = spec_ops ops (ts_view s)" "ts_swept s' = ts_swept s"
  | (failed) s' where "commit s ops = (Inl Internal, s')" "ts_ok s'" "ts_view s' = ts_view s"
      "ts_swept s' = ts_swept s"
proof (cases rule: db_Commit_cases [OF assms, of ops])
  case (1 d)
  then show thesis by (intro ok [of "s\<lparr>ts_db := d\<rparr>"]) (simp_all add: commit_def)
next
  case (2 e d)
  then show thesis by (intro failed [of "s\<lparr>ts_db := d\<rparr>"]) (simp_all add: commit_def store_failure_def)
qed

lemma returning_simps [simp]:
  "returning v (Inl e, s) = (Inl e, s)"
  "returning v (Inr u, s) = (Inr v, s)"
  by (simp_all add: returning_def)

lemma snd_returning [simp]: "snd (returning v r) = snd r"
  by (cases r) (auto simp: returning_def split: sum.splits)

lemma spec_ops_deletes: "spec_ops (map OpDelete ks) f = (\<lambda>k. if k \<in> set ks then None else f k)"
  by (induction ks arbitrary: f) auto

section \<open>The type of what is stored\<close>

definition valid_state :: "queue_state \<Rightarrow> bool" where
  "valid_state st \<longleftrightarrow> st = StateRunning \<or> st = StatePaused \<or> st = StateDisabled"

definition retry_ok :: "retry_config \<Rightarrow> bool" where
  "retry_ok rc \<longleftrightarrow> ct_MaxAttempts rc \<noteq> 0 \<and> 0 < ct_MinBackoff rc \<and> 0 < ct_MaxBackoff rc \<and> 0 < ct_MaxDoublings rc"

definition rate_ok :: "rate_limits \<Rightarrow> bool" where
  "rate_ok rl \<longleftrightarrow> f64_finite (rl_MaxDispatchesPerSecond rl) \<and> f64_less (Fin 0) (rl_MaxDispatchesPerSecond rl) \<and>
     0 < rl_MaxConcurrentDispatches rl"

definition queue_ok :: "queue \<Rightarrow> bool" where
  "queue_ok q \<longleftrightarrow> checkQueueName (q_Name q) = Inr () \<and> valid_state (q_State q) \<and>
     retry_ok (q_RetryConfig q) \<and> rate_ok (q_RateLimits q)"

definition has_target :: "task \<Rightarrow> bool" where
  "has_target t \<longleftrightarrow> t_HTTPRequest t \<noteq> None \<or> t_AppEngineHTTPRequest t \<noteq> None"

definition task_ok :: "task \<Rightarrow> bool" where
  "task_ok t \<longleftrightarrow> \<not> isl (check_task t) \<and> t_Queue t \<noteq> []"

text \<open>A document belongs under the keys of its kind, and says itself which.\<close>

fun doc_ok :: "string \<Rightarrow> doc \<Rightarrow> bool" where
  "doc_ok k (JQueue q) \<longleftrightarrow> k = queueKey (q_Name q) \<and> queue_ok q"
| "doc_ok k (JTask t) \<longleftrightarrow> k = taskKey (t_Name t) \<and> task_ok t"
| "doc_ok k (JTime u) \<longleftrightarrow> HasPrefix k ''tasks/tombstones/''"
| "doc_ok k (JString w) \<longleftrightarrow> HasPrefix k ''tasks/cmek/''"
| "doc_ok k (POperation p) \<longleftrightarrow> HasPrefix k ''tasks/batches/''"

definition docs_ok :: "(string \<rightharpoonup> doc) \<Rightarrow> bool" where
  "docs_ok f \<longleftrightarrow> (\<forall>k v. f k = Some v \<longrightarrow> doc_ok k v)"

definition typed_store :: "tasks_store \<Rightarrow> bool" where
  "typed_store s \<longleftrightarrow> ts_ok s \<and> docs_ok (ts_view s)"

lemma docs_okD: "docs_ok f \<Longrightarrow> f k = Some v \<Longrightarrow> doc_ok k v"
  by (simp add: docs_ok_def)

lemma docs_ok_upd [intro]: "docs_ok f \<Longrightarrow> doc_ok k v \<Longrightarrow> docs_ok (f(k \<mapsto> v))"
  by (simp add: docs_ok_def)

lemma docs_ok_del [intro]: "docs_ok f \<Longrightarrow> docs_ok (f(k := None))"
  by (simp add: docs_ok_def)

fun op_ok :: "doc op \<Rightarrow> bool" where
  "op_ok (OpPut k v) = doc_ok k v"
| "op_ok (OpDelete k) = True"

lemma docs_ok_ops: "docs_ok f \<Longrightarrow> list_all op_ok ops \<Longrightarrow> docs_ok (spec_ops ops f)"
proof (induction ops arbitrary: f)
  case (Cons p ops)
  have "docs_ok (spec_op p f)" using Cons.prems by (cases p) auto
  then show ?case using Cons by simp
qed simp

lemma typed_put: "typed_store s \<Longrightarrow> json_Marshal v = Some v \<longrightarrow> doc_ok k v \<Longrightarrow> typed_store (snd (put s k v))"
  by (rule put_cases [of s k v]) (auto simp: typed_store_def)

lemma typed_commit: "typed_store s \<Longrightarrow> list_all op_ok ops \<Longrightarrow> typed_store (snd (commit s ops))"
  by (rule commit_cases [of s ops]) (auto simp: typed_store_def docs_ok_ops)

lemma typed_queue:
  "typed_store s \<Longrightarrow> get_queue (ts_db s) (queueKey nm) = Some q \<Longrightarrow> q_Name q = nm \<and> queue_ok q"
  by (auto simp: typed_store_def get_iff queueKey_def dest!: docs_okD)

lemma typed_task:
  "typed_store s \<Longrightarrow> get_task (ts_db s) (taskKey nm) = Some t \<Longrightarrow> t_Name t = nm \<and> task_ok t"
  by (auto simp: typed_store_def get_iff taskKey_def dest!: docs_okD)

lemma retry_ok_defaults [simp]: "retry_ok (retry_withDefaults rc)"
  by (auto simp: retry_ok_def retry_withDefaults_def WithDefaults_def DefaultCloudTasksBackoff_def
      duration_defs Let_def)

lemma queue_json_rate: "json_Marshal (JQueue q) = Some b \<Longrightarrow> f64_finite (rl_MaxDispatchesPerSecond (q_RateLimits q))"
  by (simp add: queue_json_ok_def split: if_splits)

lemma rate_ok_defaults:
  "f64_finite (rl_MaxDispatchesPerSecond (rate_withDefaults rl)) \<Longrightarrow> rate_ok (rate_withDefaults rl)"
  using rate_withDefaults_pos [of rl] by (simp add: rate_ok_def f64_finite_def)

lemma queue_ok_frame:
  "queue_ok q \<Longrightarrow> q_Name q' = q_Name q \<Longrightarrow> valid_state (q_State q') \<Longrightarrow> q_RetryConfig q' = q_RetryConfig q \<Longrightarrow>
   q_RateLimits q' = q_RateLimits q \<Longrightarrow> queue_ok q'"
  by (simp add: queue_ok_def)

lemma check_task_cong:
  "t_Name t' = t_Name t \<Longrightarrow> has_target t' = has_target t \<Longrightarrow> check_task t' = check_task t"
  by (auto simp: check_task_def has_target_def split: option.splits)

section \<open>Every operation keeps the type\<close>

datatype store_call =
    C_CreateQueue time queue
  | C_UpdateQueue time string "queue \<Rightarrow> code + queue"
  | C_SetIamPolicy "int \<Rightarrow> string option" string string set_policy_req
  | C_DeleteQueue string
  | C_SetQueueState string queue_state
  | C_PurgeQueue time string
  | C_CreateTask pb_lib time time task
  | C_DeleteTask time string
  | C_UpdateTask task
  | C_RunTask time string
  | C_TakeRun string time
  | C_keepBatchOperation string string batch_op
  | C_UpdateCmekConfig cmek_config "string list"

fun exec_call :: "store_call \<Rightarrow> tasks_store \<Rightarrow> tasks_store" where
  "exec_call (C_CreateQueue wall q) s = snd (CreateQueue wall s q)"
| "exec_call (C_UpdateQueue wall nm update) s = snd (UpdateQueue wall s nm update)"
| "exec_call (C_SetIamPolicy lt_name rnd nm req) s = snd (SetIamPolicy lt_name rnd s nm req)"
| "exec_call (C_DeleteQueue nm) s = snd (DeleteQueue s nm)"
| "exec_call (C_SetQueueState nm st) s = snd (SetQueueState s nm st)"
| "exec_call (C_PurgeQueue now nm) s = snd (PurgeQueue now s nm)"
| "exec_call (C_CreateTask L now wall t) s = snd (CreateTask L now wall s t)"
| "exec_call (C_DeleteTask now nm) s = snd (DeleteTask now s nm)"
| "exec_call (C_UpdateTask t) s = snd (UpdateTask s t)"
| "exec_call (C_RunTask now nm) s = snd (RunTask now s nm)"
| "exec_call (C_TakeRun nm requested) s = TakeRun s nm requested"
| "exec_call (C_keepBatchOperation q r p) s = keepBatchOperation s q r p"
| "exec_call (C_UpdateCmekConfig cfg paths) s = snd (UpdateCmekConfig s cfg paths)"

text \<open>
  What the callers in the package respect: states are the three constants, an update keeps the name
  and the state (\<open>grpcserver.go\<close>), a task written back is one that was read, with its target.
\<close>

fun call_ok :: "store_call \<Rightarrow> bool" where
  "call_ok (C_CreateQueue wall q) \<longleftrightarrow> q_State q = [] \<or> valid_state (q_State q)"
| "call_ok (C_UpdateQueue wall nm update) \<longleftrightarrow>
     (\<forall>q q'. update q = Inr q' \<longrightarrow> q_Name q' = q_Name q \<and> q_State q' = q_State q)"
| "call_ok (C_SetQueueState nm st) \<longleftrightarrow> valid_state st"
| "call_ok (C_UpdateTask t) \<longleftrightarrow> task_ok t"
| "call_ok _ \<longleftrightarrow> True"

lemma typed_CreateQueue:
  assumes "typed_store s" "q_State q = [] \<or> valid_state (q_State q)"
  shows "typed_store (snd (CreateQueue wall s q))"
proof (cases "checkQueueName (q_Name q)")
  case (Inr u)
  let ?q = "new_queue wall q"
  have nq: "q_Name ?q = q_Name q" "valid_state (q_State ?q)"
    "q_RetryConfig ?q = retry_withDefaults (q_RetryConfig q)" "q_RateLimits ?q = rate_withDefaults (q_RateLimits q)"
    using assms(2) by (auto simp: new_queue_def Let_def valid_state_def)
  have "typed_store (snd (put s (queueKey (q_Name ?q)) (JQueue ?q)))"
  proof (rule typed_put [OF assms(1)], rule impI)
    assume "json_Marshal (JQueue ?q) = Some (JQueue ?q)"
    then have "f64_finite (rl_MaxDispatchesPerSecond (q_RateLimits ?q))" by (rule queue_json_rate)
    then show "doc_ok (queueKey (q_Name ?q)) (JQueue ?q)"
      using nq Inr by (simp add: queue_ok_def rate_ok_defaults)
  qed
  then show ?thesis
    using Inr assms(1) by (simp add: CreateQueue_def Let_def split: sum.split)
qed (use assms(1) in \<open>simp add: CreateQueue_def\<close>)

lemma valid_RUNNING [simp]: "valid_state StateRunning"
  by (simp add: valid_state_def)

lemma typed_UpdateQueue:
  assumes "typed_store s"
    and keep: "\<And>q q'. update q = Inr q' \<Longrightarrow> q_Name q' = q_Name q \<and> q_State q' = q_State q"
  shows "typed_store (snd (UpdateQueue wall s nm update))"
proof (cases "checkQueueName nm")
  case (Inr u)
  let ?put = "\<lambda>q. put s (queueKey nm) (JQueue (with_defaults q))"
  have put: "typed_store (snd (?put q'))" if "update q = Inr q'" "q_Name q = nm" "valid_state (q_State q)" for q q'
  proof (rule typed_put [OF assms(1)], rule impI)
    assume "json_Marshal (JQueue (with_defaults q')) = Some (JQueue (with_defaults q'))"
    then have "f64_finite (rl_MaxDispatchesPerSecond (q_RateLimits (with_defaults q')))" by (rule queue_json_rate)
    then show "doc_ok (queueKey nm) (JQueue (with_defaults q'))"
      using keep [OF that(1)] that(2,3) Inr by (simp add: queue_ok_def with_defaults_def rate_ok_defaults)
  qed
  show ?thesis
  proof (cases "get_queue (ts_db s) (queueKey nm)")
    case None
    let ?q = "zero_queue\<lparr>q_Name := nm, q_State := StateRunning, q_Created := wall\<rparr>"
    show ?thesis
      using None Inr assms(1) put [of ?q] by (cases "update ?q") (simp_all add: UpdateQueue_def Let_def)
  next
    case (Some q)
    then have "q_Name q = nm" "valid_state (q_State q)" using typed_queue [OF assms(1)] by (auto simp: queue_ok_def)
    then show ?thesis
      using Some Inr assms(1) put [of q] by (cases "update q") (simp_all add: UpdateQueue_def Let_def)
  qed
qed (use assms(1) in \<open>simp add: UpdateQueue_def\<close>)

text \<open>The other queue operations rewrite a stored queue without touching its configuration.\<close>

lemma typed_put_queue:
  assumes "typed_store s" "get_queue (ts_db s) (queueKey nm) = Some q"
    "q_Name q' = q_Name q" "valid_state (q_State q')" "q_RetryConfig q' = q_RetryConfig q" "q_RateLimits q' = q_RateLimits q"
  shows "doc_ok (queueKey nm) (JQueue q')"
  using typed_queue [OF assms(1,2)] assms(3-) queue_ok_frame [of q q'] by simp

lemma typed_SetIamPolicy: "typed_store s \<Longrightarrow> typed_store (snd (SetIamPolicy lt_name rnd s nm req))"
  by (auto simp: SetIamPolicy_def queue_ok_def dest: typed_queue split: option.split sum.split
      intro!: typed_put typed_put_queue)

lemma typed_SetQueueState: "typed_store s \<Longrightarrow> valid_state st \<Longrightarrow> typed_store (snd (SetQueueState s nm st))"
  by (auto simp: SetQueueState_def Let_def split: option.split intro!: typed_put typed_put_queue)

lemma deletes_ok [simp]: "list_all op_ok (map OpDelete ks)"
  by (induction ks) auto

lemma typed_DeleteQueue: "typed_store s \<Longrightarrow> typed_store (snd (DeleteQueue s nm))"
  by (auto simp: DeleteQueue_def Let_def simp del: map_append split: sum.split intro!: typed_commit)

lemma typed_PurgeQueue: "typed_store s \<Longrightarrow> typed_store (snd (PurgeQueue now s nm))"
  by (auto simp: PurgeQueue_def Let_def queue_ok_def dest: typed_queue dest!: json_Marshal_Some split: option.split
      intro!: typed_commit typed_put_queue)

lemma typed_db_Delete: "typed_store s \<Longrightarrow> typed_store (s\<lparr>ts_db := snd (db_Delete (ts_db s) k)\<rparr>)"
proof -
  assume s: "typed_store s"
  then have inv: "ts_ok s" by (simp add: typed_store_def)
  have "docs_ok (db_view (snd (db_Commit (ts_db s) [OpDelete k])))"
    using s docs_ok_del [of "ts_view s" k]
    by (cases rule: db_Commit_cases [OF inv, of "[OpDelete k]"]) (simp_all add: typed_store_def)
  then show ?thesis using inv by (simp add: typed_store_def db_Delete_commit)
qed

lemma task_ok_frame:
  "task_ok t \<Longrightarrow> t_Name t' = t_Name t \<Longrightarrow> t_Queue t' = t_Queue t \<Longrightarrow> has_target t' = has_target t \<Longrightarrow> task_ok t'"
  using check_task_cong [of t' t] by (simp add: task_ok_def)

lemma task_ok_run [simp]: "task_ok (t\<lparr>t_RunRequested := r\<rparr>) = task_ok t"
  using task_ok_frame [of t "t\<lparr>t_RunRequested := r\<rparr>"] task_ok_frame [of "t\<lparr>t_RunRequested := r\<rparr>" t]
  by (auto simp: has_target_def)

lemma new_task_fields [simp]:
  "t_Name (new_task wall t) = t_Name t" "t_Queue (new_task wall t) = t_Queue t"
  "has_target (new_task wall t) = has_target t" "t_NamedByServer (new_task wall t) = t_NamedByServer t"
  by (auto simp: new_task_def Let_def has_target_def)

text \<open>\<open>CreateTask\<close> by cases: refused with the store unchanged, or the task filed, an expired tombstone gone.\<close>

definition filed :: "name \<Rightarrow> task \<Rightarrow> task" where
  "filed n t = t\<lparr>t_Queue := if t_Queue t = [] then LocationName n @ ''/queues/'' @ ParentID n else t_Queue t\<rparr>"

lemma filed_fields [simp]:
  "t_Name (filed n t) = t_Name t" "has_target (filed n t) = has_target t"
  "t_NamedByServer (filed n t) = t_NamedByServer t" "t_Queue (filed n t) \<noteq> []"
  by (simp_all add: filed_def has_target_def LocationName_def)

lemma CreateTask_cases:
  obtains (refused) e where "CreateTask L now wall s t = (Inl e, s)"
  | (create) n q s1 where
      "check_task t = Inr n" "get_queue (ts_db s) (queueKey (t_Queue (filed n t))) = Some q"
      "\<nexists>v. db_Get (ts_db s) (taskKey (t_Name t)) = Inr v"
      "get_time (ts_db s) (tombstoneKey (t_Name t)) = None \<and> s1 = s \<or>
       (\<exists>until. get_time (ts_db s) (tombstoneKey (t_Name t)) = Some until \<and> until \<le> now \<and>
          s1 = s\<lparr>ts_db := snd (db_Delete (ts_db s) (tombstoneKey (t_Name t)))\<rparr>)"
      "CreateTask L now wall s t =
         returning (new_task wall (filed n t)) (put s1 (taskKey (t_Name t)) (JTask (new_task wall (filed n t))))"
proof (cases "check_task t")
  case (Inl e)
  then show thesis using refused by (simp add: CreateTask_def)
next
  case n: (Inr n)
  show thesis
  proof (cases "get_queue (ts_db s) (queueKey (t_Queue (filed n t)))")
    case None
    then show thesis using n refused by (simp add: CreateTask_def Let_def filed_def)
  next
    case q: (Some q)
    show thesis
    proof (cases "lacks_url L q (filed n t) \<or> (\<exists>v. db_Get (ts_db s) (taskKey (t_Name t)) = Inr v)")
      case True
      then show thesis
      proof
        assume "lacks_url L q (filed n t)"
        then show thesis using n q refused by (simp add: CreateTask_def Let_def filed_def)
      next
        assume "\<exists>v. db_Get (ts_db s) (taskKey (t_Name t)) = Inr v"
        then obtain v where "db_Get (ts_db s) (taskKey (t_Name t)) = Inr v" ..
        then show thesis
          using n q refused [of InvalidArgument] refused [of AlreadyExists]
          by (cases "lacks_url L q (filed n t)") (simp_all add: CreateTask_def Let_def filed_def)
      qed
    next
      case free: False
      then obtain e where e: "db_Get (ts_db s) (taskKey (t_Name t)) = Inl e" by (metis sumE)
      show thesis
      proof (cases "get_time (ts_db s) (tombstoneKey (t_Name t))")
        case None
        with n q free e create [of n q s] show thesis by (simp add: CreateTask_def Let_def filed_def)
      next
        case (Some until)
        with n q free e create [of n q "s\<lparr>ts_db := snd (db_Delete (ts_db s) (tombstoneKey (t_Name t)))\<rparr>"]
          refused [of AlreadyExists]
        show thesis by (cases "now < until") (simp_all add: CreateTask_def Let_def filed_def)
      qed
    qed
  qed
qed

lemma typed_CreateTask: "typed_store s \<Longrightarrow> typed_store (snd (CreateTask L now wall s t))"
proof (cases rule: CreateTask_cases [of L now wall s t])
  case 2: (create n q s1)
  assume "typed_store s"
  with 2(4) have "typed_store s1" using typed_db_Delete by auto
  moreover have "task_ok (new_task wall (filed n t))"
    using 2(1) check_task_cong [of "new_task wall (filed n t)" t] by (simp add: task_ok_def)
  ultimately show ?thesis using 2(5) by (simp add: typed_put)
qed simp

lemma typed_put_task:
  assumes "typed_store s" "get_task (ts_db s) (taskKey nm) = Some t"
    "t_Name t' = t_Name t" "t_Queue t' = t_Queue t" "has_target t' = has_target t"
  shows "doc_ok (taskKey nm) (JTask t')"
  using typed_task [OF assms(1,2)] assms(3-) task_ok_frame [of t t'] by simp

lemma typed_RunTask: "typed_store s \<Longrightarrow> typed_store (snd (RunTask now s nm))"
  by (auto simp: RunTask_def Let_def has_target_def split: option.split intro!: typed_put typed_put_task)

lemma typed_TakeRun: "typed_store s \<Longrightarrow> typed_store (TakeRun s nm requested)"
  by (auto simp: TakeRun_def Let_def has_target_def split: option.split intro!: typed_put typed_put_task)

lemma typed_UpdateTask: "typed_store s \<Longrightarrow> task_ok t \<Longrightarrow> typed_store (snd (UpdateTask s t))"
  by (auto simp: UpdateTask_def Let_def split: option.split intro!: typed_put)

lemma prefix_tombstone [simp]: "HasPrefix (tombstoneKey nm) ''tasks/tombstones/''"
  by (simp add: tombstoneKey_def)

lemma typed_DeleteTask: "typed_store s \<Longrightarrow> typed_store (snd (DeleteTask now s nm))"
proof -
  assume s: "typed_store s"
  then have s': "typed_store (s\<lparr>ts_swept := now\<rparr>)" by (simp add: typed_store_def)
  have tomb: "list_all op_ok tomb"
    if "(if b then Some [] else map_option (\<lambda>b. [OpPut (tombstoneKey nm) b]) (json_Marshal (JTime u))) = Some tomb"
    for b u tomb
    using that by (auto split: if_splits)
  show ?thesis
    using s typed_commit [OF s] typed_commit [OF s'] tomb
    by (auto simp: DeleteTask_def expiredTombstones_def split: option.split)
qed

lemma typed_keepBatchOperation: "typed_store s \<Longrightarrow> typed_store (keepBatchOperation s q r p)"
proof -
  assume s: "typed_store s"
  then have inv: "ts_ok s" by (simp add: typed_store_def)
  have "doc_ok (batchKey q r) (POperation p)" by (simp add: batchKey_def)
  then have "docs_ok (db_view (snd (db_Commit (ts_db s) [OpPut (batchKey q r) (POperation p)])))"
    using s docs_ok_upd [of "ts_view s"]
    by (cases rule: db_Commit_cases [OF inv, of "[OpPut (batchKey q r) (POperation p)]"])
      (simp_all add: typed_store_def)
  then show ?thesis using s inv by (simp add: typed_store_def keepBatchOperation_def db_Put_commit)
qed

lemma typed_UpdateCmekConfig: "typed_store s \<Longrightarrow> typed_store (snd (UpdateCmekConfig s cfg paths))"
proof -
  assume s: "typed_store s"
  have "snd (clear_cmek s k) = s\<lparr>ts_db := snd (db_Delete (ts_db s) k)\<rparr>" for k
    by (auto simp: clear_cmek_def split: prod.split sum.split)
  then have "typed_store (snd (clear_cmek s (cmekKey (ck_Name cfg))))" using typed_db_Delete [OF s] by simp
  moreover have "typed_store (snd (put s (cmekKey (ck_Name cfg)) (JString (ck_KmsKey cfg))))"
    using s by (intro typed_put) (simp_all add: cmekKey_def)
  ultimately show ?thesis using s by (simp add: UpdateCmekConfig_def Let_def)
qed

lemmas typed_ops = typed_CreateQueue typed_UpdateQueue typed_SetIamPolicy typed_DeleteQueue typed_SetQueueState
  typed_PurgeQueue typed_CreateTask typed_DeleteTask typed_UpdateTask typed_RunTask typed_TakeRun
  typed_keepBatchOperation typed_UpdateCmekConfig

lemma typed_call: "typed_store s \<Longrightarrow> call_ok c \<Longrightarrow> typed_store (exec_call c s)"
proof (cases c)
  case (C_UpdateQueue wall nm update)
  assume "typed_store s" "call_ok c"
  with C_UpdateQueue show ?thesis using typed_UpdateQueue [of s update wall nm] by simp
qed (simp_all add: typed_ops)

lemma typed_calls: "typed_store s \<Longrightarrow> list_all call_ok calls \<Longrightarrow> typed_store (fold exec_call calls s)"
  by (induction calls arbitrary: s) (simp_all add: typed_call)

lemma typed_get_queue:
  "typed_store s \<Longrightarrow> (\<exists>v. db_Get (ts_db s) (queueKey nm) = Inr v) \<longleftrightarrow>
     (\<exists>q. GetQueue s nm = Inr q \<and> q_Name q = nm \<and> queue_ok q)"
proof -
  assume s: "typed_store s"
  have "\<exists>q. v = JQueue q" if "db_Get (ts_db s) (queueKey nm) = Inr v" for v
    using that s by (cases v) (auto simp: typed_store_def db.sget_Inr_iff queueKey_def taskKey_def dest!: docs_okD)
  then have "(\<exists>v. db_Get (ts_db s) (queueKey nm) = Inr v) \<longleftrightarrow> get_queue (ts_db s) (queueKey nm) \<noteq> None"
    by (cases "db_Get (ts_db s) (queueKey nm)") (auto simp: get_queue_def split: doc.split)
  then show ?thesis
    using typed_queue [OF s, of nm] by (cases "get_queue (ts_db s) (queueKey nm)") (simp_all add: GetQueue_def)
qed

lemma typed_get_task:
  "typed_store s \<Longrightarrow> (\<exists>v. db_Get (ts_db s) (taskKey nm) = Inr v) \<longleftrightarrow>
     (\<exists>t. GetTask s nm = Inr t \<and> t_Name t = nm \<and> task_ok t)"
proof -
  assume s: "typed_store s"
  have "\<exists>t. v = JTask t" if "db_Get (ts_db s) (taskKey nm) = Inr v" for v
    using that s by (cases v) (auto simp: typed_store_def db.sget_Inr_iff queueKey_def taskKey_def dest!: docs_okD)
  then have "(\<exists>v. db_Get (ts_db s) (taskKey nm) = Inr v) \<longleftrightarrow> get_task (ts_db s) (taskKey nm) \<noteq> None"
    by (cases "db_Get (ts_db s) (taskKey nm)") (auto simp: get_task_def split: doc.split)
  then show ?thesis
    using typed_task [OF s, of nm] by (cases "get_task (ts_db s) (taskKey nm)") (simp_all add: GetTask_def)
qed


lemma typed_fresh [simp]: "typed_store (NewStore (MemDB NewMemory))"
  by (simp add: typed_store_def NewStore_def docs_ok_def mem_inv_def mem_view_def NewMemory_def)


section \<open>What a write leaves alone\<close>

lemma put_other: "ts_ok s \<Longrightarrow> k' \<noteq> k \<Longrightarrow> ts_view (snd (put s k v)) k' = ts_view s k'"
  by (rule put_cases [of s k v]) simp_all

lemma spec_ops_other: "k \<notin> op_key ` set ops \<Longrightarrow> spec_ops ops f k = f k"
proof (induction ops arbitrary: f)
  case (Cons p ops)
  have "spec_op p f k = f k" using Cons.prems by (cases p) auto
  then show ?case using Cons by simp
qed simp

lemma commit_other: "ts_ok s \<Longrightarrow> k \<notin> op_key ` set ops \<Longrightarrow> ts_view (snd (commit s ops)) k = ts_view s k"
  by (rule commit_cases [of s ops]) (simp_all add: spec_ops_other)

lemma db_Delete_other: "db_inv d \<Longrightarrow> k' \<noteq> k \<Longrightarrow> db_view (snd (db_Delete d k)) k' = db_view d k'"
  by (rule db_Commit_cases [of d "[OpDelete k]"]) (simp_all add: db_Delete_commit)

lemma db_Put_other: "db_inv d \<Longrightarrow> k' \<noteq> k \<Longrightarrow> db_view (snd (db_Put d k v)) k' = db_view d k'"
  by (rule db_Commit_cases [of d "[OpPut k v]"]) (simp_all add: db_Put_commit)

lemma typed_ts_ok: "typed_store s \<Longrightarrow> ts_ok s"
  by (simp add: typed_store_def)

lemma key_kinds [simp]:
  "queueKey a \<noteq> taskKey b" "taskKey b \<noteq> queueKey a" "queueKey a \<noteq> tombstoneKey b" "tombstoneKey b \<noteq> queueKey a"
  "taskKey a \<noteq> tombstoneKey b" "tombstoneKey b \<noteq> taskKey a"
  "batchKey a r \<noteq> taskKey b" "batchKey a r \<noteq> tombstoneKey b" "batchKey a r \<noteq> queueKey b"
  "taskKey b \<noteq> batchKey a r" "tombstoneKey b \<noteq> batchKey a r" "queueKey b \<noteq> batchKey a r"
  "cmekKey a \<noteq> taskKey b" "cmekKey a \<noteq> tombstoneKey b" "cmekKey a \<noteq> queueKey b"
  "taskKey b \<noteq> cmekKey a" "tombstoneKey b \<noteq> cmekKey a" "queueKey b \<noteq> cmekKey a"
  by (simp_all add: queueKey_def taskKey_def tombstoneKey_def batchKey_def cmekKey_def)

lemma key_inject [simp]:
  "queueKey a = queueKey b \<longleftrightarrow> a = b" "taskKey a = taskKey b \<longleftrightarrow> a = b" "tombstoneKey a = tombstoneKey b \<longleftrightarrow> a = b"
  by (simp_all add: queueKey_def taskKey_def tombstoneKey_def)

lemma key_prefix [simp]:
  "HasPrefix (taskKey a) (taskKey b) \<longleftrightarrow> HasPrefix a b"
  "HasPrefix (tombstoneKey a) (tombstoneKey b) \<longleftrightarrow> HasPrefix a b"
  "\<not> HasPrefix (tombstoneKey a) (taskKey b)" "\<not> HasPrefix (taskKey a) (tombstoneKey b)"
  "\<not> HasPrefix (queueKey a) (tombstoneKey b)" "\<not> HasPrefix (queueKey a) (taskKey b)"
  by (simp_all add: queueKey_def taskKey_def tombstoneKey_def)

lemma op_key_deletes [simp]: "op_key ` set (map OpDelete ks) = set ks"
  by force

section \<open>A deleted task stays deleted\<close>

definition gone :: "string \<Rightarrow> time \<Rightarrow> tasks_store \<Rightarrow> bool" where
  "gone nm until s \<longleftrightarrow> typed_store s \<and> SafeKey (tombstoneKey nm) \<and>
     ts_view s (taskKey nm) = None \<and> ts_view s (tombstoneKey nm) = Some (JTime until)"

text \<open>The calls that respect a tombstone: those made before it expires, and no deletion of its queue.\<close>

fun before_expiry :: "string \<Rightarrow> time \<Rightarrow> store_call \<Rightarrow> bool" where
  "before_expiry nm until (C_CreateTask L now wall t) = (now < until)"
| "before_expiry nm until (C_DeleteTask now n) = (now < until)"
| "before_expiry nm until (C_DeleteQueue q) = (\<not> HasPrefix nm (q @ ''/tasks/''))"
| "before_expiry nm until c = True"

abbreviation same_at :: "string \<Rightarrow> tasks_store \<Rightarrow> tasks_store \<Rightarrow> bool" where
  "same_at nm s' s \<equiv> ts_view s' (taskKey nm) = ts_view s (taskKey nm) \<and>
     ts_view s' (tombstoneKey nm) = ts_view s (tombstoneKey nm)"

lemma gone_get:
  assumes "gone nm until s"
  shows "get_task (ts_db s) (taskKey nm) = None" "get_time (ts_db s) (tombstoneKey nm) = Some until"
proof -
  have inv: "ts_ok s" using assms by (simp add: gone_def typed_store_def)
  show "get_task (ts_db s) (taskKey nm) = None"
    using get_iff(2) [OF inv, of "taskKey nm"] assms by (cases "get_task (ts_db s) (taskKey nm)") (auto simp: gone_def)
  show "get_time (ts_db s) (tombstoneKey nm) = Some until"
    using assms by (simp add: get_iff(3) [OF inv] gone_def)
qed

lemma queue_puts_same_at: "ts_ok s \<Longrightarrow> same_at nm (snd (put s (queueKey q) v)) s"
  by (simp add: put_other)

lemma same_at_CreateTask:
  assumes "gone nm until s" "now < until"
  shows "same_at nm (snd (CreateTask L now wall s t)) s"
    and "t_Name t = nm \<Longrightarrow> \<exists>e. CreateTask L now wall s t = (Inl e, s)"
proof -
  have inv: "ts_ok s" using assms(1) by (simp add: gone_def typed_store_def)
  have "(t_Name t = nm \<longrightarrow> (\<exists>e. CreateTask L now wall s t = (Inl e, s))) \<and>
      same_at nm (snd (CreateTask L now wall s t)) s"
  proof (cases rule: CreateTask_cases [of L now wall s t])
    case c: (create n q s1)
    have other: "t_Name t \<noteq> nm" using c(4) gone_get(2) [OF assms(1)] assms(2) by auto
    then have "same_at nm s1 s" "ts_ok s1" using c(4) inv by (auto simp: db_Delete_other)
    with other c(5) show ?thesis by (simp add: put_other)
  qed auto
  then show "same_at nm (snd (CreateTask L now wall s t)) s"
    and "t_Name t = nm \<Longrightarrow> \<exists>e. CreateTask L now wall s t = (Inl e, s)" by simp_all
qed

lemma same_at_DeleteTask:
  assumes "gone nm until s" "now < until"
  shows "same_at nm (snd (DeleteTask now s n)) s"
proof (cases "get_task (ts_db s) (taskKey n)")
  case (Some t)
  have inv: "ts_ok s" "ts_ok (s\<lparr>ts_swept := now\<rparr>)" using assms(1) by (simp_all add: gone_def typed_store_def)
  have n: "n \<noteq> nm" using Some gone_get(1) [OF assms(1)] by auto
  let ?exp = "expiredTombstones (ts_db s) now"
  have exp: "taskKey nm \<notin> op_key ` set ?exp" "tombstoneKey nm \<notin> op_key ` set ?exp"
    using gone_get(2) [OF assms(1)] assms(2) db.slist_set [OF inv(1), of "''tasks/tombstones/''"]
    by (auto simp: expiredTombstones_def taskKey_def)
  show ?thesis
    using Some n exp commit_other [OF inv(1)] commit_other [OF inv(2)]
    by (auto simp: DeleteTask_def image_Un split: option.split)
qed (simp add: DeleteTask_def)

lemma commit_deletes_other:
  "ts_ok s \<Longrightarrow> k \<noteq> op_key p \<Longrightarrow> k \<notin> set ks \<Longrightarrow> ts_view (snd (commit s (p # map OpDelete ks))) k = ts_view s k"
  by (rule commit_other) auto

lemma same_at_DeleteQueue:
  assumes "ts_ok s" "\<not> HasPrefix nm (q @ ''/tasks/'')"
  shows "same_at nm (snd (DeleteQueue s q)) s"
proof (cases "db_Get (ts_db s) (queueKey q)")
  case (Inr v)
  let ?ks = "db_List (ts_db s) (taskKey (q @ ''/tasks/'')) @ db_List (ts_db s) (tombstoneKey (q @ ''/tasks/''))"
  have "taskKey nm \<notin> set ?ks" "tombstoneKey nm \<notin> set ?ks"
    using assms(2) by (auto simp: db.slist_set [OF assms(1)])
  then show ?thesis
    using Inr commit_deletes_other [OF assms(1)]
    by (simp add: DeleteQueue_def Let_def del: map_append set_append)
qed (simp add: DeleteQueue_def)

lemma same_at_PurgeQueue:
  assumes "gone nm until s"
  shows "same_at nm (snd (PurgeQueue now s q)) s"
proof -
  have inv: "ts_ok s" using assms by (simp add: gone_def typed_store_def)
  have "taskKey nm \<notin> set (db_List (ts_db s) (taskKey r))" "tombstoneKey nm \<notin> set (db_List (ts_db s) (taskKey r))" for r
    using assms by (auto simp: db.slist_set [OF inv] gone_def)
  then show ?thesis
    using commit_deletes_other [OF inv] by (auto simp: PurgeQueue_def Let_def split: option.split)
qed

lemma same_at_task_writes:
  assumes "gone nm until s"
  shows "same_at nm (snd (UpdateTask s t)) s" "same_at nm (snd (RunTask now s n)) s" "same_at nm (TakeRun s n requested) s"
proof -
  have inv: "ts_ok s" using assms by (simp add: gone_def typed_store_def)
  have other: "get_task (ts_db s) (taskKey m) = Some x \<Longrightarrow> nm \<noteq> m" for m x using gone_get(1) [OF assms] by auto
  show "same_at nm (snd (UpdateTask s t)) s" "same_at nm (snd (RunTask now s n)) s" "same_at nm (TakeRun s n requested) s"
    using inv other
    by (auto simp: UpdateTask_def RunTask_def TakeRun_def Let_def put_other split: option.split)
qed

lemma same_at_call:
  assumes "gone nm until s" "before_expiry nm until c"
  shows "same_at nm (exec_call c s) s"
proof -
  have inv: "ts_ok s" using assms(1) by (simp add: gone_def typed_store_def)
  show ?thesis
  proof (cases c)
    case (C_CreateQueue wall q)
    then show ?thesis using queue_puts_same_at [OF inv]
      by (auto simp: CreateQueue_def Let_def split: sum.split)
  next
    case (C_UpdateQueue wall n update)
    then show ?thesis using queue_puts_same_at [OF inv]
      by (auto simp: UpdateQueue_def Let_def split: sum.split prod.split)
  next
    case (C_SetIamPolicy lt_name rnd n req)
    then show ?thesis using queue_puts_same_at [OF inv]
      by (auto simp: SetIamPolicy_def split: sum.split option.split)
  next
    case (C_SetQueueState n st)
    then show ?thesis using queue_puts_same_at [OF inv]
      by (auto simp: SetQueueState_def Let_def split: option.split)
  next
    case (C_keepBatchOperation q r p)
    then show ?thesis using db_Put_other [OF inv] by (simp add: keepBatchOperation_def)
  next
    case (C_UpdateCmekConfig cfg paths)
    have "snd (clear_cmek s k) = s\<lparr>ts_db := snd (db_Delete (ts_db s) k)\<rparr>" for k
      by (auto simp: clear_cmek_def split: prod.split sum.split)
    with C_UpdateCmekConfig show ?thesis using db_Delete_other [OF inv] put_other [OF inv]
      by (simp add: UpdateCmekConfig_def Let_def)
  qed (use assms inv in \<open>simp_all add: same_at_CreateTask(1) same_at_DeleteTask same_at_DeleteQueue
      same_at_PurgeQueue same_at_task_writes\<close>)
qed

lemma gone_calls:
  "gone nm until s \<Longrightarrow> list_all (\<lambda>c. call_ok c \<and> before_expiry nm until c) calls \<Longrightarrow>
   gone nm until (fold exec_call calls s)"
proof (induction calls arbitrary: s)
  case (Cons c calls)
  have "gone nm until (exec_call c s)"
    using Cons.prems same_at_call [of nm until s c] typed_call [of s c] by (simp add: gone_def)
  then show ?case using Cons by simp
qed simp

lemma DeleteTask_gone:
  assumes "typed_store s" "GetTask s nm = Inr t" "\<not> t_NamedByServer t" "get_time (ts_db s) (tombstoneKey nm) = None"
    and del: "DeleteTask now s nm = (Inr (), s1)"
  shows "gone nm (now + TombstoneTTL) s1"
proof -
  have t: "get_task (ts_db s) (taskKey nm) = Some t"
    using assms(2) by (simp add: GetTask_def split: option.splits)
  let ?tomb = "OpPut (tombstoneKey nm) (JTime (now + TombstoneTTL))" and ?exp = "expiredTombstones (ts_db s) now"
  define s0 where "s0 = (if tombstoneSweep \<le> time_sub now (ts_swept s) then s\<lparr>ts_swept := now\<rparr> else s)"
  define ops where "ops = OpDelete (taskKey nm) # ?tomb # (if tombstoneSweep \<le> time_sub now (ts_swept s) then ?exp else [])"
  have s0: "ts_ok s0" "ts_view s0 = ts_view s" using assms(1) by (simp_all add: s0_def typed_store_def)
  have exp: "taskKey nm \<notin> op_key ` set ?exp" "tombstoneKey nm \<notin> op_key ` set ?exp"
    using assms(4) s0 db.slist_set [of "ts_db s" "''tasks/tombstones/''"] assms(1)
    by (auto simp: expiredTombstones_def taskKey_def typed_store_def)
  have c: "commit s0 ops = (Inr (), s1)"
    using del t assms(3) by (auto simp: DeleteTask_def s0_def ops_def split: option.splits if_splits)
  then have "ts_view s1 = spec_ops ops (ts_view s)" "list_all (\<lambda>x. SafeKey (op_key x)) ops"
    using s0 by (rule_tac commit_cases [OF s0(1), of ops]; simp)+
  moreover have "typed_store s1" using typed_DeleteTask [OF assms(1), of now nm] del by simp
  ultimately show ?thesis
    using exp by (simp add: gone_def ops_def spec_ops_other)
qed

text \<open>C7: A task that was deleted stays deleted. Until its tombstone expires an hour later, whatever calls
  follow, the write-back of an attempt that was in flight and new creations included, but for a
  deletion of its queue, the task is not found and creating it again is refused.\<close>

theorem deleted_task_stays_deleted:
  assumes "typed_store s" "GetTask s nm = Inr t" "\<not> t_NamedByServer t" "get_time (ts_db s) (tombstoneKey nm) = None"
    and del: "DeleteTask now s nm = (Inr (), s1)"
    and calls: "list_all (\<lambda>c. call_ok c \<and> before_expiry nm (now + TombstoneTTL) c) calls"
    and s2: "s2 = fold exec_call calls s1"
    and again: "t_Name t2 = nm" "now2 < now + TombstoneTTL"
  shows "GetTask s2 nm = Inl NotFound \<and> (\<exists>e. CreateTask L now2 wall s2 t2 = (Inl e, s2))"
proof -
  have "gone nm (now + TombstoneTTL) s1" using DeleteTask_gone [OF assms(1-4) del] .
  then have g: "gone nm (now + TombstoneTTL) s2" using calls s2 by (simp add: gone_calls)
  then show ?thesis
    using gone_get(1) [OF g] same_at_CreateTask(2) [OF g again(2,1)] by (simp add: GetTask_def)
qed

section \<open>A concrete queue and task\<close>

definition demo_queue :: string where
  "demo_queue = ''projects/demo-1/locations/us/queues/q''"

definition demo_task :: string where
  "demo_task = ''projects/demo-1/locations/us/queues/q/tasks/t''"

definition demo_t :: task where
  "demo_t = zero_task\<lparr>t_Name := demo_task, t_Queue := demo_queue,
     t_HTTPRequest := Some \<lparr>hr_URL = ''http://h/'', hr_Method = ''POST'', hr_Headers = [], hr_Body = [],
       hr_OIDCToken = None, hr_OAuthToken = None\<rparr>\<rparr>"

lemma Parse_demo_task: "Parse demo_task = Some \<lparr>Project = ''demo-1'', Location = ''us'', Collection = ''tasks'',
    ID = ''t'', ParentCollection = ''queues'', ParentID = ''q''\<rparr>"
  by (simp add: demo_task_def parse_eval)

lemma Parse_demo_queue: "Parse demo_queue = Some \<lparr>Project = ''demo-1'', Location = ''us'', Collection = ''queues'',
    ID = ''q'', ParentCollection = [], ParentID = []\<rparr>"
  by (simp add: demo_queue_def parse_eval)

lemma SafeKey_demo: "SafeKey (taskKey demo_task)" "SafeKey (tombstoneKey demo_task)" "SafeKey (queueKey demo_queue)"
  by code_simp+

lemma task_ok_demo: "task_ok demo_t"
  by (simp add: task_ok_def demo_t_def zero_task_def check_task_def Parse_demo_task demo_queue_def taskIDRE_def
      char_class_defs)

fun demo_method_String :: "http_method \<Rightarrow> string" where
  "demo_method_String HTTP_METHOD_UNSPECIFIED = ''HTTP_METHOD_UNSPECIFIED''"
| "demo_method_String POST = ''POST''"
| "demo_method_String GET = ''GET''"
| "demo_method_String HEAD = ''HEAD''"
| "demo_method_String PUT = ''PUT''"
| "demo_method_String DELETE = ''DELETE''"
| "demo_method_String OPTIONS = ''OPTIONS''"
| "demo_method_String (OtherMethod n) = int_dec n"

text \<open>A library whose marshalled form names one target: enough where a single target is stored.\<close>

definition demo_lib :: "http_target_pb \<Rightarrow> pb_lib" where
  "demo_lib ht = \<lparr>method_String = demo_method_String,
     HttpMethod_value = (\<lambda>s. List.find (\<lambda>m. demo_method_String m = s) [POST, GET, HEAD, PUT, DELETE, OPTIONS]),
     scheme_String = (\<lambda>n. if n = 1 then ''HTTP'' else ''HTTPS''), target_Size = (\<lambda>_. 1),
     target_Marshal = (\<lambda>_. ''target''), target_Unmarshal = (\<lambda>_. Some ht),
     url_Parse = (\<lambda>s. Some \<lparr>u_Scheme = ''http'', u_Host = [], u_Path = s, u_RawPath = [], u_RawQuery = [], u_Other = []\<rparr>),
     url_String = (\<lambda>u. u_Scheme u @ ''://'' @ u_Host u @ u_Path u)\<rparr>"

definition demo_target :: http_target_pb where
  "demo_target = \<lparr>ht_UriOverride = None, ht_HttpMethod = HTTP_METHOD_UNSPECIFIED, ht_HeaderOverrides = [],
     ht_Authorization = NoAuth\<rparr>"

definition demo_store :: tasks_store where
  "demo_store = \<lparr>ts_db = MemDB \<lparr>mem_data = [(taskKey demo_task, JTask demo_t)]\<rparr>, ts_swept = zero_time\<rparr>"

definition demo_deleted :: tasks_store where
  "demo_deleted = \<lparr>ts_db = MemDB \<lparr>mem_data = [(tombstoneKey demo_task, JTime (5 + TombstoneTTL))]\<rparr>, ts_swept = zero_time\<rparr>"

lemma typed_demo_store: "typed_store demo_store"
  using task_ok_demo
  by (auto simp: typed_store_def demo_store_def docs_ok_def mem_inv_def mem_view_def gomap_ok_def demo_t_def
      split: if_splits)

lemma demo_store_gets: "GetTask demo_store demo_task = Inr demo_t" "get_time (ts_db demo_store) (tombstoneKey demo_task) = None"
  using SafeKey_demo
  by (simp_all add: GetTask_def get_task_def get_time_def demo_store_def Memory_Get_def checkKey_def)

lemma demo_delete: "DeleteTask 5 demo_store demo_task = (Inr (), demo_deleted)"
proof -
  have t: "get_task (ts_db demo_store) (taskKey demo_task) = Some demo_t" "\<not> t_NamedByServer demo_t"
    using demo_store_gets(1) by (simp_all add: GetTask_def demo_t_def zero_task_def split: option.splits)
  have "json_Marshal (JTime (5 + TombstoneTTL)) = Some (JTime (5 + TombstoneTTL))"
    by (simp add: time_json_ok_def nanos_per_day_def TombstoneTTL_def Hour_def)
  moreover have "\<not> tombstoneSweep \<le> time_sub 5 (ts_swept demo_store)"
    by (simp add: tombstoneSweep_def Minute_def time_sub_def demo_store_def max_int64_def min_int64_def)
  ultimately show ?thesis
    using t SafeKey_demo
    by (simp add: DeleteTask_def commit_def demo_store_def demo_deleted_def MemDB_commit del: db_Commit.simps json_Marshal.simps)
qed

theorem deleted_task_stays_deleted_witness:
  "GetTask (fold exec_call [C_UpdateTask demo_t] demo_deleted) demo_task = Inl NotFound \<and>
   (\<exists>e. CreateTask (demo_lib demo_target) 7 7 (fold exec_call [C_UpdateTask demo_t] demo_deleted) demo_t =
      (Inl e, fold exec_call [C_UpdateTask demo_t] demo_deleted))"
  using deleted_task_stays_deleted [OF typed_demo_store demo_store_gets(1) _ demo_store_gets(2) demo_delete _ refl,
      of "[C_UpdateTask demo_t]" demo_t 7] task_ok_demo
  by (simp add: demo_t_def zero_task_def TombstoneTTL_def Hour_def)

section \<open>What is due\<close>

definition is_due :: "doc db \<Rightarrow> time \<Rightarrow> task \<Rightarrow> bool" where
  "is_due d now t \<longleftrightarrow> t_RunRequested t \<noteq> zero_time \<or> t_ScheduleTime t \<le> now \<and> is_running d (t_Queue t)"

definition cache_ok :: "doc db \<Rightarrow> bool gomap \<Rightarrow> bool" where
  "cache_ok d running \<longleftrightarrow> (\<forall>q b. map_of running q = Some b \<longrightarrow> b = is_running d q)"

lemma cache_ok_update: "cache_ok d running \<Longrightarrow> cache_ok d (AList.update q (is_running d q) running)"
  by (simp add: cache_ok_def update_conv')

lemma due_tasks_eq:
  "cache_ok d running \<Longrightarrow> due_tasks d now ks running = filter (is_due d now) (List.map_filter (get_task d) ks)"
proof (induction ks arbitrary: running)
  case (Cons k ks)
  show ?case
  proof (cases "get_task d k")
    case None
    then show ?thesis using Cons by (simp add: map_filter_simps)
  next
    case (Some t)
    have IH: "due_tasks d now ks running = filter (is_due d now) (List.map_filter (get_task d) ks)"
      "due_tasks d now ks (AList.update (t_Queue t) (is_running d (t_Queue t)) running) =
       filter (is_due d now) (List.map_filter (get_task d) ks)"
      using Cons.IH [OF Cons.prems] Cons.IH [OF cache_ok_update [OF Cons.prems]] by simp_all
    have "map_of running (t_Queue t) = Some b \<Longrightarrow> b = is_running d (t_Queue t)" for b
      using Cons.prems by (simp add: cache_ok_def)
    with Some IH show ?thesis
      by (cases "map_of running (t_Queue t)"; cases "is_running d (t_Queue t)")
        (simp_all add: map_filter_simps is_due_def [of d now t] Let_def)
  qed
qed (simp add: map_filter_simps)

lemma distinct_map_filter_key:
  assumes "\<And>x y. f x = Some y \<Longrightarrow> x = g (h y)"
  shows "distinct xs \<Longrightarrow> distinct (map h (List.map_filter f xs))"
proof (induction xs)
  case (Cons x xs)
  show ?case
  proof (cases "f x")
    case (Some y)
    have "h y \<notin> h ` set (List.map_filter f xs)"
    proof
      assume "h y \<in> h ` set (List.map_filter f xs)"
      then obtain z x' where "h y = h z" "x' \<in> set xs" "f x' = Some z" by (auto simp: set_map_filter)
      with assms [OF Some] assms [of x' z] Cons.prems show False by simp
    qed
    with Some Cons show ?thesis by (simp add: map_filter_simps)
  qed (use Cons in \<open>simp add: map_filter_simps\<close>)
qed (simp add: map_filter_simps)

lemma typed_listed_task:
  assumes "typed_store s" "get_task (ts_db s) k = Some t"
  shows "k = taskKey (t_Name t)"
  using assms by (auto simp: typed_store_def get_iff dest!: docs_okD)

lemma set_all_tasks:
  assumes "typed_store s"
  shows "set (List.map_filter (get_task (ts_db s)) (db_List (ts_db s) ''tasks/tasks/'')) = {t. GetTask s (t_Name t) = Inr t}"
proof -
  have inv: "ts_ok s" using assms by (simp add: typed_store_def)
  have "(\<exists>k \<in> set (db_List (ts_db s) ''tasks/tasks/''). get_task (ts_db s) k = Some t) \<longleftrightarrow>
      get_task (ts_db s) (taskKey (t_Name t)) = Some t" for t
  proof
    assume "\<exists>k \<in> set (db_List (ts_db s) ''tasks/tasks/''). get_task (ts_db s) k = Some t"
    then show "get_task (ts_db s) (taskKey (t_Name t)) = Some t" using typed_listed_task [OF assms, of _ t] by auto
  next
    assume t: "get_task (ts_db s) (taskKey (t_Name t)) = Some t"
    then have "taskKey (t_Name t) \<in> set (db_List (ts_db s) ''tasks/tasks/'')"
      by (simp add: db.slist_set [OF inv] get_iff(2) [OF inv] domIff) (simp add: taskKey_def)
    with t show "\<exists>k \<in> set (db_List (ts_db s) ''tasks/tasks/''). get_task (ts_db s) k = Some t" by blast
  qed
  then show ?thesis by (auto simp: set_map_filter GetTask_def split: option.splits)
qed

text \<open>C20: \<open>DueTasks\<close> returns, sorted by name and each once, exactly the stored tasks that \<open>RunTask\<close> forces,
  whatever their queue, and those scheduled at or before the time whose queue exists and is running;
  the cache of queue states it keeps on the way changes nothing.\<close>

theorem DueTasks_exact:
  assumes "typed_store s"
  shows "sorted (map t_Name (DueTasks s now)) \<and> distinct (map t_Name (DueTasks s now)) \<and>
    set (DueTasks s now) = {t. GetTask s (t_Name t) = Inr t \<and>
      (t_RunRequested t \<noteq> zero_time \<or>
       t_ScheduleTime t \<le> now \<and> (\<exists>q. GetQueue s (t_Queue t) = Inr q \<and> q_State q = StateRunning))}"
proof -
  let ?d = "ts_db s"
  let ?all = "List.map_filter (get_task ?d) (db_List ?d ''tasks/tasks/'')"
  have inv: "ts_ok s" using assms by (simp add: typed_store_def)
  have eq: "DueTasks s now = sort_key t_Name (filter (is_due ?d now) ?all)"
    by (simp add: DueTasks_def due_tasks_eq cache_ok_def)
  have "distinct (map t_Name ?all)"
    using typed_listed_task [OF assms] db.slist_distinct [OF inv] by (rule distinct_map_filter_key)
  then have "distinct (map t_Name (filter (is_due ?d now) ?all))" by (rule distinct_map_filter)
  then have "distinct (map t_Name (DueTasks s now))"
    unfolding eq by (simp add: distinct_map)
  moreover have "is_running ?d nm \<longleftrightarrow> (\<exists>q. GetQueue s nm = Inr q \<and> q_State q = StateRunning)" for nm
    by (simp add: is_running_def GetQueue_def split: option.split)
  ultimately show ?thesis
    using set_all_tasks [OF assms] unfolding eq by (auto simp: is_due_def)
qed

definition demo_q :: queue where
  "demo_q = zero_queue\<lparr>q_Name := demo_queue, q_State := StateRunning, q_RetryConfig := DefaultCloudTasksBackoff,
     q_RateLimits := DefaultRateLimits\<rparr>"

definition demo_full :: tasks_store where
  "demo_full = \<lparr>ts_db = MemDB \<lparr>mem_data = [(queueKey demo_queue, JQueue demo_q), (taskKey demo_task, JTask demo_t)]\<rparr>,
     ts_swept = zero_time\<rparr>"

lemma queue_ok_demo: "queue_ok demo_q"
  by (simp add: queue_ok_def demo_q_def zero_queue_def checkQueueName_def Parse_demo_queue queueIDRE_def
      char_class_defs retry_ok_def rate_ok_def DefaultCloudTasksBackoff_def DefaultRateLimits_def f64_finite_def
      IsInf_def duration_defs)

lemma typed_demo_full: "typed_store demo_full"
  using task_ok_demo queue_ok_demo
  by (auto simp: typed_store_def demo_full_def docs_ok_def mem_inv_def mem_view_def gomap_ok_def demo_t_def demo_q_def
      split: if_splits)

lemma demo_full_gets: "GetTask demo_full demo_task = Inr demo_t" "GetQueue demo_full demo_queue = Inr demo_q"
  using SafeKey_demo
  by (simp_all add: GetTask_def get_task_def GetQueue_def get_queue_def demo_full_def Memory_Get_def checkKey_def)

theorem DueTasks_exact_witness: "demo_t \<in> set (DueTasks demo_full 10)"
  using DueTasks_exact [OF typed_demo_full, of 10] demo_full_gets
  by (simp add: demo_t_def demo_q_def zero_task_def)

section \<open>Deleting a queue\<close>

text \<open>Deleting a queue removes, in one step, the queue, every task whose name lies under it and every
  tombstone of such a task, and nothing else; if it fails the store is as it was.\<close>

theorem DeleteQueue_exact:
  assumes "typed_store s" "DeleteQueue s nm = (r, s')"
  shows "case r of
      Inl e \<Rightarrow> ts_view s' = ts_view s
    | Inr _ \<Rightarrow> \<forall>k. ts_view s' k =
        (if k = queueKey nm \<or> HasPrefix k (taskKey (nm @ ''/tasks/'')) \<or> HasPrefix k (tombstoneKey (nm @ ''/tasks/''))
         then None else ts_view s k)"
proof (cases "db_Get (ts_db s) (queueKey nm)")
  case (Inl e)
  then show ?thesis using assms(2) by (auto simp: DeleteQueue_def)
next
  case (Inr v)
  have inv: "ts_ok s" using assms(1) by (simp add: typed_store_def)
  let ?ks = "queueKey nm # db_List (ts_db s) (taskKey (nm @ ''/tasks/'')) @ db_List (ts_db s) (tombstoneKey (nm @ ''/tasks/''))"
  have c: "commit s (map OpDelete ?ks) = (r, s')"
    using Inr assms(2) by (simp add: DeleteQueue_def Let_def)
  have "(if k \<in> set ?ks then None else ts_view s k) =
      (if k = queueKey nm \<or> HasPrefix k (taskKey (nm @ ''/tasks/'')) \<or> HasPrefix k (tombstoneKey (nm @ ''/tasks/''))
       then None else ts_view s k)" for k
    by (cases "ts_view s k") (auto simp: db.slist_set [OF inv])
  then show ?thesis
    using c by (cases rule: commit_cases [OF inv, of "map OpDelete ?ks"])
      (auto simp: spec_ops_deletes simp del: list.map map_append)
qed

theorem DeleteQueue_exact_witness:
  "ts_view (snd (DeleteQueue demo_full demo_queue)) (taskKey demo_task) = None"
proof -
  have "list_all (\<lambda>x. SafeKey (op_key x)) (map OpDelete [queueKey demo_queue, taskKey demo_task] :: doc op list)"
    using SafeKey_demo by simp
  moreover have "db_List (ts_db demo_full) (taskKey (demo_queue @ ''/tasks/'')) = [taskKey demo_task]"
    "db_List (ts_db demo_full) (tombstoneKey (demo_queue @ ''/tasks/'')) = []"
    by (simp_all add: demo_full_def Memory_List_def gokeys_def) (simp_all add: demo_queue_def demo_task_def)
  ultimately have ok: "fst (DeleteQueue demo_full demo_queue) = Inr ()"
    using SafeKey_demo
    by (simp add: DeleteQueue_def demo_full_def Memory_Get_def checkKey_def Let_def commit_def MemDB_commit
        del: db_Commit.simps)
  have "HasPrefix (taskKey demo_task) (taskKey (demo_queue @ ''/tasks/''))"
    by (simp add: demo_queue_def demo_task_def)
  then show ?thesis
    using DeleteQueue_exact [OF typed_demo_full prod.collapse [symmetric], of demo_queue] ok by simp
qed

section \<open>Accepted names make safe keys\<close>

definition clean :: "string \<Rightarrow> bool" where
  "clean x \<longleftrightarrow> list_all (\<lambda>bad. \<not> Contains (ToLower x) bad) bad_key_parts"

lemma SafeKey_clean: "SafeKey k \<longleftrightarrow> k \<noteq> [] \<and> \<not> HasPrefix k ''/'' \<and> clean k"
  by (simp add: SafeKey_def clean_def)

text \<open>No bad part spans a slash.\<close>

lemma sublist_sep: "c \<notin> set bad \<Longrightarrow> sublist bad (x @ c # y) \<longleftrightarrow> sublist bad x \<or> sublist bad y"
proof
  assume c: "c \<notin> set bad" and "sublist bad (x @ c # y)"
  then obtain p r where pr: "x @ c # y = p @ bad @ r" by (auto simp: sublist_def)
  then consider us where "x = p @ us" "us @ c # y = bad @ r" | us where "x @ us = p" "c # y = us @ bad @ r"
    by (auto simp: append_eq_append_conv2)
  then show "sublist bad x \<or> sublist bad y"
  proof cases
    case 1
    then show ?thesis using c by (auto simp: append_eq_append_conv2 append_eq_Cons_conv Cons_eq_append_conv)
  next
    case 2
    then show ?thesis using c by (cases us) (auto simp: Cons_eq_append_conv)
  qed
qed (auto simp: sublist_append sublist_Cons_right)

lemma bad_key_parts_no_slash: "bad \<in> set bad_key_parts \<Longrightarrow> CHR ''/'' \<notin> set bad"
  by (auto simp: bad_key_parts_def)

lemma clean_slash: "clean (x @ CHR ''/'' # y) \<longleftrightarrow> clean x \<and> clean y"
proof -
  have "ToLower (x @ CHR ''/'' # y) = ToLower x @ CHR ''/'' # ToLower y" by (simp add: ToLower_def lower_char_def)
  then show ?thesis
    using bad_key_parts_no_slash by (auto simp: clean_def list_all_iff sublist_sep)
qed

lemma clean_chars:
  assumes "list_all (\<lambda>c. c \<noteq> CHR ''.'' \<and> c \<noteq> CHR ''%'' \<and> c \<noteq> CHR 0x00 \<and> c \<noteq> CHR 0x5C) x"
  shows "clean x"
proof -
  have no: "d \<notin> {CHR ''.'', CHR ''%'', CHR 0x00, CHR 0x5C}" if d: "d \<in> set (ToLower x)" for d
  proof -
    obtain c where c: "c \<in> set x" "d = lower_char c" using d by (auto simp: ToLower_def)
    with assms have "c \<noteq> CHR ''.'' \<and> c \<noteq> CHR ''%'' \<and> c \<noteq> CHR 0x00 \<and> c \<noteq> CHR 0x5C"
      unfolding list_all_iff by blast
    then show ?thesis unfolding c(2) by simp
  qed
  have "\<not> Contains (ToLower x) bad" if "bad \<in> set bad_key_parts" for bad
  proof
    assume "Contains (ToLower x) bad"
    then have "set bad \<subseteq> set (ToLower x)" by (rule set_mono_sublist)
    moreover have "hd bad \<in> set bad" "hd bad \<in> {CHR ''.'', CHR ''%'', CHR 0x00, CHR 0x5C}"
      using that by (auto simp: bad_key_parts_def)
    ultimately show False using no by blast
  qed
  then show ?thesis by (simp add: clean_def list_all_iff)
qed

lemma ValidID_clean: "ValidID i \<Longrightarrow> clean i"
proof -
  assume v: "ValidID i"
  then have "CHR 0x5C \<notin> set i" unfolding ValidID_def list_ex_iff by blast
  then have "CHR 0x5C \<notin> set (ToLower i)" by (simp add: ToLower_def image_iff)
  with v show ?thesis
    by (simp add: clean_def ValidID_def bad_key_parts_def bad_id_parts_def) (metis list.set_intros(1) set_mono_sublist subsetD)
qed

lemma projectRE_clean: "projectRE p \<Longrightarrow> clean p"
  by (rule clean_chars) (auto simp: projectRE_def list_all_iff char_class_defs)

lemma locationRE_clean: "locationRE l \<Longrightarrow> clean l"
proof -
  assume l: "locationRE l"
  have "\<forall>c \<in> set q. is_lower c \<or> is_digit c" if "q \<in> set (split_on (CHR ''-'') l)" for q
    using that l by (auto simp: locationRE_def list_all_iff split: list.splits)
  then have l: "c = CHR ''-'' \<or> is_lower c \<or> is_digit c" if "c \<in> set l" for c
    using that set_join_subset [of "[CHR ''-'']" "split_on (CHR ''-'') l"] by auto
  have "c \<noteq> CHR ''.'' \<and> c \<noteq> CHR ''%'' \<and> c \<noteq> CHR 0x00 \<and> c \<noteq> CHR 0x5C" if "c \<in> set l" for c
    using l [OF that] by (auto simp: char_class_defs)
  then show ?thesis by (intro clean_chars) (simp add: list_all_iff)
qed

lemma check_task_safe:
  assumes "check_task t = Inr n"
  shows "SafeKey (taskKey (t_Name t)) \<and> SafeKey (tombstoneKey (t_Name t))"
proof -
  have n: "Parse (t_Name t) = Some n" "Collection n = ''tasks''" "ParentCollection n = ''queues''"
    using assms by (auto simp: check_task_def split: option.splits if_splits)
  then have "t_Name t = Name_String n" "name_ok n" using Parse_iff by blast+
  then have "t_Name t = ''projects'' @ CHR ''/'' # Project n @ CHR ''/'' # ''locations'' @ CHR ''/'' # Location n @
      CHR ''/'' # ''queues'' @ CHR ''/'' # ParentID n @ CHR ''/'' # ''tasks'' @ CHR ''/'' # ID n"
    using n by (simp add: Name_String_def)
  moreover have "clean (Project n)" "clean (Location n)" "clean (ParentID n)" "clean (ID n)"
    using \<open>name_ok n\<close> n by (simp_all add: name_ok_def ValidID_clean projectRE_clean locationRE_clean)
  moreover have words: "clean ''projects''" "clean ''locations''" "clean ''queues''" "clean ''tasks''" "clean ''tombstones''"
    by (rule clean_chars, simp)+
  ultimately have "clean (t_Name t)" by (simp add: clean_slash del: append.simps)
  then have "clean (taskKey (t_Name t))" "clean (tombstoneKey (t_Name t))"
    using clean_slash [of "''tasks/tasks''" "t_Name t"] clean_slash [of "''tasks/tombstones''" "t_Name t"]
      clean_slash [of "''tasks''" "''tasks''"] clean_slash [of "''tasks''" "''tombstones''"] words
    by (simp_all add: taskKey_def tombstoneKey_def)
  then show ?thesis by (simp add: SafeKey_clean taskKey_def tombstoneKey_def)
qed

text \<open>Every task name \<open>CreateTask\<close> accepts makes safe keys, so the store never refuses a task or its
  tombstone for its key.\<close>

theorem accepted_task_names_are_safe:
  assumes "check_task t = Inr n"
  shows "SafeKey (taskKey (t_Name t)) \<and> SafeKey (tombstoneKey (t_Name t))"
  using assms by (rule check_task_safe)

theorem accepted_task_names_are_safe_witness: "SafeKey (taskKey demo_task)"
proof -
  have "check_task demo_t = Inr \<lparr>Project = ''demo-1'', Location = ''us'', Collection = ''tasks'', ID = ''t'',
      ParentCollection = ''queues'', ParentID = ''q''\<rparr>"
    by (simp add: demo_t_def zero_task_def check_task_def Parse_demo_task taskIDRE_def char_class_defs)
  from accepted_task_names_are_safe [OF this] show ?thesis by (simp add: demo_t_def)
qed

end
