(* ===== verification/Tasks_Dispatch.thy ===== *)
theory Tasks_Dispatch
  imports Tasks_Store
begin

text \<open>
  One attempt of a task: \<open>Dispatcher\<close> in \<open>dispatch.go\<close>, its App Engine part in
  \<open>appengine1447.go\<close> and its log entries in \<open>logging1256.go\<close>. The target's answer is an input of
  the model, and so are the clock's readings and the random number sampling draws. Tracing, which
  only decorates the request, is off. What an attempt tells the observer and Cloud Logging is the list
  of its events.
\<close>

section \<open>Names and headers\<close>

definition queueOf :: "string \<Rightarrow> string" where
  "queueOf taskName = (case Index taskName ''/tasks/'' of Some i \<Rightarrow> take i taskName | None \<Rightarrow> taskName)"

definition DefaultDispatchDeadline :: duration where
  "DefaultDispatchDeadline = 10 * Minute"

definition attempt_deadline :: "task \<Rightarrow> duration" where
  "attempt_deadline t = (if t_DispatchDeadline t \<le> 0 then DefaultDispatchDeadline else t_DispatchDeadline t)"

definition DefaultOAuthScope :: string where
  "DefaultOAuthScope = ''https://www.googleapis.com/auth/cloud-platform''"

text \<open>The bytes of a token of RFC 9110, and \<open>textproto.CanonicalMIMEHeaderKey\<close>.\<close>

definition token_char :: "char \<Rightarrow> bool" where
  "token_char c \<longleftrightarrow> is_alnum c \<or> c \<in> set (CHR 0x27 # CHR 0x60 # ''!#$%&*+-.^_|~'')"

fun canonical :: "bool \<Rightarrow> string \<Rightarrow> string" where
  "canonical upper [] = []"
| "canonical upper (c # cs) =
     (let c' = (if upper then upper_char c else lower_char c) in c' # canonical (c' = CHR ''-'') cs)"

definition CanonicalHeaderKey :: "string \<Rightarrow> string" where
  "CanonicalHeaderKey k = (if list_all token_char k then canonical True k else k)"

definition header_Set :: "string gomap \<Rightarrow> string \<Rightarrow> string \<Rightarrow> string gomap" where
  "header_Set m k v = AList.update (CanonicalHeaderKey k) v m"

definition header_Get :: "string gomap \<Rightarrow> string \<Rightarrow> string" where
  "header_Get m k = (case map_of m (CanonicalHeaderKey k) of Some v \<Rightarrow> v | None \<Rightarrow> [])"

text \<open>
  What of an \<open>http.Request\<close> matters here; without \<open>rq_Host\<close> the host is the URL's.
  \<open>http.NewRequestWithContext\<close> fails on a method that is no token and on a URL that does not parse.
\<close>

record http_req =
  rq_Method :: string
  rq_URL :: string
  rq_Host :: "string option"
  rq_Headers :: "string gomap"
  rq_Body :: string

definition NewRequest :: "pb_lib \<Rightarrow> string \<Rightarrow> string \<Rightarrow> string \<Rightarrow> http_req option" where
  "NewRequest L meth u body =
     (let meth = (if meth = [] then ''GET'' else meth) in
      if \<not> list_all token_char meth then None
      else case url_Parse L u of
             None \<Rightarrow> None
           | Some _ \<Rightarrow> Some \<lparr>rq_Method = meth, rq_URL = u, rq_Host = None, rq_Headers = [], rq_Body = body\<rparr>)"

section \<open>The dispatcher\<close>

text \<open>\<open>TokenMinter\<close> is implemented elsewhere; \<open>None\<close> is an error.\<close>

record minter =
  ServiceAccountIDToken :: "string \<Rightarrow> string \<Rightarrow> string option"
  ServiceAccountAccessToken :: "string \<Rightarrow> string \<Rightarrow> string option"

record dispatcher =
  dp_lib :: pb_lib
  dp_tokens :: "minter option"
  dp_logs :: bool
  dp_appEngine :: string

definition NewDispatcher :: "pb_lib \<Rightarrow> dispatcher" where
  "NewDispatcher L = \<lparr>dp_lib = L, dp_tokens = None, dp_logs = False, dp_appEngine = []\<rparr>"

definition WithTokens :: "dispatcher \<Rightarrow> minter \<Rightarrow> dispatcher" where
  "WithTokens D m = D\<lparr>dp_tokens := Some m\<rparr>"

definition WithLogging :: "dispatcher \<Rightarrow> dispatcher" where
  "WithLogging D = D\<lparr>dp_logs := True\<rparr>"

definition WithAppEngine :: "dispatcher \<Rightarrow> string \<Rightarrow> dispatcher" where
  "WithAppEngine D base = D\<lparr>dp_appEngine := TrimSuffix base ''/''\<rparr>"

definition RetryBackoff :: "retry_config \<Rightarrow> ct_backoff" where
  "RetryBackoff rc = WithDefaults rc"

text \<open>The headers with the \<open>Authorization\<close> the task asks for, or an error.\<close>

definition authorize :: "dispatcher \<Rightarrow> http_request \<Rightarrow> string gomap \<Rightarrow> string gomap option" where
  "authorize D hr headers =
     (if hr_OIDCToken hr = None \<and> hr_OAuthToken hr = None then Some headers
      else case dp_tokens D of
             None \<Rightarrow> None
           | Some m \<Rightarrow>
               (case (case hr_OIDCToken hr of
                        Some tok \<Rightarrow> ServiceAccountIDToken m (oi_ServiceAccountEmail tok)
                          (if oi_Audience tok = [] then hr_URL hr else oi_Audience tok)
                      | None \<Rightarrow> (case hr_OAuthToken hr of
                          Some tok \<Rightarrow> ServiceAccountAccessToken m (oa_ServiceAccountEmail tok)
                            (if oa_Scope tok = [] then DefaultOAuthScope else oa_Scope tok)
                        | None \<Rightarrow> None)) of
                  None \<Rightarrow> None
                | Some tok \<Rightarrow> Some (header_Set headers ''Authorization'' (''Bearer '' @ tok))))"

definition set_headers :: "string gomap \<Rightarrow> (string \<times> string) list \<Rightarrow> string gomap" where
  "set_headers m hs = foldl (\<lambda>m (k, v). header_Set m k v) m hs"

text \<open>
  The instant as the number of seconds since 1970 that \<open>strconv.FormatFloat(x, 'f', 6, 64)\<close>
  prints: rounded to the nearest millionth, ties to even.
\<close>

definition unix_epoch :: time where
  "unix_epoch = 62135596800 * Second"

definition UnixMicro :: "time \<Rightarrow> int" where
  "UnixMicro t = to_int64 ((t - unix_epoch) div 1000)"

definition pad6 :: "nat \<Rightarrow> string" where
  "pad6 n = replicate (6 - length (nat_dec n)) (CHR ''0'') @ nat_dec n"

fun FormatFloat6 :: "f64 \<Rightarrow> string" where
  "FormatFloat6 (Fin x) =
     (let n = nat (round_even (\<bar>x\<bar> * 1000000)) in
      (if x < 0 then ''-'' else []) @ nat_dec (n div 1000000) @ ''.'' @ pad6 (n mod 1000000))"
| "FormatFloat6 PInf = ''+Inf''"
| "FormatFloat6 NInf = ''-Inf''"
| "FormatFloat6 NaN = ''NaN''"

definition reserved_header :: "string \<Rightarrow> bool" where
  "reserved_header k \<longleftrightarrow> HasPrefix (ToLower k) ''x-appengine-'' \<or> HasPrefix (ToLower k) ''x-google-''"

definition queue_override :: "tasks_store \<Rightarrow> task \<Rightarrow> ae_routing option" where
  "queue_override s t = (case GetQueue s (t_Queue t) of Inr q \<Rightarrow> q_AppEngineRouting q | Inl _ \<Rightarrow> None)"

definition appEngineRequest :: "dispatcher \<Rightarrow> tasks_store \<Rightarrow> task \<Rightarrow> ae_request \<Rightarrow> http_req option" where
  "appEngineRequest D s t a =
     (case NewRequest (dp_lib D) (ae_Method a) (dp_appEngine D @ ae_RelativeURI a) (ae_Body a) of
        None \<Rightarrow> None
      | Some req \<Rightarrow>
          let hs = set_headers [] (filter (\<lambda>(k, _). \<not> reserved_header k) (ae_Headers a));
              hs = header_Set hs ''User-Agent'' AppEngineUserAgent;
              hs = (if header_Get hs ''Content-Type'' = [] \<and> ae_Body a \<noteq> []
                    then header_Set hs ''Content-Type'' ''application/octet-stream'' else hs);
              hs = set_headers hs
                [(''X-AppEngine-QueueName'', after_last (CHR ''/'') (t_Queue t)),
                 (''X-AppEngine-TaskName'', after_last (CHR ''/'') (t_Name t)),
                 (''X-AppEngine-TaskRetryCount'', int_dec (t_DispatchCount t)),
                 (''X-AppEngine-TaskExecutionCount'', int_dec (t_ResponseCount t)),
                 (''X-AppEngine-TaskETA'',
                  FormatFloat6 (f64_div (f64_of_int (UnixMicro (t_ScheduleTime t))) (Fin 1000000)))];
              hs = (if t_LastResponseCode t \<noteq> 0
                    then header_Set hs ''X-AppEngine-TaskPreviousResponse'' (int_dec (t_LastResponseCode t)) else hs)
          in Some (req\<lparr>rq_Host := Some (AppEngineHost (projectOf (t_Name t)) (effectiveRouting a (queue_override s t))),
                       rq_Headers := hs\<rparr>))"

definition buildRequest :: "dispatcher \<Rightarrow> tasks_store \<Rightarrow> task \<Rightarrow> http_req option" where
  "buildRequest D s t =
     (case t_AppEngineHTTPRequest t of
        Some a \<Rightarrow> appEngineRequest D s t a
      | None \<Rightarrow>
          (case t_HTTPRequest t of
             None \<Rightarrow> None
           | Some hr \<Rightarrow>
               (case NewRequest (dp_lib D) (if hr_Method hr = [] then ''POST'' else hr_Method hr) (hr_URL hr) (hr_Body hr) of
                  None \<Rightarrow> None
                | Some req \<Rightarrow>
                    (case authorize D hr (set_headers [] (hr_Headers hr)) of
                       None \<Rightarrow> None
                     | Some hs \<Rightarrow>
                         let hs = set_headers hs
                               [(''X-CloudTasks-TaskName'', after_last (CHR ''/'') (t_Name t)),
                                (''X-CloudTasks-QueueName'', after_last (CHR ''/'') (t_Queue t)),
                                (''X-CloudTasks-TaskRetryCount'', int_dec (t_DispatchCount t)),
                                (''X-CloudTasks-TaskExecutionCount'', int_dec (t_ResponseCount t))];
                             hs = (if header_Get hs ''Content-Type'' = [] \<and> hr_Body hr \<noteq> []
                                   then header_Set hs ''Content-Type'' ''application/octet-stream'' else hs)
                         in Some (req\<lparr>rq_Headers := hs\<rparr>)))))"

section \<open>Outcomes and log entries\<close>

text \<open>
  \<open>client.Do\<close>: no response, because the deadline passed or otherwise, or a status with its text
  (\<open>resp.Status\<close>). The text goes into a stored document, whose bytes outside UTF-8 are replaced.
\<close>

datatype http_outcome = NoResponse bool | Response int string

definition is_2xx :: "int \<Rightarrow> bool" where
  "is_2xx st \<longleftrightarrow> 200 \<le> st \<and> st < 300"

definition attemptStatus :: "int \<Rightarrow> bool \<Rightarrow> code" where
  "attemptStatus st deadline =
     (if st = 0 then (if deadline then DeadlineExceeded else Unavailable)
      else if is_2xx st then OK
      else if st = 400 then InvalidArgument
      else if st = 401 then Unauthenticated
      else if st = 403 then PermissionDenied
      else if st = 404 then NotFound
      else if st = 409 then Aborted
      else if st = 429 then ResourceExhausted
      else if st = 499 then Canceled
      else if st = 501 then Unimplemented
      else if st = 503 then Unavailable
      else if st = 504 then DeadlineExceeded
      else if 400 \<le> st \<and> st < 500 then FailedPrecondition
      else Internal)"

definition checkSamplingRatio :: "f64 \<Rightarrow> bool" where
  "checkSamplingRatio r \<longleftrightarrow> \<not> (f64_less r (Fin 0) \<or> f64_less (Fin 1) r \<or> r = NaN)"

text \<open>\<open>rnd\<close> is what \<open>rand.Float64\<close> draws.\<close>

definition sampled :: "f64 \<Rightarrow> logging_config option \<Rightarrow> bool" where
  "sampled rnd c =
     (case c of
        None \<Rightarrow> False
      | Some lc \<Rightarrow>
          if f64_le (lc_SamplingRatio lc) (Fin 0) then False
          else if f64_le (Fin 1) (lc_SamplingRatio lc) then True
          else f64_less rnd (lc_SamplingRatio lc))"

definition queueParts :: "string \<Rightarrow> string \<times> string \<times> string" where
  "queueParts nm =
     (case split_on (CHR ''/'') nm of
        [a, p, b, l, c, q] \<Rightarrow> (p, l, q)
      | _ \<Rightarrow> ([], [], []))"

text \<open>An entry with its payload; instants and the duration are kept as values, not as text.\<close>

record log_entry =
  le_LogName :: string
  le_ProjectID :: string
  le_Location :: string
  le_QueueID :: string
  le_TargetType :: string
  le_Timestamp :: time
  le_SeverityError :: bool
  le_Task :: string
  le_AttemptDuration :: duration
  le_DispatchCount :: string
  le_ResponseCount :: string
  le_MaxAttempts :: f64
  le_ScheduleTime :: time
  le_Status :: code
  le_TargetAddress :: "string option"
  le_RetryTime :: "time option"

text \<open>\<open>url.PathEscape(TaskOperationsLog)\<close> escapes the one slash.\<close>

definition escaped_log :: string where
  "escaped_log = ''cloudtasks.googleapis.com%2Ftask_operations_log''"

definition AttemptLogEntry ::
  "queue \<Rightarrow> task \<Rightarrow> int \<Rightarrow> bool \<Rightarrow> time \<Rightarrow> duration \<Rightarrow> time \<Rightarrow> log_entry" where
  "AttemptLogEntry q t st deadline started took retry =
     (let (project, location, queue) = queueParts (q_Name q);
          address = (case t_HTTPRequest t of
              None \<Rightarrow> None
            | Some hr \<Rightarrow> Some ((if hr_Method hr = [] then ''POST'' else hr_Method hr) @ '' '' @ hr_URL hr))
      in \<lparr>le_LogName = ''projects/'' @ project @ ''/logs/'' @ escaped_log,
          le_ProjectID = project, le_Location = location, le_QueueID = queue,
          le_TargetType = (case t_AppEngineHTTPRequest t of None \<Rightarrow> ''HTTP'' | Some _ \<Rightarrow> ''APP_ENGINE''),
          le_Timestamp = started,
          le_SeverityError = (attemptStatus st deadline \<noteq> OK),
          le_Task = t_Name t, le_AttemptDuration = took,
          le_DispatchCount = int_dec (t_DispatchCount t), le_ResponseCount = int_dec (t_ResponseCount t),
          le_MaxAttempts = f64_of_int (ct_MaxAttempts (q_RetryConfig q)),
          le_ScheduleTime = t_ScheduleTime t, le_Status = attemptStatus st deadline,
          le_TargetAddress = (case t_AppEngineHTTPRequest t of
              None \<Rightarrow> address
            | Some a \<Rightarrow> Some (appEngineTargetAddress t a q)),
          le_RetryTime = (if retry = zero_time then None else Some retry)\<rparr>)"

datatype attempt_event = Reported string string int int | Logged log_entry

definition report :: "task \<Rightarrow> int \<Rightarrow> attempt_event list" where
  "report t st = [Reported (queueOf (t_Name t)) (t_Name t) (t_DispatchCount t) st]"

definition logAttempt ::
  "dispatcher \<Rightarrow> tasks_store \<Rightarrow> f64 \<Rightarrow> time \<Rightarrow> task \<Rightarrow> int \<Rightarrow> bool \<Rightarrow> time \<Rightarrow> attempt_event list" where
  "logAttempt D s rnd now t st deadline started =
     (if \<not> dp_logs D then []
      else case GetQueue s (queueOf (t_Name t)) of
             Inl _ \<Rightarrow> []
           | Inr q \<Rightarrow>
               if \<not> sampled rnd (q_Logging q) then []
               else
                 let first = (if t_FirstAttempt t = zero_time then started else t_FirstAttempt t);
                     b = RetryBackoff (q_RetryConfig q);
                     retry = (if \<not> is_2xx st \<and> ShouldRetryAfter b (t_DispatchCount t) (time_sub now first)
                              then now + CloudTasks_Delay b (t_DispatchCount t) else zero_time)
                 in [Logged (AttemptLogEntry q t st deadline started (time_sub now started) retry)])"

section \<open>Dispatch\<close>

text \<open>
  An attempt reads the clock for the first attempt, for the start, for the response and for its log
  entry, and \<open>DeleteTask\<close> reads the store's.
\<close>

record readings =
  rd_first :: time
  rd_started :: time
  rd_responded :: time
  rd_logged :: time
  rd_deleted :: time
  rd_random :: f64

definition bump :: "time \<Rightarrow> task \<Rightarrow> task" where
  "bump first t =
     (let t = (if t_FirstAttempt t = zero_time then t\<lparr>t_FirstAttempt := first\<rparr> else t)
      in t\<lparr>t_DispatchCount := t_DispatchCount t + 1\<rparr>)"

text \<open>What is sent: the task's request under its queue's \<open>http_target\<close>, on a copy.\<close>

definition sent_task :: "dispatcher \<Rightarrow> tasks_store \<Rightarrow> task \<Rightarrow> task" where
  "sent_task D s t =
     (case t_HTTPRequest t of
        None \<Rightarrow> t
      | Some hr \<Rightarrow>
          (case GetQueue s (t_Queue t) of
             Inl _ \<Rightarrow> t
           | Inr q \<Rightarrow> if q_HTTPTarget q = [] then t
                      else t\<lparr>t_HTTPRequest := Some (withQueueTarget (dp_lib D) hr q)\<rparr>))"

definition attemptAppEngine :: "tasks_store \<Rightarrow> time \<Rightarrow> time \<Rightarrow> task \<Rightarrow> ae_request \<Rightarrow> task" where
  "attemptAppEngine s started responded t a =
     (let host = AppEngineHost (projectOf (t_Name t)) (effectiveRouting a (queue_override s t))
      in t\<lparr>t_ResponseCount := t_ResponseCount t + 1, t_LastResponseCode := AppEngineAttemptStatus,
           t_LastAttempt := Some \<lparr>at_Scheduled = t_ScheduleTime t, at_Dispatched = started,
             at_Responded = responded, at_Code = code_number NotFound, at_Message = appEngineReason t host\<rparr>\<rparr>)"

text \<open>
  The first half of \<open>Dispatch\<close>, up to \<open>client.Do\<close>: the request to send with the task as counted, or an
  error that ends the attempt. An App Engine task with no server to send it to fails here.
\<close>

datatype begun = Failed "attempt_event list" | Send http_req task

definition dispatch_begin :: "dispatcher \<Rightarrow> readings \<Rightarrow> tasks_store \<Rightarrow> task \<Rightarrow> begun \<times> tasks_store" where
  "dispatch_begin D rd s t =
     (case (if dp_appEngine D = [] then t_AppEngineHTTPRequest t else None) of
        Some a \<Rightarrow>
          let t' = attemptAppEngine s (rd_started rd) (rd_responded rd) (bump (rd_first rd) t) a;
              s' = snd (UpdateTask s t')
          in (Failed (report t' AppEngineAttemptStatus @
                logAttempt D s' (rd_random rd) (rd_logged rd) t' AppEngineAttemptStatus False (rd_started rd)), s')
      | None \<Rightarrow>
          (case buildRequest D s (sent_task D s t) of
             None \<Rightarrow> (Failed [], s)
           | Some req \<Rightarrow> (Send req (bump (rd_first rd) t), s)))"

text \<open>The second half, with the answer: whether an error is returned, the store and the events.\<close>

definition responded :: "readings \<Rightarrow> task \<Rightarrow> int \<Rightarrow> string \<Rightarrow> task" where
  "responded rd t st text =
     t\<lparr>t_ResponseCount := t_ResponseCount t + 1, t_LastResponseCode := st,
       t_LastAttempt := Some \<lparr>at_Scheduled = t_ScheduleTime t, at_Dispatched = rd_started rd,
         at_Responded = rd_responded rd, at_Code = code_number (attemptStatus st False),
         at_Message = if attemptStatus st False = OK then [] else coerce_utf8 text\<rparr>\<rparr>"

definition unanswered :: "readings \<Rightarrow> task \<Rightarrow> task" where
  "unanswered rd t =
     t\<lparr>t_LastAttempt := Some \<lparr>at_Scheduled = t_ScheduleTime t, at_Dispatched = rd_started rd,
         at_Responded = zero_time, at_Code = 0, at_Message = []\<rparr>\<rparr>"

definition dispatch_end ::
  "dispatcher \<Rightarrow> readings \<Rightarrow> tasks_store \<Rightarrow> task \<Rightarrow> http_outcome \<Rightarrow> bool \<times> tasks_store \<times> attempt_event list" where
  "dispatch_end D rd s t out =
     (case out of
        NoResponse deadline \<Rightarrow>
          let t' = unanswered rd t; s' = snd (UpdateTask s t')
          in (True, s', report t' 0 @ logAttempt D s' (rd_random rd) (rd_logged rd) t' 0 deadline (rd_started rd))
      | Response st text \<Rightarrow>
          let t' = responded rd t st text;
              ev = report t' st @ logAttempt D s (rd_random rd) (rd_logged rd) t' st False (rd_started rd)
          in if is_2xx st then
               (case DeleteTask (rd_deleted rd) s (t_Name t') of (r, s') \<Rightarrow> (isl r, s', ev))
             else (True, snd (UpdateTask s t'), ev))"

text \<open>Both halves, when nothing else touches the store between them.\<close>

definition Dispatch ::
  "dispatcher \<Rightarrow> readings \<Rightarrow> tasks_store \<Rightarrow> task \<Rightarrow> (http_req \<Rightarrow> http_outcome) \<Rightarrow> bool \<times> tasks_store \<times> attempt_event list" where
  "Dispatch D rd s t target =
     (case dispatch_begin D rd s t of
        (Failed ev, s') \<Rightarrow> (True, s', ev)
      | (Send req t', s') \<Rightarrow> dispatch_end D rd s' t' (target req))"

text \<open>
  \<open>reschedule\<close> reads the task and its queue again and applies the queue's retry policy. It reads the
  clock for the time since the first attempt and again for the new schedule time.
\<close>

definition reschedule :: "time \<Rightarrow> time \<Rightarrow> time \<Rightarrow> tasks_store \<Rightarrow> string \<Rightarrow> tasks_store" where
  "reschedule clock1 clock2 now s nm =
     (case GetTask s nm of
        Inl _ \<Rightarrow> s
      | Inr current \<Rightarrow>
          (case GetQueue s (t_Queue current) of
             Inl _ \<Rightarrow> s
           | Inr q \<Rightarrow>
               let b = RetryBackoff (q_RetryConfig q) in
               if \<not> ShouldRetryAfter b (t_DispatchCount current) (time_sub clock1 (t_FirstAttempt current))
               then snd (DeleteTask now s (t_Name current))
               else snd (UpdateTask s
                 (current\<lparr>t_ScheduleTime := clock2 + CloudTasks_Delay b (t_DispatchCount current)\<rparr>))))"

end
