(* ===== verification/Tasks_Retry.thy ===== *)
theory Tasks_Retry
  imports Tasks_Dispatch
begin

text \<open>
  The life of one task over its attempts, one after the other: what the goroutine that
  \<open>Worker.start\<close> spawns does, on a store nobody else writes meanwhile. A task is attempted until an
  attempt succeeds or the retry policy gives up, so it always leaves its queue.
\<close>

section \<open>Writes in memory succeed\<close>

definition in_memory :: "tasks_store \<Rightarrow> bool" where
  "in_memory s = (case ts_db s of MemDB _ \<Rightarrow> True | DurDB _ \<Rightarrow> False)"

lemma mem_commit:
  assumes "ts_ok s" "in_memory s" "list_all (\<lambda>x. SafeKey (op_key x)) ops"
  obtains s' where "commit s ops = (Inr (), s')" "ts_ok s'" "in_memory s'" "ts_view s' = spec_ops ops (ts_view s)"
proof -
  obtain m where m: "ts_db s = MemDB m" using assms(2) by (auto simp: in_memory_def split: db.splits)
  from MemDB_commit [OF assms(3), of m] obtain m' where c: "commit s ops = (Inr (), s\<lparr>ts_db := MemDB m'\<rparr>)"
    by (simp add: commit_def m del: db_Commit.simps)
  then show thesis
    by (cases rule: commit_cases [OF assms(1), of ops]) (auto simp: in_memory_def intro: that)
qed

lemma put_is_commit: "json_Marshal v = Some v \<Longrightarrow> put s k v = commit s [OpPut k v]"
  by (simp add: put_def commit_def db_Put_commit)

lemma mem_put:
  assumes "ts_ok s" "in_memory s" "SafeKey k" "json_Marshal v = Some v"
  obtains s' where "put s k v = (Inr (), s')" "ts_ok s'" "in_memory s'" "ts_view s' = (ts_view s)(k \<mapsto> v)"
  using mem_commit [OF assms(1,2), of "[OpPut k v]"] assms(3) put_is_commit [OF assms(4), of s k]
  by (auto intro: that)

lemma get_after:
  assumes "ts_ok s"
  shows "GetTask s nm = Inr t \<longleftrightarrow> SafeKey (taskKey nm) \<and> ts_view s (taskKey nm) = Some (JTask t)"
    and "GetQueue s nm = Inr q \<longleftrightarrow> SafeKey (queueKey nm) \<and> ts_view s (queueKey nm) = Some (JQueue q)"
    and "ts_view s (taskKey nm) = None \<Longrightarrow> GetTask s nm = Inl NotFound"
proof -
  show "GetTask s nm = Inr t \<longleftrightarrow> SafeKey (taskKey nm) \<and> ts_view s (taskKey nm) = Some (JTask t)"
    using get_iff(2) [OF assms, of "taskKey nm" t] by (auto simp: GetTask_def split: option.split)
  show "GetQueue s nm = Inr q \<longleftrightarrow> SafeKey (queueKey nm) \<and> ts_view s (queueKey nm) = Some (JQueue q)"
    using get_iff(1) [OF assms, of "queueKey nm" q] by (auto simp: GetQueue_def split: option.split)
  show "GetTask s nm = Inl NotFound" if "ts_view s (taskKey nm) = None"
    using get_iff(2) [OF assms, of "taskKey nm"] that by (auto simp: GetTask_def split: option.split)
qed

text \<open>A task written back is the task read next; its queue is untouched.\<close>

lemma mem_UpdateTask:
  assumes "typed_store s" "in_memory s" "GetTask s nm = Inr old" "t_RunRequested old = zero_time"
    and "t_Name t = nm" "task_ok t" "task_json_ok t"
  obtains s' where "UpdateTask s t = (Inr (), s')" "typed_store s'" "in_memory s'" "GetTask s' nm = Inr t"
    "\<And>q. GetQueue s' q = GetQueue s q"
proof -
  have ok: "ts_ok s" using assms(1) by (simp add: typed_store_def)
  have k: "SafeKey (taskKey nm)" using assms(3) get_after(1) [OF ok] by blast
  obtain s' where s': "put s (taskKey nm) (JTask t) = (Inr (), s')" "ts_ok s'" "in_memory s'"
      "ts_view s' = (ts_view s)(taskKey nm \<mapsto> JTask t)"
    using mem_put [OF ok assms(2) k, of "JTask t"] assms(7) by auto
  have "UpdateTask s t = put s (taskKey nm) (JTask t)"
    using assms(3-5) by (simp add: UpdateTask_def GetTask_def Let_def split: option.splits)
  with s'(1) have u: "UpdateTask s t = (Inr (), s')" by simp
  have "get_queue (ts_db s') (queueKey q) = get_queue (ts_db s) (queueKey q)" for q
    using s'(4) by (simp add: get_queue_def db.sget_eq [OF ok] db.sget_eq [OF s'(2)])
  then have "GetQueue s' q = GetQueue s q" for q by (simp add: GetQueue_def)
  then show thesis
    using that [OF u] typed_UpdateTask [OF assms(1,6)] u s' k by (simp add: get_after(1) [OF s'(2)])
qed

lemma mem_DeleteTask:
  assumes "typed_store s" "in_memory s" "GetTask s nm = Inr t" "time_json_ok (now + TombstoneTTL)"
  obtains s' where "DeleteTask now s nm = (Inr (), s')" "GetTask s' nm = Inl NotFound"
proof -
  have ok: "ts_ok s" "ts_ok (s\<lparr>ts_swept := now\<rparr>)" using assms(1) by (simp_all add: typed_store_def)
  have mem: "in_memory (s\<lparr>ts_swept := now\<rparr>)" using assms(2) by (simp add: in_memory_def)
  have t: "get_task (ts_db s) (taskKey nm) = Some t" using assms(3) by (simp add: GetTask_def split: option.splits)
  have "task_ok t" "t_Name t = nm" using typed_task [OF assms(1) t] by simp_all
  then obtain n where "check_task t = Inr n" by (cases "check_task t") (auto simp: task_ok_def)
  then have safe: "SafeKey (taskKey nm)" "SafeKey (tombstoneKey nm)"
    using check_task_safe \<open>t_Name t = nm\<close> by blast+
  let ?tomb = "if t_NamedByServer t then [] else [OpPut (tombstoneKey nm) (JTime (now + TombstoneTTL))]"
  let ?exp = "expiredTombstones (ts_db s) now"
  have exp: "list_all (\<lambda>x. SafeKey (op_key x)) ?exp" "taskKey nm \<notin> op_key ` set ?exp"
    using db.slist_set [OF ok(1), of "''tasks/tombstones/''"]
    by (auto simp: expiredTombstones_def list_all_iff get_iff(3) [OF ok(1)] taskKey_def split: option.splits)
  define sweep where "sweep \<longleftrightarrow> tombstoneSweep \<le> time_sub now (ts_swept s)"
  let ?s = "if sweep then s\<lparr>ts_swept := now\<rparr> else s"
  let ?ops = "OpDelete (taskKey nm) # ?tomb @ (if sweep then ?exp else [])"
  have "DeleteTask now s nm = commit ?s ?ops"
    using t assms(4) by (auto simp: DeleteTask_def sweep_def)
  moreover have pre: "ts_ok ?s" "in_memory ?s" "list_all (\<lambda>x. SafeKey (op_key x)) ?ops"
    using ok mem assms(2) safe exp(1) by simp_all
  obtain s' where "commit ?s ?ops = (Inr (), s')" "ts_ok s'" "ts_view s' = spec_ops ?ops (ts_view ?s)"
    using mem_commit [OF pre] by blast
  moreover have "spec_ops ?ops f (taskKey nm) = None" for f :: "string \<rightharpoonup> doc"
    using exp(2) by (simp add: spec_ops_other image_Un)
  ultimately show thesis using that get_after(3) by simp
qed

section \<open>One attempt\<close>

text \<open>
  The inputs of an attempt: the readings \<open>Dispatch\<close> makes, those of \<open>reschedule\<close> (the clock twice and
  the store's clock) and the target's answer.
\<close>

record attempt_input =
  ai_readings :: readings
  ai_clock1 :: time
  ai_clock2 :: time
  ai_now :: time
  ai_outcome :: http_outcome

definition run_attempt :: "dispatcher \<Rightarrow> attempt_input \<Rightarrow> tasks_store \<Rightarrow> string \<Rightarrow> tasks_store" where
  "run_attempt D i s nm =
     (case GetTask s nm of
        Inl _ \<Rightarrow> s
      | Inr t \<Rightarrow>
          (case Dispatch D (ai_readings i) s t (\<lambda>_. ai_outcome i) of
             (err, s', _) \<Rightarrow> if err then reschedule (ai_clock1 i) (ai_clock2 i) (ai_now i) s' (t_Name t) else s'))"

primrec attempts :: "dispatcher \<Rightarrow> (nat \<Rightarrow> attempt_input) \<Rightarrow> string \<Rightarrow> nat \<Rightarrow> tasks_store \<Rightarrow> tasks_store" where
  "attempts D i nm 0 s = s"
| "attempts D i nm (Suc k) s = run_attempt D (i k) (attempts D i nm k s) nm"

text \<open>Every instant an attempt writes has a year a JSON document can hold.\<close>

definition input_ok :: "ct_backoff \<Rightarrow> attempt_input \<Rightarrow> bool" where
  "input_ok b i \<longleftrightarrow>
     time_json_ok (rd_first (ai_readings i)) \<and> time_json_ok (rd_started (ai_readings i)) \<and>
     time_json_ok (rd_responded (ai_readings i)) \<and> time_json_ok (rd_deleted (ai_readings i) + TombstoneTTL) \<and>
     time_json_ok (ai_now i + TombstoneTTL) \<and>
     time_json_ok (ai_clock2 i) \<and> time_json_ok (ai_clock2 i + ct_MaxBackoff b)"

text \<open>An App Engine task without a server to send it to, and one whose request is sent.\<close>

definition unserved :: "dispatcher \<Rightarrow> task \<Rightarrow> bool" where
  "unserved D t \<longleftrightarrow> dp_appEngine D = [] \<and> t_AppEngineHTTPRequest t \<noteq> None"

definition sendable :: "dispatcher \<Rightarrow> tasks_store \<Rightarrow> task \<Rightarrow> bool" where
  "sendable D s t \<longleftrightarrow> unserved D t \<or> buildRequest D s (sent_task D s t) \<noteq> None"

fun answers_2xx :: "http_outcome \<Rightarrow> bool" where
  "answers_2xx (NoResponse d) = False"
| "answers_2xx (Response st txt) = is_2xx st"

definition succeeds :: "dispatcher \<Rightarrow> task \<Rightarrow> attempt_input \<Rightarrow> bool" where
  "succeeds D t i \<longleftrightarrow> \<not> unserved D t \<and> answers_2xx (ai_outcome i)"

definition same_work :: "task \<Rightarrow> task \<Rightarrow> bool" where
  "same_work t' t \<longleftrightarrow> t_Name t' = t_Name t \<and> t_Queue t' = t_Queue t \<and> t_HTTPRequest t' = t_HTTPRequest t \<and>
     t_AppEngineHTTPRequest t' = t_AppEngineHTTPRequest t \<and> t_RunRequested t' = t_RunRequested t"

lemma buildRequest_frame:
  assumes "t_HTTPRequest t' = t_HTTPRequest t" "t_AppEngineHTTPRequest t' = t_AppEngineHTTPRequest t"
  shows "buildRequest D s' t' = None \<longleftrightarrow> buildRequest D s t = None"
  using assms by (auto simp: buildRequest_def appEngineRequest_def Let_def split: option.split)

lemma sent_task_fields [simp]:
  "t_AppEngineHTTPRequest (sent_task D s t) = t_AppEngineHTTPRequest t"
  by (simp add: sent_task_def split: option.split sum.split)

lemma sendable_frame:
  assumes "sendable D s t" "same_work t' t" "GetQueue s' (t_Queue t) = GetQueue s (t_Queue t)"
  shows "sendable D s' t'"
proof -
  have "t_HTTPRequest (sent_task D s' t') = t_HTTPRequest (sent_task D s t)"
    using assms(2,3) by (simp add: sent_task_def same_work_def split: option.split sum.split)
  then show ?thesis
    using assms(1,2) buildRequest_frame [of "sent_task D s' t'" "sent_task D s t" D s' s]
    by (auto simp: sendable_def unserved_def same_work_def)
qed

lemma task_ok_same: "task_ok t \<Longrightarrow> same_work t' t \<Longrightarrow> task_ok t'"
  using task_ok_frame [of t t'] by (simp add: same_work_def has_target_def)

text \<open>The task an attempt writes back when it does not succeed, and its fields.\<close>

definition recorded :: "dispatcher \<Rightarrow> tasks_store \<Rightarrow> task \<Rightarrow> attempt_input \<Rightarrow> task" where
  "recorded D s t i =
     (let rd = ai_readings i; t1 = bump (rd_first rd) t in
      if unserved D t then attemptAppEngine s (rd_started rd) (rd_responded rd) t1 (the (t_AppEngineHTTPRequest t))
      else case ai_outcome i of NoResponse _ \<Rightarrow> unanswered rd t1 | Response st txt \<Rightarrow> responded rd t1 st txt)"

lemma recorded_fields:
  "same_work (recorded D s t i) t" "t_DispatchCount (recorded D s t i) = t_DispatchCount t + 1"
  by (simp_all add: recorded_def Let_def same_work_def bump_def attemptAppEngine_def unanswered_def responded_def
      split: http_outcome.split)

lemma recorded_json: "task_json_ok t \<Longrightarrow> input_ok b i \<Longrightarrow> task_json_ok (recorded D s t i)"
  by (simp add: recorded_def Let_def task_json_ok_def attempt_json_ok_def input_ok_def bump_def attemptAppEngine_def
      unanswered_def responded_def split: http_outcome.split)

lemma Dispatch_fails:
  assumes "sendable D s t" "\<not> succeeds D t i"
  shows "\<exists>ev. Dispatch D (ai_readings i) s t (\<lambda>_. ai_outcome i) = (True, snd (UpdateTask s (recorded D s t i)), ev)"
proof (cases "unserved D t")
  case True
  then show ?thesis
    by (auto simp: Dispatch_def dispatch_begin_def recorded_def unserved_def Let_def)
next
  case False
  then obtain req where "buildRequest D s (sent_task D s t) = Some req" using assms(1) by (auto simp: sendable_def)
  then have "dispatch_begin D (ai_readings i) s t = (Send req (bump (rd_first (ai_readings i)) t), s)"
    using False by (simp add: dispatch_begin_def unserved_def split: option.split)
  with False assms(2) show ?thesis
    by (cases "ai_outcome i") (simp_all add: Dispatch_def dispatch_end_def recorded_def Let_def succeeds_def)
qed

lemma Dispatch_succeeds:
  assumes "sendable D s t" "succeeds D t i"
  shows "\<exists>ev. Dispatch D (ai_readings i) s t (\<lambda>_. ai_outcome i) =
    (case DeleteTask (rd_deleted (ai_readings i)) s (t_Name t) of (r, s') \<Rightarrow> (isl r, s', ev))"
proof -
  have u: "\<not> unserved D t" using assms(2) by (simp add: succeeds_def)
  then obtain req where "buildRequest D s (sent_task D s t) = Some req" using assms(1) by (auto simp: sendable_def)
  then have "dispatch_begin D (ai_readings i) s t = (Send req (bump (rd_first (ai_readings i)) t), s)"
    using u by (simp add: dispatch_begin_def unserved_def split: option.split)
  with assms(2) show ?thesis
    by (cases "ai_outcome i")
      (auto simp: Dispatch_def dispatch_end_def Let_def succeeds_def responded_def bump_def split: prod.split)
qed

section \<open>The attempts of a task\<close>

definition alive :: "dispatcher \<Rightarrow> queue \<Rightarrow> task \<Rightarrow> nat \<Rightarrow> tasks_store \<Rightarrow> bool" where
  "alive D q t k s \<longleftrightarrow> typed_store s \<and> in_memory s \<and> GetQueue s (t_Queue t) = Inr q \<and> sendable D s t \<and>
     (\<exists>t'. GetTask s (t_Name t) = Inr t' \<and> same_work t' t \<and> t_DispatchCount t' = int k \<and> task_json_ok t')"

text \<open>A policy that gives up after a number of attempts, with the bounds its delays are exact within.\<close>

definition gives_up_after :: "retry_config \<Rightarrow> nat \<Rightarrow> bool" where
  "gives_up_after rc n \<longleftrightarrow> 0 < n \<and> int n \<le> max_int64 \<and> ct_MaxAttempts (RetryBackoff rc) = int n \<and>
     ct_MaxRetryDuration rc \<le> 0 \<and> ct_MaxBackoff rc \<le> 2 ^ 53 \<and> ct_MaxDoublings rc \<le> max_int64"

lemma ShouldRetry_iff:
  "gives_up_after rc n \<Longrightarrow> ShouldRetryAfter (RetryBackoff rc) a d \<longleftrightarrow> a < int n"
  using WithDefaults_fields(7) [of rc]
  by (simp add: gives_up_after_def ShouldRetryAfter_def CloudTasks_ShouldRetry_def RetryBackoff_def)

lemma delay_range:
  assumes "gives_up_after rc n" "1 \<le> a" "a \<le> int n"
  shows "0 \<le> CloudTasks_Delay (RetryBackoff rc) a \<and> CloudTasks_Delay (RetryBackoff rc) a \<le> ct_MaxBackoff (RetryBackoff rc)"
proof -
  note f = WithDefaults_fields [of rc]
  have "ct_MaxBackoff rc \<le> 2 ^ 53" "ct_MaxDoublings rc \<le> max_int64" "a \<le> max_int64"
    using assms by (simp_all add: gives_up_after_def)
  with assms(2) f have "CloudTasks_Delay (WithDefaults rc) a = min (ct_MaxBackoff (WithDefaults rc)) (exact_delay (WithDefaults rc) a)"
    by (intro CloudTasks_Delay_exact) simp_all
  moreover have "1 \<le> exact_delay (WithDefaults rc) a" using assms(2) f by (intro exact_delay_pos) simp_all
  ultimately show ?thesis using f(2) by (simp add: RetryBackoff_def)
qed

lemma time_ok_between: "time_json_ok a \<Longrightarrow> time_json_ok (a + m) \<Longrightarrow> 0 \<le> d \<Longrightarrow> d \<le> m \<Longrightarrow> time_json_ok (a + d)"
  by (simp add: time_json_ok_def)

lemma alive_task:
  assumes "alive D q t k s"
  obtains t' where "GetTask s (t_Name t) = Inr t'" "same_work t' t" "t_DispatchCount t' = int k" "task_json_ok t'"
    "task_ok t'" "sendable D s t'" "succeeds D t' = succeeds D t"
proof -
  obtain t' where t': "GetTask s (t_Name t) = Inr t'" "same_work t' t" "t_DispatchCount t' = int k" "task_json_ok t'"
    using assms by (auto simp: alive_def)
  have s: "typed_store s" using assms by (simp add: alive_def)
  have "get_task (ts_db s) (taskKey (t_Name t)) = Some t'" using t'(1) by (simp add: GetTask_def split: option.splits)
  from typed_task [OF s this] have "task_ok t'" by simp
  moreover have "sendable D s t" using assms by (simp add: alive_def)
  then have "sendable D s t'" by (rule sendable_frame [OF _ t'(2) refl])
  moreover have "succeeds D t' = succeeds D t" using t'(2) by (simp add: fun_eq_iff succeeds_def unserved_def same_work_def)
  ultimately show thesis using that [OF t'] by simp
qed

lemma attempt_succeeds:
  assumes "alive D q t k s" "succeeds D t i" "input_ok b i"
  shows "GetTask (run_attempt D i s (t_Name t)) (t_Name t) = Inl NotFound"
proof -
  from assms(1) obtain t' where t': "GetTask s (t_Name t) = Inr t'" "same_work t' t" "sendable D s t'"
    "succeeds D t' = succeeds D t" by (rule alive_task)
  have nm: "t_Name t' = t_Name t" using t'(2) by (simp add: same_work_def)
  obtain s' where s': "DeleteTask (rd_deleted (ai_readings i)) s (t_Name t) = (Inr (), s')"
      "GetTask s' (t_Name t) = Inl NotFound"
    using mem_DeleteTask [OF _ _ t'(1), of "rd_deleted (ai_readings i)"] assms by (auto simp: alive_def input_ok_def)
  obtain ev where "Dispatch D (ai_readings i) s t' (\<lambda>_. ai_outcome i) = (False, s', ev)"
    using Dispatch_succeeds [OF t'(3), of i] t'(4) assms(2) s'(1) nm by auto
  then show ?thesis using t'(1) s'(2) by (simp add: run_attempt_def)
qed

lemma attempt_fails:
  assumes a: "alive D q t k s" and f: "\<not> succeeds D t i" and i: "input_ok (RetryBackoff (q_RetryConfig q)) i"
    and n: "gives_up_after (q_RetryConfig q) n" "k < n" and run: "t_RunRequested t = zero_time"
  shows "if Suc k < n then alive D q t (Suc k) (run_attempt D i s (t_Name t))
    else GetTask (run_attempt D i s (t_Name t)) (t_Name t) = Inl NotFound"
proof -
  let ?nm = "t_Name t" and ?b = "RetryBackoff (q_RetryConfig q)"
  from a obtain t' where t': "GetTask s ?nm = Inr t'" "same_work t' t" "t_DispatchCount t' = int k" "task_json_ok t'"
    "task_ok t'" "sendable D s t'" "succeeds D t' = succeeds D t" by (rule alive_task)
  have s: "typed_store s" "in_memory s" "GetQueue s (t_Queue t) = Inr q" "sendable D s t" using a by (simp_all add: alive_def)
  have nm: "t_Name t' = ?nm" "t_RunRequested t' = zero_time" using t'(2) run by (simp_all add: same_work_def)
  let ?r = "recorded D s t' i"
  have r: "t_Name ?r = ?nm" "task_ok ?r" "task_json_ok ?r" "same_work ?r t" "t_DispatchCount ?r = int (Suc k)"
    using recorded_fields [of D s t' i] t' nm recorded_json [OF t'(4) i] task_ok_same [OF t'(5), of ?r]
    by (simp_all add: same_work_def)
  obtain s1 where s1: "UpdateTask s ?r = (Inr (), s1)" "typed_store s1" "in_memory s1" "GetTask s1 ?nm = Inr ?r"
      "\<And>q. GetQueue s1 q = GetQueue s q"
    using mem_UpdateTask [OF s(1,2) t'(1) nm(2) r(1-3)] by blast
  obtain ev where "Dispatch D (ai_readings i) s t' (\<lambda>_. ai_outcome i) = (True, s1, ev)"
    using Dispatch_fails [OF t'(6), of i] t'(7) f s1(1) by auto
  then have run_eq: "run_attempt D i s ?nm = reschedule (ai_clock1 i) (ai_clock2 i) (ai_now i) s1 ?nm"
    using t'(1) nm by (simp add: run_attempt_def)
  have q1: "GetQueue s1 (t_Queue ?r) = Inr q" using s(3) s1(5) r(4) by (simp add: same_work_def)
  let ?t2 = "?r\<lparr>t_ScheduleTime := ai_clock2 i + CloudTasks_Delay ?b (t_DispatchCount ?r)\<rparr>"
  have retry: "ShouldRetryAfter ?b (t_DispatchCount ?r) d \<longleftrightarrow> Suc k < n" for d
    using ShouldRetry_iff [OF n(1)] r(5) by simp linarith
  show ?thesis
  proof (cases "Suc k < n")
    case False
    obtain s2 where "DeleteTask (ai_now i) s1 ?nm = (Inr (), s2)" "GetTask s2 ?nm = Inl NotFound"
      using mem_DeleteTask [OF s1(2,3,4), of "ai_now i"] i by (auto simp: input_ok_def)
    then show ?thesis using False run_eq s1(4) q1 retry r(1) by (simp add: reschedule_def Let_def)
  next
    case True
    have d: "0 \<le> CloudTasks_Delay ?b (int (Suc k))" "CloudTasks_Delay ?b (int (Suc k)) \<le> ct_MaxBackoff ?b"
      using delay_range [OF n(1), of "int (Suc k)"] True by simp_all
    have "task_json_ok ?t2"
      using r(3,5) i time_ok_between [OF _ _ d, of "ai_clock2 i"] by (simp add: task_json_ok_def input_ok_def)
    moreover have "same_work ?t2 t" "same_work ?t2 ?r" using r(4) by (simp_all add: same_work_def)
    moreover have "task_ok ?t2" using task_ok_same [OF r(2)] calculation(3) .
    ultimately obtain s2 where s2: "UpdateTask s1 ?t2 = (Inr (), s2)" "typed_store s2" "in_memory s2"
        "GetTask s2 ?nm = Inr ?t2" "\<And>q. GetQueue s2 q = GetQueue s1 q"
      using mem_UpdateTask [OF s1(2,3,4), of ?t2] r(1,4) run by (auto simp: same_work_def)
    have "run_attempt D i s ?nm = s2"
      using True run_eq s1(4) q1 retry s2(1) by (simp add: reschedule_def Let_def)
    moreover have "alive D q t (Suc k) s2"
      using s2 s1(5) s(3,4) sendable_frame [of D s t t s2] r(5) \<open>same_work ?t2 t\<close> \<open>task_json_ok ?t2\<close>
      by (simp add: alive_def same_work_def)
    ultimately show ?thesis using True by simp
  qed
qed

lemma attempts_alive:
  assumes "alive D q t 0 s" "gives_up_after (q_RetryConfig q) n" "t_RunRequested t = zero_time"
    "\<And>j. input_ok (RetryBackoff (q_RetryConfig q)) (i j)"
  shows "k < n \<Longrightarrow> \<forall>j<k. \<not> succeeds D t (i j) \<Longrightarrow> alive D q t k (attempts D i (t_Name t) k s)"
proof (induction k)
  case (Suc k)
  then have "alive D q t k (attempts D i (t_Name t) k s)" "\<not> succeeds D t (i k)" by simp_all
  from attempt_fails [OF this assms(4,2) _ assms(3)] Suc.prems(1) show ?case by simp
qed (use assms(1) in simp)

text \<open>C4: A task leaves its queue. With a policy that gives up after \<open>n\<close> attempts, a task whose requests can be
  built is attempted again after each failure until the first success or the \<open>n\<close>-th failure, whichever
  comes first, and is then gone: while it fails, fewer than \<open>n\<close> times, it is there with its attempts
  counted; after the first success, or after \<open>n\<close> failures, it is not found.\<close>

theorem every_task_leaves_its_queue:
  assumes "alive D q t 0 s" "gives_up_after (q_RetryConfig q) n" "t_RunRequested t = zero_time"
    and "\<And>j. input_ok (RetryBackoff (q_RetryConfig q)) (i j)"
    and fails: "\<forall>j<k. \<not> succeeds D t (i j)"
  shows "(k < n \<longrightarrow> (\<exists>t'. GetTask (attempts D i (t_Name t) k s) (t_Name t) = Inr t' \<and> t_DispatchCount t' = int k)) \<and>
    (k < n \<and> succeeds D t (i k) \<longrightarrow> GetTask (attempts D i (t_Name t) (Suc k) s) (t_Name t) = Inl NotFound) \<and>
    (k = n \<longrightarrow> GetTask (attempts D i (t_Name t) k s) (t_Name t) = Inl NotFound)"
proof (intro conjI impI)
  assume "k < n"
  then have "alive D q t k (attempts D i (t_Name t) k s)" by (rule attempts_alive [OF assms(1-4) _ fails])
  then show "\<exists>t'. GetTask (attempts D i (t_Name t) k s) (t_Name t) = Inr t' \<and> t_DispatchCount t' = int k"
    by (auto simp: alive_def)
next
  assume "k < n \<and> succeeds D t (i k)"
  then have "alive D q t k (attempts D i (t_Name t) k s)" using attempts_alive [OF assms(1-4) _ fails] by blast
  with \<open>k < n \<and> succeeds D t (i k)\<close> show "GetTask (attempts D i (t_Name t) (Suc k) s) (t_Name t) = Inl NotFound"
    using attempt_succeeds [of D q t k _ "i k", OF _ _ assms(4)] by simp
next
  assume "k = n"
  moreover have "0 < n" using assms(2) by (simp add: gives_up_after_def)
  ultimately obtain m where m: "k = Suc m" "m < n" by (cases k) auto
  then have "alive D q t m (attempts D i (t_Name t) m s)" "\<not> succeeds D t (i m)"
    using attempts_alive [OF assms(1-4), of m] fails by simp_all
  from attempt_fails [OF this assms(4,2) m(2) assms(3)] \<open>k = n\<close> m(1)
  have "GetTask (run_attempt D (i m) (attempts D i (t_Name t) m s) (t_Name t)) (t_Name t) = Inl NotFound" by simp
  then show "GetTask (attempts D i (t_Name t) k s) (t_Name t) = Inl NotFound" unfolding m(1) attempts.simps .
qed

definition demo_dispatcher :: dispatcher where
  "demo_dispatcher = NewDispatcher (demo_lib demo_target)"

definition demo_input :: attempt_input where
  "demo_input = \<lparr>ai_readings = \<lparr>rd_first = 0, rd_started = 0, rd_responded = 0, rd_logged = 0, rd_deleted = 0,
     rd_random = Fin 0\<rparr>, ai_clock1 = 0, ai_clock2 = 0, ai_now = 0, ai_outcome = NoResponse True\<rparr>"

lemma demo_sendable: "sendable demo_dispatcher demo_full demo_t"
  using demo_full_gets(2)
  by (simp add: sendable_def sent_task_def demo_t_def demo_q_def zero_queue_def zero_task_def buildRequest_def NewRequest_def
      demo_dispatcher_def NewDispatcher_def demo_lib_def authorize_def token_char_def char_class_defs Let_def)

lemma demo_alive: "alive demo_dispatcher demo_q demo_t 0 demo_full"
proof -
  have "t_Name demo_t = demo_task" "t_Queue demo_t = demo_queue" "t_DispatchCount demo_t = 0" "task_json_ok demo_t"
    by (simp_all add: demo_t_def zero_task_def task_json_ok_def)
  then show ?thesis
    using typed_demo_full demo_full_gets demo_sendable by (simp add: alive_def in_memory_def demo_full_def same_work_def)
qed

theorem every_task_leaves_its_queue_witness:
  "GetTask (attempts demo_dispatcher (\<lambda>_. demo_input) demo_task 100 demo_full) demo_task = Inl NotFound"
proof -
  have "gives_up_after (q_RetryConfig demo_q) 100"
    by (simp add: gives_up_after_def demo_q_def RetryBackoff_def WithDefaults_def DefaultCloudTasksBackoff_def
        max_int64_def duration_defs Let_def)
  moreover have "input_ok (RetryBackoff (q_RetryConfig demo_q)) demo_input"
    by (simp add: input_ok_def demo_input_def demo_q_def RetryBackoff_def WithDefaults_def DefaultCloudTasksBackoff_def
        time_json_ok_def nanos_per_day_def TombstoneTTL_def duration_defs Let_def)
  moreover have "t_RunRequested demo_t = zero_time" "t_Name demo_t = demo_task"
    "\<not> succeeds demo_dispatcher demo_t demo_input"
    by (simp_all add: demo_t_def zero_task_def succeeds_def demo_input_def)
  ultimately show ?thesis
    using every_task_leaves_its_queue [OF demo_alive, of 100 "\<lambda>_. demo_input" 100] by simp
qed

section \<open>A request that cannot be built\<close>

definition stuck :: "dispatcher \<Rightarrow> queue \<Rightarrow> task \<Rightarrow> tasks_store \<Rightarrow> bool" where
  "stuck D q t s \<longleftrightarrow> typed_store s \<and> in_memory s \<and> GetQueue s (t_Queue t) = Inr q \<and> \<not> sendable D s t \<and>
     (\<exists>t'. GetTask s (t_Name t) = Inr t' \<and> same_work t' t \<and> t_DispatchCount t' = 0 \<and> task_json_ok t')"

lemma attempt_stuck:
  assumes a: "stuck D q t s" and run: "t_RunRequested t = zero_time" and i: "time_json_ok (ai_clock2 i)"
  shows "stuck D q t (run_attempt D i s (t_Name t)) \<and>
    (\<exists>t'. GetTask (run_attempt D i s (t_Name t)) (t_Name t) = Inr t' \<and> t_DispatchCount t' = 0 \<and>
      t_ScheduleTime t' = ai_clock2 i)"
proof -
  let ?nm = "t_Name t" and ?b = "RetryBackoff (q_RetryConfig q)"
  have s: "typed_store s" "in_memory s" "GetQueue s (t_Queue t) = Inr q" "\<not> sendable D s t" using a by (simp_all add: stuck_def)
  obtain t' where t': "GetTask s ?nm = Inr t'" "same_work t' t" "t_DispatchCount t' = 0" "task_json_ok t'"
    using a by (auto simp: stuck_def)
  have nm: "t_Name t' = ?nm" "t_RunRequested t' = zero_time" "t_Queue t' = t_Queue t" using t'(2) run by (simp_all add: same_work_def)
  have "same_work t t'" using t'(2) by (simp add: same_work_def)
  then have ns: "\<not> sendable D s t'" using sendable_frame [of D s t' t s] s(4) nm(3) by blast
  then have "Dispatch D (ai_readings i) s t' (\<lambda>_. ai_outcome i) = (True, s, [])"
    by (auto simp: Dispatch_def dispatch_begin_def sendable_def unserved_def split: option.split)
  then have run_eq: "run_attempt D i s ?nm = reschedule (ai_clock1 i) (ai_clock2 i) (ai_now i) s ?nm"
    using t'(1) nm by (simp add: run_attempt_def)
  let ?t2 = "t'\<lparr>t_ScheduleTime := ai_clock2 i\<rparr>"
  have retry: "ShouldRetryAfter ?b 0 d" for d
    using WithDefaults_fields(4) [of "q_RetryConfig q"]
    by (simp add: ShouldRetryAfter_def CloudTasks_ShouldRetry_def RetryBackoff_def)
  have delay: "CloudTasks_Delay ?b 0 = 0" by (simp add: CloudTasks_Delay_def)
  have sw: "same_work ?t2 t'" "same_work ?t2 t" "task_json_ok ?t2"
    using t'(2,4) i by (simp_all add: same_work_def task_json_ok_def)
  have "get_task (ts_db s) (taskKey ?nm) = Some t'" using t'(1) by (simp add: GetTask_def split: option.splits)
  from typed_task [OF s(1) this] have "task_ok ?t2" using task_ok_same [OF _ sw(1)] by simp
  then obtain s2 where s2: "UpdateTask s ?t2 = (Inr (), s2)" "typed_store s2" "in_memory s2" "GetTask s2 ?nm = Inr ?t2"
      "\<And>q. GetQueue s2 q = GetQueue s q"
    using mem_UpdateTask [OF s(1,2) t'(1) nm(2), of ?t2] sw(3) nm(1) by auto
  have "run_attempt D i s ?nm = s2"
    using run_eq t'(1) nm(3) s(3) t'(3) retry delay s2(1) by (simp add: reschedule_def Let_def)
  moreover have "\<not> sendable D s2 t" using sendable_frame [of D s2 t t s] s(4) s2(5) by (auto simp: same_work_def)
  ultimately show ?thesis using s2 s(3) sw t'(3) by (simp add: stuck_def)
qed

text \<open>C38: A task whose request cannot be built, for an unusable URL or a token nobody can mint, is never given up:
  whatever the queue's retry policy, after any number of attempts it is there with no attempt counted
  and due again at once.\<close>

theorem unbuildable_task_is_retried_forever:
  assumes "stuck D q t s" "t_RunRequested t = zero_time" "\<And>j. time_json_ok (ai_clock2 (i j))"
  shows "\<exists>t'. GetTask (attempts D i (t_Name t) (Suc k) s) (t_Name t) = Inr t' \<and> t_DispatchCount t' = 0 \<and>
    t_ScheduleTime t' = ai_clock2 (i k)"
proof -
  have "stuck D q t (attempts D i (t_Name t) k s)"
    using assms attempt_stuck by (induction k) simp_all
  then show ?thesis using attempt_stuck [OF _ assms(2,3)] by simp
qed

theorem unbuildable_task_is_retried_forever_witness:
  "\<exists>t'. GetTask (attempts (NewDispatcher ((demo_lib demo_target)\<lparr>url_Parse := \<lambda>_. None\<rparr>)) (\<lambda>_. demo_input) demo_task 1000 demo_full)
     demo_task = Inr t' \<and> t_DispatchCount t' = 0"
proof -
  let ?D = "NewDispatcher ((demo_lib demo_target)\<lparr>url_Parse := \<lambda>_. None\<rparr>)"
  have t: "t_Name demo_t = demo_task" "t_Queue demo_t = demo_queue" "t_DispatchCount demo_t = 0" "task_json_ok demo_t"
    "t_RunRequested demo_t = zero_time"
    by (simp_all add: demo_t_def zero_task_def task_json_ok_def)
  have "\<not> sendable ?D demo_full demo_t"
    using demo_full_gets(2)
    by (simp add: sendable_def unserved_def sent_task_def demo_t_def demo_q_def zero_queue_def zero_task_def buildRequest_def
        NewRequest_def NewDispatcher_def demo_lib_def Let_def)
  then have "stuck ?D demo_q demo_t demo_full"
    using typed_demo_full demo_full_gets t by (simp add: stuck_def in_memory_def demo_full_def same_work_def)
  from unbuildable_task_is_retried_forever [OF this t(5), of "\<lambda>_. demo_input" 999] t(1)
  show ?thesis by (auto simp: demo_input_def)
qed

end
