(* ===== verification/Tasks_Worker.thy ===== *)
theory Tasks_Worker
  imports Tasks_Retry
begin

text \<open>
  \<open>Worker\<close> in \<open>dispatch.go\<close>: the token bucket that paces a queue, and the worker's passes over the due
  tasks with the attempts they start, as a step relation in which passes, attempts and API calls
  interleave. What holds a lock is one step; a pass reads the store, marks a task, reads it again and
  starts it in separate steps, and so does an attempt send, record and reschedule.
\<close>

section \<open>The token bucket\<close>

definition max_int32 :: int where
  "max_int32 = 2147483647"

definition effective_rate :: "f64 \<Rightarrow> f64" where
  "effective_rate rate =
     (if f64_le rate (Fin 0) \<or> rate = NaN then rl_MaxDispatchesPerSecond DefaultRateLimits else rate)"

text \<open>\<open>int(math.Ceil(x))\<close> of a float that is not above the range of \<open>int32\<close>.\<close>

fun ceil_int :: "f64 \<Rightarrow> int" where
  "ceil_int (Fin x) = int64_of_f64 (Fin (of_int \<lceil>x\<rceil>))"
| "ceil_int a = int64_of_f64 a"

definition BurstSize :: "f64 \<Rightarrow> int" where
  "BurstSize rate =
     (let rate = effective_rate rate in
      if f64_less (f64_of_int max_int32) rate then max_int32 else max 1 (ceil_int rate))"

text \<open>\<open>math.Min\<close>.\<close>

definition f64_min :: "f64 \<Rightarrow> f64 \<Rightarrow> f64" where
  "f64_min a b = (if a = NInf \<or> b = NInf then NInf else if a = NaN \<or> b = NaN then NaN else if f64_less a b then a else b)"

definition quarter_max :: f64 where
  "quarter_max = f64_of_int (max_int64 div 4)"

definition bucket_interval :: "f64 \<Rightarrow> duration" where
  "bucket_interval rate =
     (let i = int64_of_f64 (f64_min (f64_div (f64_of_int Second) (effective_rate rate)) quarter_max)
      in if i \<le> 0 then 1 else i)"

definition bucket_tolerance :: "duration \<Rightarrow> int \<Rightarrow> duration" where
  "bucket_tolerance interval burst =
     int64_of_f64 (f64_min (f64_mult (f64_of_int interval) (f64_of_int (burst - 1))) quarter_max)"

text \<open>A bucket is the time its next token is due; the result says whether a token was taken.\<close>

definition bucket_take :: "time \<Rightarrow> time \<Rightarrow> f64 \<Rightarrow> int \<Rightarrow> bool \<times> time" where
  "bucket_take nxt now rate burst =
     (let interval = bucket_interval rate; tolerance = bucket_tolerance interval burst in
      if now < nxt - tolerance then (False, nxt)
      else (True, (if nxt < now then now else nxt) + interval))"

text \<open>The times, out of those a token is asked for, at which one is granted.\<close>

fun grants :: "f64 \<Rightarrow> time \<Rightarrow> time list \<Rightarrow> time list" where
  "grants rate nxt [] = []"
| "grants rate nxt (t # ts) =
     (case bucket_take nxt t rate (BurstSize rate) of
        (True, nxt') \<Rightarrow> t # grants rate nxt' ts
      | (False, nxt') \<Rightarrow> grants rate nxt' ts)"

lemma bucket_interval_pos: "1 \<le> bucket_interval rate"
  by (simp add: bucket_interval_def Let_def)

lemma bucket_take_cases:
  obtains (denied) "bucket_take nxt t rate burst = (False, nxt)"
  | (granted) nxt' where "bucket_take nxt t rate burst = (True, nxt')" "nxt \<le> t + bucket_tolerance (bucket_interval rate) burst"
      "nxt + bucket_interval rate \<le> nxt'" "t + bucket_interval rate \<le> nxt'"
proof (cases "t < nxt - bucket_tolerance (bucket_interval rate) burst")
  case True
  then show thesis using denied by (simp add: bucket_take_def Let_def)
next
  case False
  then show thesis
    using granted [of "(if nxt < t then t else nxt) + bucket_interval rate"] by (simp add: bucket_take_def Let_def)
qed

lemma grants_spaced:
  "j < length (grants rate nxt ts) \<Longrightarrow> nxt + int j * bucket_interval rate \<le>
    grants rate nxt ts ! j + bucket_tolerance (bucket_interval rate) (BurstSize rate)"
proof (induction ts arbitrary: nxt j)
  case (Cons t ts)
  show ?case
  proof (cases rule: bucket_take_cases [of nxt t rate "BurstSize rate"])
    case denied
    then show ?thesis using Cons by simp
  next
    case (granted nxt')
    show ?thesis
    proof (cases j)
      case 0
      then show ?thesis using granted by simp
    next
      case (Suc i)
      with Cons.IH [of i nxt'] Cons.prems granted show ?thesis by (simp add: distrib_right)
    qed
  qed
qed simp

lemma grants_drop:
  "i < length (grants rate nxt ts) \<Longrightarrow> \<exists>nxt' ts'. drop (Suc i) (grants rate nxt ts) = grants rate nxt' ts' \<and>
    grants rate nxt ts ! i + bucket_interval rate \<le> nxt'"
proof (induction ts arbitrary: nxt i)
  case (Cons t ts)
  show ?case
  proof (cases rule: bucket_take_cases [of nxt t rate "BurstSize rate"])
    case denied
    then show ?thesis using Cons by simp
  next
    case (granted nxt')
    then show ?thesis using Cons by (cases i) auto
  qed
qed simp

lemma f64_of_nat_exact: "0 \<le> n \<Longrightarrow> n \<le> 2 ^ 53 \<Longrightarrow> f64_of_int n = Fin (of_int n)"
  using round64_int [of n] by (cases "n = 0") (simp add: f64_of_int_def round64_def, simp add: f64_of_int_def)

lemma quarter_big: "f64_big quarter_max"
proof -
  have "(2 :: rat) ^ 53 \<le> of_int (max_int64 div 4)" by (simp add: max_int64_def)
  then show ?thesis unfolding quarter_max_def f64_of_int_def by (rule round64_big)
qed

lemma f64_min_big: "f64_big z \<Longrightarrow> p \<le> 2 ^ 53 \<Longrightarrow> f64_min (Fin p) z = Fin p"
  by (cases z) (auto simp: f64_big_def f64_min_def)

lemmas min_quarter = f64_min_big [OF quarter_big]

lemma tolerance_exact:
  assumes "1 \<le> d" "d \<le> 2 ^ 53" "1 \<le> burst" "burst \<le> 2 ^ 53" "d * (burst - 1) \<le> 2 ^ 53"
  shows "bucket_tolerance d burst = d * (burst - 1)"
proof -
  have p: "0 \<le> d * (burst - 1)" using assms(1,3) by simp
  have "f64_mult (f64_of_int d) (f64_of_int (burst - 1)) = f64_of_int (d * (burst - 1))"
    using assms f64_of_nat_exact [of d] f64_of_nat_exact [of "burst - 1"]
    by (simp add: f64_of_int_def [of "d * (burst - 1)"])
  also have "\<dots> = Fin (of_int (d * (burst - 1)))" using p assms(5) by (rule f64_of_nat_exact)
  finally have "bucket_tolerance d burst = int64_of_f64 (f64_min (Fin (of_int (d * (burst - 1)))) quarter_max)"
    by (simp add: bucket_tolerance_def)
  also have "f64_min (Fin (of_int (d * (burst - 1)))) quarter_max = Fin (of_int (d * (burst - 1)))"
    using assms(5) by (intro min_quarter) (metis of_int_le_iff of_int_numeral of_int_power)
  finally show ?thesis
    using p assms(5) by (simp add: trunc_of_int min_int64_def max_int64_def del: of_int_mult of_int_diff)
qed

lemma BurstSize_pos: "1 \<le> BurstSize rate"
  by (simp add: BurstSize_def Let_def max_int32_def)

text \<open>C12: The token bucket keeps a queue to its rate: whenever tokens are asked for, among the granted ones any
  run of more than \<open>BurstSize\<close> takes at least an interval for each one above the burst. With \<open>k\<close> grants
  between the \<open>i\<close>-th and the \<open>j\<close>-th inclusive, \<open>(k - burst)\<close> intervals have passed.\<close>

theorem bucket_keeps_the_rate:
  assumes "bucket_interval rate * BurstSize rate \<le> 2 ^ 53"
    and "i \<le> j" "j < length (grants rate nxt ts)"
  shows "(int (j - i + 1) - BurstSize rate) * bucket_interval rate \<le> grants rate nxt ts ! j - grants rate nxt ts ! i"
proof -
  let ?g = "grants rate nxt ts" and ?I = "bucket_interval rate" and ?B = "BurstSize rate"
  have I: "1 \<le> ?I" and B: "1 \<le> ?B" by (rule bucket_interval_pos, rule BurstSize_pos)
  have "?I \<le> ?I * ?B" "?B \<le> ?I * ?B" "?I * (?B - 1) \<le> ?I * ?B"
    using I B by (simp_all add: mult_le_cancel_left1 mult_le_cancel_right1 mult_left_mono)
  then have T: "bucket_tolerance ?I ?B = ?I * (?B - 1)"
    using I B assms(1) by (intro tolerance_exact) linarith+
  show ?thesis
  proof (cases "i = j")
    case True
    have "(1 - ?B) * ?I \<le> 0" using I B by (simp add: mult_nonpos_nonneg)
    then show ?thesis using True by simp
  next
    case False
    then obtain m where m: "j = Suc i + m" using assms(2) by (metis le_neq_implies_less less_iff_Suc_add add_Suc)
    obtain nxt' ts' where d: "drop (Suc i) ?g = grants rate nxt' ts'" "?g ! i + ?I \<le> nxt'"
      using grants_drop [of i rate nxt ts] assms(2,3) by auto
    have len: "m < length (grants rate nxt' ts')" using assms(3) m unfolding d(1) [symmetric] by simp
    have "?g ! j = drop (Suc i) ?g ! m" using assms(3) m by simp
    then have "?g ! j = grants rate nxt' ts' ! m" by (simp add: d(1))
    with grants_spaced [OF len] T d(2) have "?g ! i + ?I + int m * ?I \<le> ?g ! j + ?I * (?B - 1)" by simp
    then show ?thesis using m by (simp add: algebra_simps)
  qed
qed

theorem bucket_keeps_the_rate_witness:
  "(int (2 - 0 + 1) - BurstSize (Fin 2)) * bucket_interval (Fin 2) \<le>
     grants (Fin 2) 0 [0, 1, 2, 600000000] ! 2 - grants (Fin 2) 0 [0, 1, 2, 600000000] ! 0"
proof -
  have "f64_div (f64_of_int Second) (Fin 2) = Fin 500000000"
    using round64_int [of 500000000] f64_of_nat_exact [of Second] by (simp add: Second_def)
  then have I: "bucket_interval (Fin 2) = 500000000"
    using min_quarter [of 500000000]
    by (simp add: bucket_interval_def effective_rate_def f64_le_def Let_def trunc_def min_int64_def max_int64_def)
  have B: "BurstSize (Fin 2) = 2"
    using f64_of_nat_exact [of max_int32]
    by (simp add: BurstSize_def effective_rate_def f64_le_def Let_def max_int32_def trunc_def min_int64_def max_int64_def)
  have T: "bucket_tolerance 500000000 2 = 500000000" using tolerance_exact [of 500000000 2] by simp
  have "length (grants (Fin 2) 0 [0, 1, 2, 600000000]) = 3"
    by (simp add: bucket_take_def I B T Let_def)
  then show ?thesis using bucket_keeps_the_rate [of "Fin 2" 0 2 0 "[0, 1, 2, 600000000]"] I B by simp
qed

section \<open>The worker\<close>

text \<open>
  A pass is at a task of its list (\<open>Looking\<close>), has marked it in flight (\<open>Marked\<close>), or has read it
  again and found it still to be dispatched (\<open>Checked\<close>, with what was read).
\<close>

datatype turn = Looking | Marked task | Checked task task

record pass =
  ps_now :: time
  ps_due :: "task list"
  ps_limits :: "rate_limits gomap"
  ps_turn :: turn

text \<open>
  An attempt: about to send, waiting for the answer with the task as counted, failed, about to write
  what it read when it rescheduled, or over and still marked in flight.
\<close>

datatype phase = Starting | Waiting task | Failing | Deciding task queue | Ended

text \<open>
  The maps of the worker read as zero where a key is missing, and a missing bucket is made as the zero
  bucket. \<open>wk_delivered\<close> is history, not state of the code: the tasks that were answered 2xx, deleted
  for it and not created again.
\<close>

record worker =
  wk_store :: tasks_store
  wk_inflight :: "string \<Rightarrow> bool"
  wk_perQueue :: "string \<Rightarrow> int"
  wk_buckets :: "string \<Rightarrow> time"
  wk_pass :: "pass option"
  wk_running :: "(task \<times> phase) list"
  wk_delivered :: "string set"

definition NewWorker :: "tasks_store \<Rightarrow> worker" where
  "NewWorker s = \<lparr>wk_store = s, wk_inflight = (\<lambda>_. False), wk_perQueue = (\<lambda>_. 0), wk_buckets = (\<lambda>_. zero_time),
     wk_pass = None, wk_running = [], wk_delivered = {}\<rparr>"

definition queue_limit :: "tasks_store \<Rightarrow> string \<Rightarrow> rate_limits" where
  "queue_limit s nm =
     (case GetQueue s nm of
        Inl _ \<Rightarrow> DefaultRateLimits
      | Inr q \<Rightarrow>
          let limit = DefaultRateLimits; rl = q_RateLimits q;
              limit = (if rl_MaxConcurrentDispatches rl > 0
                       then limit\<lparr>rl_MaxConcurrentDispatches := rl_MaxConcurrentDispatches rl\<rparr> else limit)
          in if f64_less (Fin 0) (rl_MaxDispatchesPerSecond rl)
             then limit\<lparr>rl_MaxDispatchesPerSecond := rl_MaxDispatchesPerSecond rl\<rparr> else limit)"

definition limit_for :: "tasks_store \<Rightarrow> pass \<Rightarrow> string \<Rightarrow> rate_limits" where
  "limit_for s p nm = (case map_of (ps_limits p) nm of Some l \<Rightarrow> l | None \<Rightarrow> queue_limit s nm)"

definition to_mark :: "worker \<Rightarrow> task \<Rightarrow> worker" where
  "to_mark w t =
     w\<lparr>wk_inflight := (wk_inflight w)(t_Name t := True),
       wk_perQueue := (wk_perQueue w)(t_Queue t := wk_perQueue w (t_Queue t) + 1)\<rparr>"

definition release :: "worker \<Rightarrow> task \<Rightarrow> worker" where
  "release w t =
     w\<lparr>wk_inflight := (wk_inflight w)(t_Name t := False),
       wk_perQueue := (wk_perQueue w)(t_Queue t := wk_perQueue w (t_Queue t) - 1)\<rparr>"

text \<open>
  What \<open>startAll\<close> does with the next task up to marking it: a forced run passes over the limits, any
  other task needs room in its queue and a token; a task in flight waits.
\<close>

definition look :: "worker \<Rightarrow> pass \<Rightarrow> task \<Rightarrow> task list \<Rightarrow> worker" where
  "look w p t rest =
     (let limit = limit_for (wk_store w) p (t_Queue t);
          p = p\<lparr>ps_due := rest, ps_limits := AList.update (t_Queue t) limit (ps_limits p)\<rparr>;
          forced = (t_RunRequested t \<noteq> zero_time);
          skip = w\<lparr>wk_pass := Some p\<rparr>
      in if forced \<and> \<not> wk_inflight w (t_Name t) then (to_mark w t)\<lparr>wk_pass := Some (p\<lparr>ps_turn := Marked t\<rparr>)\<rparr>
         else if forced \<or> wk_inflight w (t_Name t) \<or> rl_MaxConcurrentDispatches limit \<le> wk_perQueue w (t_Queue t) then skip
         else
           let rate = rl_MaxDispatchesPerSecond limit in
           (case bucket_take (wk_buckets w (t_Queue t)) (ps_now p) rate (BurstSize rate) of
              (False, _) \<Rightarrow> skip
            | (True, nxt) \<Rightarrow>
                (to_mark w t)\<lparr>wk_buckets := (wk_buckets w)(t_Queue t := nxt),
                              wk_pass := Some (p\<lparr>ps_turn := Marked t\<rparr>)\<rparr>))"

text \<open>\<open>current\<close>: the task as stored, if it is still to be dispatched; \<open>due\<close> zero stands for a forced run.\<close>

definition current_task :: "tasks_store \<Rightarrow> string \<Rightarrow> time \<Rightarrow> task option" where
  "current_task s nm due =
     (case GetTask s nm of
        Inl _ \<Rightarrow> None
      | Inr t \<Rightarrow> if due \<noteq> zero_time \<and> t_ScheduleTime t > due \<and> t_RunRequested t = zero_time then None else Some t)"

definition check_again :: "worker \<Rightarrow> pass \<Rightarrow> task \<Rightarrow> worker" where
  "check_again w p t =
     (let forced = (t_RunRequested t \<noteq> zero_time); again = p\<lparr>ps_turn := Looking\<rparr> in
      case current_task (wk_store w) (t_Name t) (if forced then zero_time else ps_now p) of
        None \<Rightarrow> (release w t)\<lparr>wk_pass := Some again\<rparr>
      | Some fresh \<Rightarrow>
          if forced \<and> t_RunRequested fresh \<noteq> t_RunRequested t then (release w t)\<lparr>wk_pass := Some again\<rparr>
          else w\<lparr>wk_pass := Some (p\<lparr>ps_turn := Checked t fresh\<rparr>)\<rparr>)"

text \<open>A forced run is taken, cleared and started; any other task is started as it was read.\<close>

definition start :: "worker \<Rightarrow> pass \<Rightarrow> task \<Rightarrow> task \<Rightarrow> worker" where
  "start w p t fresh =
     (let w = w\<lparr>wk_pass := Some (p\<lparr>ps_turn := Looking\<rparr>)\<rparr> in
      if t_RunRequested t \<noteq> zero_time
      then w\<lparr>wk_store := TakeRun (wk_store w) (t_Name fresh) (t_RunRequested fresh),
             wk_running := (fresh\<lparr>t_RunRequested := zero_time\<rparr>, Starting) # wk_running w\<rparr>
      else w\<lparr>wk_running := (fresh, Starting) # wk_running w\<rparr>)"

text \<open>The calls the API makes; the worker alone writes tasks back and takes forced runs.\<close>

fun api_call :: "store_call \<Rightarrow> bool" where
  "api_call (C_UpdateTask t) = False"
| "api_call (C_TakeRun nm requested) = False"
| "api_call c = call_ok c"

fun created :: "store_call \<Rightarrow> string set" where
  "created (C_CreateTask L now wall t) = {t_Name t}"
| "created c = {}"

text \<open>Which queue a task is filed in, given its name: \<open>files G c\<close> says a call files tasks as \<open>G\<close> allows.\<close>

fun files :: "(string \<Rightarrow> string \<Rightarrow> bool) \<Rightarrow> store_call \<Rightarrow> bool" where
  "files G (C_CreateTask L now wall t) =
     (case check_task t of Inl _ \<Rightarrow> True | Inr n \<Rightarrow> G (t_Name t) (t_Queue (filed n t)))"
| "files G (C_UpdateTask t) = G (t_Name t) (t_Queue t)"
| "files G c = True"

text \<open>
  The second half of \<open>reschedule\<close>, with what the first half read.
\<close>

definition decide :: "time \<Rightarrow> time \<Rightarrow> time \<Rightarrow> tasks_store \<Rightarrow> task \<Rightarrow> queue \<Rightarrow> tasks_store" where
  "decide clock1 clock2 now s current q =
     (let b = RetryBackoff (q_RetryConfig q) in
      if \<not> ShouldRetryAfter b (t_DispatchCount current) (time_sub clock1 (t_FirstAttempt current))
      then snd (DeleteTask now s (t_Name current))
      else snd (UpdateTask s (current\<lparr>t_ScheduleTime := clock2 + CloudTasks_Delay b (t_DispatchCount current)\<rparr>)))"

inductive worker_step :: "dispatcher \<Rightarrow> (string \<Rightarrow> string \<Rightarrow> bool) \<Rightarrow> worker \<Rightarrow> worker \<Rightarrow> bool" for D G where
  api: "api_call c \<Longrightarrow> files G c \<Longrightarrow>
    worker_step D G w (w\<lparr>wk_store := exec_call c (wk_store w), wk_delivered := wk_delivered w - created c\<rparr>)"
| begin_pass: "wk_pass w = None \<Longrightarrow>
    worker_step D G w (w\<lparr>wk_pass := Some \<lparr>ps_now = now, ps_due = DueTasks (wk_store w) now, ps_limits = [], ps_turn = Looking\<rparr>\<rparr>)"
| end_pass: "wk_pass w = Some p \<Longrightarrow> ps_turn p = Looking \<Longrightarrow> worker_step D G w (w\<lparr>wk_pass := None\<rparr>)"
| look: "wk_pass w = Some p \<Longrightarrow> ps_turn p = Looking \<Longrightarrow> ps_due p = t # rest \<Longrightarrow> worker_step D G w (look w p t rest)"
| check: "wk_pass w = Some p \<Longrightarrow> ps_turn p = Marked t \<Longrightarrow> worker_step D G w (check_again w p t)"
| start: "wk_pass w = Some p \<Longrightarrow> ps_turn p = Checked t fresh \<Longrightarrow> worker_step D G w (start w p t fresh)"
| build_fails: "wk_running w = xs @ (t, Starting) # ys \<Longrightarrow> dispatch_begin D rd (wk_store w) t = (Failed ev, s') \<Longrightarrow>
    worker_step D G w (w\<lparr>wk_store := s', wk_running := xs @ (t, Failing) # ys\<rparr>)"
| send: "wk_running w = xs @ (t, Starting) # ys \<Longrightarrow> dispatch_begin D rd (wk_store w) t = (Send req t', s') \<Longrightarrow>
    worker_step D G w (w\<lparr>wk_store := s', wk_running := xs @ (t, Waiting t') # ys\<rparr>)"
| delivered: "wk_running w = xs @ (t, Waiting t') # ys \<Longrightarrow> dispatch_end D rd (wk_store w) t' out = (False, s', ev) \<Longrightarrow>
    worker_step D G w (w\<lparr>wk_store := s', wk_running := xs @ (t, Ended) # ys, wk_delivered := insert (t_Name t') (wk_delivered w)\<rparr>)"
| failed: "wk_running w = xs @ (t, Waiting t') # ys \<Longrightarrow> dispatch_end D rd (wk_store w) t' out = (True, s', ev) \<Longrightarrow>
    worker_step D G w (w\<lparr>wk_store := s', wk_running := xs @ (t, Failing) # ys\<rparr>)"
| reread: "wk_running w = xs @ (t, Failing) # ys \<Longrightarrow> GetTask (wk_store w) (t_Name t) = Inr current \<Longrightarrow>
    GetQueue (wk_store w) (t_Queue current) = Inr q \<Longrightarrow>
    worker_step D G w (w\<lparr>wk_running := xs @ (t, Deciding current q) # ys\<rparr>)"
| lost: "wk_running w = xs @ (t, Failing) # ys \<Longrightarrow>
    (\<nexists>current q. GetTask (wk_store w) (t_Name t) = Inr current \<and> GetQueue (wk_store w) (t_Queue current) = Inr q) \<Longrightarrow>
    worker_step D G w (w\<lparr>wk_running := xs @ (t, Ended) # ys\<rparr>)"
| retry: "wk_running w = xs @ (t, Deciding current q) # ys \<Longrightarrow>
    worker_step D G w (w\<lparr>wk_store := decide clock1 clock2 now (wk_store w) current q, wk_running := xs @ (t, Ended) # ys\<rparr>)"
| finish: "wk_running w = xs @ (t, Ended) # ys \<Longrightarrow>
    worker_step D G w ((release w t)\<lparr>wk_running := xs @ ys\<rparr>)"

section \<open>What a call does to a task\<close>

lemma spec_ops_absent: "f k = None \<Longrightarrow> (\<forall>p\<in>set ops. \<forall>v. p \<noteq> OpPut k v) \<Longrightarrow> spec_ops ops f k = None"
proof (induction ops arbitrary: f)
  case (Cons p ops)
  have "spec_op p f k = None" using Cons.prems by (cases p) auto
  then show ?case using Cons by simp
qed simp

lemma spec_ops_drop: "(\<forall>p\<in>set ops. \<forall>v. p \<noteq> OpPut k v) \<Longrightarrow> spec_ops ops f k = f k \<or> spec_ops ops f k = None"
proof (induction ops arbitrary: f)
  case (Cons p ops)
  have "spec_op p f k = f k \<or> spec_op p f k = None" using Cons.prems by (cases p) auto
  then show ?case
  proof (elim disjE)
    assume "spec_op p f k = f k"
    then show ?thesis using Cons.IH [of "spec_op p f"] Cons.prems by auto
  next
    assume "spec_op p f k = None"
    then show ?thesis using spec_ops_absent [of "spec_op p f" k ops] Cons.prems by auto
  qed
qed simp

lemma commit_drop:
  assumes "ts_ok s" "\<forall>p\<in>set ops. \<forall>v. p \<noteq> OpPut k v"
  shows "ts_view (snd (commit s ops)) k = ts_view s k \<or> ts_view (snd (commit s ops)) k = None"
  by (rule commit_cases [OF assms(1), of ops]) (use spec_ops_drop [OF assms(2)] in auto)

lemma commit_drop_deletes:
  "ts_ok s \<Longrightarrow> (\<And>v. p \<noteq> OpPut k v) \<Longrightarrow>
   ts_view (snd (commit s (p # map OpDelete ks))) k = ts_view s k \<or> ts_view (snd (commit s (p # map OpDelete ks))) k = None"
  by (rule commit_drop) auto

lemma no_puts [simp]:
  "p \<in> set (expiredTombstones d now) \<Longrightarrow> p \<noteq> OpPut k v"
  by (auto simp: expiredTombstones_def)

lemma DeleteTask_commit:
  obtains (refused) e where "DeleteTask now s n = (Inl e, s)"
  | (commit) s0 ops where "DeleteTask now s n = commit s0 (OpDelete (taskKey n) # ops)" "ts_db s0 = ts_db s"
      "\<And>p m v. p \<in> set ops \<Longrightarrow> p \<noteq> OpPut (taskKey m) v"
proof (cases "get_task (ts_db s) (taskKey n)")
  case None
  then show thesis using refused [of NotFound] by (simp add: DeleteTask_def)
next
  case (Some t)
  let ?tomb = "if t_NamedByServer t then Some []
    else map_option (\<lambda>b. [OpPut (tombstoneKey n) b]) (json_Marshal (JTime (now + TombstoneTTL)))"
  show thesis
  proof (cases ?tomb)
    case None
    with Some show thesis using refused [of Internal] by (simp add: DeleteTask_def)
  next
    case tomb: (Some ops)
    then have "p \<in> set ops \<Longrightarrow> p \<noteq> OpPut (taskKey m) v" for p m v by (auto split: if_splits)
    then have "p \<in> set (ops @ expiredTombstones (ts_db s) now) \<Longrightarrow> p \<noteq> OpPut (taskKey m) v"
      "p \<in> set ops \<Longrightarrow> p \<noteq> OpPut (taskKey m) v" for p m v by (auto dest: no_puts)
    then show thesis
      using commit [of s ops] commit [of "s\<lparr>ts_swept := now\<rparr>" "ops @ expiredTombstones (ts_db s) now"] Some tomb
      by (cases "tombstoneSweep \<le> time_sub now (ts_swept s)") (simp_all add: DeleteTask_def)
  qed
qed

lemma DeleteTask_view:
  assumes "ts_ok s"
  shows "ts_view (snd (DeleteTask now s n)) (taskKey m) = ts_view s (taskKey m) \<or>
      ts_view (snd (DeleteTask now s n)) (taskKey m) = None"
    and "DeleteTask now s n = (Inr (), s') \<Longrightarrow> ts_view s' (taskKey n) = None"
proof -
  have "(ts_view (snd (DeleteTask now s n)) (taskKey m) = ts_view s (taskKey m) \<or>
      ts_view (snd (DeleteTask now s n)) (taskKey m) = None) \<and>
    (DeleteTask now s n = (Inr (), s') \<longrightarrow> ts_view s' (taskKey n) = None)"
  proof (cases rule: DeleteTask_commit [of now s n])
    case c: (commit s0 ops)
    have ok: "ts_ok s0" using assms c(2) by simp
    have "\<forall>p\<in>set (OpDelete (taskKey n) # ops). \<forall>v. p \<noteq> OpPut (taskKey m) v" for m using c(3) by auto
    from commit_drop [OF ok this] show ?thesis
      by (cases rule: commit_cases [OF ok, of "OpDelete (taskKey n) # ops"])
        (use c in \<open>auto simp: spec_ops_absent\<close>)
  qed simp
  then show "ts_view (snd (DeleteTask now s n)) (taskKey m) = ts_view s (taskKey m) \<or>
      ts_view (snd (DeleteTask now s n)) (taskKey m) = None"
    and "DeleteTask now s n = (Inr (), s') \<Longrightarrow> ts_view s' (taskKey n) = None" by simp_all
qed

text \<open>
  After a call a task is as it was, or gone, or written: created under its own name, or written over
  the task that was there, in the same queue but for \<open>UpdateTask\<close>, which brings its own.
\<close>

lemma put_task_view:
  assumes "ts_ok s"
  shows "ts_view (snd (put s (taskKey n) (JTask t))) (taskKey m) = ts_view s (taskKey m) \<or>
    m = n \<and> ts_view (snd (put s (taskKey n) (JTask t))) (taskKey m) = Some (JTask t)"
  by (rule put_cases [OF assms, of "taskKey n" "JTask t"]) auto

definition rewritten :: "store_call \<Rightarrow> string \<Rightarrow> task \<Rightarrow> task \<Rightarrow> bool" where
  "rewritten c m old t \<longleftrightarrow> t_Queue t = t_Queue old \<or> (\<exists>t0. c = C_UpdateTask t0 \<and> t_Name t0 = m \<and> t_Queue t = t_Queue t0)"

lemma put_rewrite:
  assumes "ts_ok s" "get_task (ts_db s) (taskKey n) = Some old" "rewritten c n old t"
  shows "ts_view (snd (put s (taskKey n) (JTask t))) (taskKey m) = ts_view s (taskKey m) \<or>
    (\<exists>t' old. ts_view s (taskKey m) = Some (JTask old) \<and>
       ts_view (snd (put s (taskKey n) (JTask t))) (taskKey m) = Some (JTask t') \<and> rewritten c m old t')"
  using put_task_view [OF assms(1), of n t m] assms(2,3) by (auto simp: get_iff(2) [OF assms(1)])

lemma call_task:
  assumes s: "ts_ok s"
  shows "ts_view (exec_call c s) (taskKey m) = ts_view s (taskKey m) \<or> ts_view (exec_call c s) (taskKey m) = None \<or>
    (\<exists>t old. ts_view s (taskKey m) = Some (JTask old) \<and> ts_view (exec_call c s) (taskKey m) = Some (JTask t) \<and> rewritten c m old t) \<or>
    (\<exists>L now wall t n. c = C_CreateTask L now wall t \<and> m = t_Name t \<and> check_task t = Inr n \<and>
       ts_view (exec_call c s) (taskKey m) = Some (JTask (new_task wall (filed n t))))"
proof (cases c)
  case (C_CreateQueue wall q)
  then show ?thesis using queue_puts_same_at [OF s]
    by (auto simp: CreateQueue_def Let_def split: sum.split)
next
  case (C_UpdateQueue wall n update)
  then show ?thesis using queue_puts_same_at [OF s]
    by (auto simp: UpdateQueue_def Let_def split: sum.split prod.split)
next
  case (C_SetIamPolicy lt_name rnd n req)
  then show ?thesis using queue_puts_same_at [OF s]
    by (auto simp: SetIamPolicy_def split: sum.split option.split)
next
  case (C_SetQueueState n st)
  then show ?thesis using queue_puts_same_at [OF s]
    by (auto simp: SetQueueState_def Let_def split: option.split)
next
  case (C_keepBatchOperation q r p)
  then show ?thesis using db_Put_other [OF s] by (simp add: keepBatchOperation_def)
next
  case (C_UpdateCmekConfig cfg paths)
  have "snd (clear_cmek s k) = s\<lparr>ts_db := snd (db_Delete (ts_db s) k)\<rparr>" for k
    by (auto simp: clear_cmek_def split: prod.split sum.split)
  with C_UpdateCmekConfig show ?thesis using db_Delete_other [OF s] put_other [OF s]
    by (simp add: UpdateCmekConfig_def Let_def)
next
  case (C_DeleteTask now n)
  then show ?thesis using DeleteTask_view(1) [OF s] by auto
next
  case (C_DeleteQueue n)
  then show ?thesis
    using commit_drop_deletes [OF s, of "OpDelete (queueKey n)" "taskKey m"
        "db_List (ts_db s) (taskKey (n @ ''/tasks/'')) @ db_List (ts_db s) (tombstoneKey (n @ ''/tasks/''))"]
    by (cases "db_Get (ts_db s) (queueKey n)") (auto simp: DeleteQueue_def Let_def simp del: map_append)
next
  case (C_PurgeQueue now n)
  have "ts_view (snd (commit s (OpPut (queueKey n) b # map OpDelete ks))) (taskKey m) = ts_view s (taskKey m) \<or>
      ts_view (snd (commit s (OpPut (queueKey n) b # map OpDelete ks))) (taskKey m) = None" for b ks
    by (rule commit_drop_deletes [OF s]) simp
  then show ?thesis using C_PurgeQueue
    by (auto simp: PurgeQueue_def Let_def simp del: json_Marshal.simps split: option.split)
next
  case (C_CreateTask L now wall t)
  show ?thesis
  proof (cases rule: CreateTask_cases [of L now wall s t])
    case (create n q s1)
    then have "ts_ok s1" "ts_view s1 (taskKey m) = ts_view s (taskKey m)" using s by (auto simp: db_Delete_other)
    then show ?thesis using put_task_view [of s1 "t_Name t" "new_task wall (filed n t)" m] C_CreateTask create by auto
  qed (use C_CreateTask in simp)
next
  case (C_UpdateTask t)
  show ?thesis
  proof (cases "get_task (ts_db s) (taskKey (t_Name t))")
    case (Some old)
    have "rewritten c (t_Name t) old t" "rewritten c (t_Name t) old (t\<lparr>t_RunRequested := t_RunRequested old\<rparr>)"
      using C_UpdateTask by (simp_all add: rewritten_def)
    from this [THEN put_rewrite [OF s Some, of c _ m]] show ?thesis
      using Some C_UpdateTask by (auto simp: UpdateTask_def Let_def)
  qed (use C_UpdateTask in \<open>simp add: UpdateTask_def\<close>)
next
  case (C_RunTask now n)
  show ?thesis
  proof (cases "get_task (ts_db s) (taskKey n)")
    case (Some old)
    have "rewritten c n old (old\<lparr>t_RunRequested := now\<rparr>)" by (simp add: rewritten_def)
    from put_rewrite [OF s Some this, of m] show ?thesis
      using Some C_RunTask by (auto simp: RunTask_def Let_def)
  qed (use C_RunTask in \<open>simp add: RunTask_def\<close>)
next
  case (C_TakeRun n requested)
  show ?thesis
  proof (cases "get_task (ts_db s) (taskKey n)")
    case (Some old)
    have "rewritten c n old (old\<lparr>t_RunRequested := zero_time\<rparr>)" by (simp add: rewritten_def)
    from put_rewrite [OF s Some this, of m] show ?thesis
      using Some C_TakeRun by (auto simp: TakeRun_def Let_def)
  qed (use C_TakeRun in \<open>simp add: TakeRun_def\<close>)
qed

section \<open>The worker's own writes\<close>

definition filed_store :: "(string \<Rightarrow> string \<Rightarrow> bool) \<Rightarrow> tasks_store \<Rightarrow> bool" where
  "filed_store G s \<longleftrightarrow> typed_store s \<and> (\<forall>m t. ts_view s (taskKey m) = Some (JTask t) \<longrightarrow> G m (t_Queue t))"

abbreviation absent :: "tasks_store \<Rightarrow> string \<Rightarrow> bool" where
  "absent s n \<equiv> ts_view s (taskKey n) = None"

lemma filed_call:
  assumes "filed_store G s" "call_ok c" "files G c"
  shows "filed_store G (exec_call c s)"
proof -
  have s: "ts_ok s" "typed_store (exec_call c s)"
    using assms typed_call by (auto simp: filed_store_def typed_store_def)
  have "G m (t_Queue t)" if t: "ts_view (exec_call c s) (taskKey m) = Some (JTask t)" for m t
    using call_task [OF s(1), of c m] t assms
    by (auto simp: filed_store_def rewritten_def new_task_fields)
  with s(2) show ?thesis by (simp add: filed_store_def)
qed

lemma absent_call: "ts_ok s \<Longrightarrow> absent s m \<Longrightarrow> m \<notin> created c \<Longrightarrow> absent (exec_call c s) m"
  using call_task [of s c m] by auto

text \<open>The store changes of the worker: none, or a call that creates nothing.\<close>

definition own_step :: "(string \<Rightarrow> string \<Rightarrow> bool) \<Rightarrow> tasks_store \<Rightarrow> tasks_store \<Rightarrow> bool" where
  "own_step G s s' \<longleftrightarrow> s' = s \<or> (\<exists>c. s' = exec_call c s \<and> call_ok c \<and> files G c \<and> created c = {})"

lemma own_step_refl [simp]: "own_step G s s"
  by (simp add: own_step_def)

lemma own_step_filed: "own_step G s s' \<Longrightarrow> filed_store G s \<Longrightarrow> filed_store G s'"
  by (auto simp: own_step_def filed_call)

lemma own_step_absent: "own_step G s s' \<Longrightarrow> filed_store G s \<Longrightarrow> absent s m \<Longrightarrow> absent s' m"
  by (auto simp: own_step_def filed_store_def typed_store_def intro: absent_call)

definition good :: "(string \<Rightarrow> string \<Rightarrow> bool) \<Rightarrow> task \<Rightarrow> bool" where
  "good G t \<longleftrightarrow> task_ok t \<and> G (t_Name t) (t_Queue t)"

lemma own_writes:
  "good G t \<Longrightarrow> own_step G s (snd (UpdateTask s t))"
  "own_step G s (snd (DeleteTask now s nm))"
  "own_step G s (TakeRun s nm requested)"
proof -
  show "own_step G s (snd (UpdateTask s t))" if "good G t"
    unfolding own_step_def using that by (intro disjI2 exI [of _ "C_UpdateTask t"]) (simp add: good_def)
  show "own_step G s (snd (DeleteTask now s nm))"
    unfolding own_step_def by (intro disjI2 exI [of _ "C_DeleteTask now nm"]) simp
  show "own_step G s (TakeRun s nm requested)"
    unfolding own_step_def by (intro disjI2 exI [of _ "C_TakeRun nm requested"]) simp
qed

lemma good_frame:
  "good G t \<Longrightarrow> t_Name t' = t_Name t \<Longrightarrow> t_Queue t' = t_Queue t \<Longrightarrow> has_target t' = has_target t \<Longrightarrow> good G t'"
  using task_ok_frame [of t t'] by (simp add: good_def)

lemma write_back_fields:
  "t_Name (bump first t) = t_Name t" "t_Queue (bump first t) = t_Queue t" "has_target (bump first t) = has_target t"
  "t_Name (attemptAppEngine s st rs t a) = t_Name t" "t_Queue (attemptAppEngine s st rs t a) = t_Queue t"
  "has_target (attemptAppEngine s st rs t a) = has_target t"
  "t_Name (responded rd t code text) = t_Name t" "t_Queue (responded rd t code text) = t_Queue t"
  "has_target (responded rd t code text) = has_target t"
  "t_Name (unanswered rd t) = t_Name t" "t_Queue (unanswered rd t) = t_Queue t"
  "has_target (unanswered rd t) = has_target t"
  "has_target (t\<lparr>t_ScheduleTime := when\<rparr>) = has_target t" "has_target (t\<lparr>t_RunRequested := when\<rparr>) = has_target t"
  by (simp_all add: bump_def attemptAppEngine_def responded_def unanswered_def has_target_def Let_def)

lemma good_write_backs:
  assumes "good G t"
  shows "good G (bump first t)" "good G (attemptAppEngine s st rs (bump first t) a)"
    "good G (responded rd t code text)" "good G (unanswered rd t)" "good G (t\<lparr>t_ScheduleTime := when\<rparr>)"
    "good G (t\<lparr>t_RunRequested := when\<rparr>)"
  by (auto intro!: good_frame [OF assms] simp: write_back_fields)

lemma dispatch_begin_own:
  assumes "dispatch_begin D rd s t = (b, s')" "good G t"
  shows "own_step G s s'" "b = Send req t' \<Longrightarrow> good G t' \<and> t_Name t' = t_Name t \<and> t_Queue t' = t_Queue t"
  using assms good_write_backs [OF assms(2)]
  by (auto simp: dispatch_begin_def Let_def write_back_fields intro: own_writes split: option.splits)

lemma dispatch_end_own:
  assumes "dispatch_end D rd s t out = (err, s', ev)" "good G t"
  shows "own_step G s s'" "\<not> err \<Longrightarrow> ts_ok s \<Longrightarrow> absent s' (t_Name t)"
proof -
  show "own_step G s s'"
  proof (cases out)
    case (NoResponse deadline)
    then show ?thesis using assms good_write_backs [OF assms(2)]
      by (auto simp: dispatch_end_def Let_def intro: own_writes)
  next
    case (Response st reason)
    have "own_step G s (snd (DeleteTask (rd_deleted rd) s (t_Name t)))" by (rule own_writes)
    with Response show ?thesis using assms good_write_backs [OF assms(2)]
      by (auto simp: dispatch_end_def Let_def write_back_fields intro: own_writes split: if_splits prod.splits)
  qed
  show "absent s' (t_Name t)" if "\<not> err" "ts_ok s"
    using assms(1) that DeleteTask_view(2) [OF that(2), of "rd_deleted rd" "t_Name t" s']
    by (auto simp: dispatch_end_def Let_def write_back_fields isl_def split: http_outcome.splits if_splits prod.splits)
      (metis old.unit.exhaust sum.exhaust)
qed

lemma decide_own: "good G current \<Longrightarrow> own_step G s (decide clock1 clock2 now s current q)"
  using good_write_backs [of G current] by (auto simp: decide_def Let_def intro: own_writes)

section \<open>The invariant of the worker\<close>

fun turn_held :: "turn \<Rightarrow> task list" where
  "turn_held Looking = []"
| "turn_held (Marked t) = [t]"
| "turn_held (Checked t fresh) = [fresh]"

definition pass_held :: "pass option \<Rightarrow> task list" where
  "pass_held p = (case p of None \<Rightarrow> [] | Some p \<Rightarrow> turn_held (ps_turn p))"

text \<open>The tasks a mark is held for: the one the pass is at, and those with an attempt out.\<close>

definition held :: "worker \<Rightarrow> task list" where
  "held w = pass_held (wk_pass w) @ map fst (wk_running w)"

fun phase_ok :: "(string \<Rightarrow> string \<Rightarrow> bool) \<Rightarrow> task \<Rightarrow> phase \<Rightarrow> bool" where
  "phase_ok G t (Waiting t') \<longleftrightarrow> good G t' \<and> t_Name t' = t_Name t \<and> t_Queue t' = t_Queue t"
| "phase_ok G t (Deciding c q) \<longleftrightarrow> good G c \<and> t_Name c = t_Name t"
| "phase_ok G t ph \<longleftrightarrow> True"

text \<open>An attempt that has sent, or may still send, its request and has no answer.\<close>

fun unanswered_phase :: "phase \<Rightarrow> bool" where
  "unanswered_phase Starting = True"
| "unanswered_phase (Waiting t) = True"
| "unanswered_phase ph = False"

definition pass_ok :: "(string \<Rightarrow> string \<Rightarrow> bool) \<Rightarrow> pass option \<Rightarrow> bool" where
  "pass_ok G p = (case p of None \<Rightarrow> True
    | Some p \<Rightarrow> (\<forall>t\<in>set (ps_due p). good G t) \<and>
        (case ps_turn p of Checked t fresh \<Rightarrow> t_Name fresh = t_Name t | _ \<Rightarrow> True))"

text \<open>What the pass is about to start and what is started and not answered.\<close>

definition committed :: "worker \<Rightarrow> task set" where
  "committed w = {t. \<exists>ph. (t, ph) \<in> set (wk_running w) \<and> unanswered_phase ph} \<union>
     (case wk_pass w of Some p \<Rightarrow> (case ps_turn p of Checked t fresh \<Rightarrow> {fresh} | _ \<Rightarrow> {}) | None \<Rightarrow> {})"

definition worker_inv :: "(string \<Rightarrow> string \<Rightarrow> bool) \<Rightarrow> worker \<Rightarrow> bool" where
  "worker_inv G w \<longleftrightarrow> filed_store G (wk_store w) \<and> pass_ok G (wk_pass w) \<and> list_all (good G) (held w) \<and>
     list_all (\<lambda>(t, ph). phase_ok G t ph) (wk_running w) \<and> distinct (map t_Name (held w)) \<and>
     (\<forall>n. wk_inflight w n \<longleftrightarrow> n \<in> set (map t_Name (held w))) \<and>
     (\<forall>n\<in>wk_delivered w. absent (wk_store w) n) \<and> wk_delivered w \<inter> t_Name ` committed w = {}"

text \<open>One attempt moves on, with a write of its own or none.\<close>

lemma phase_step:
  assumes inv: "worker_inv G w" and r: "wk_running w = xs @ (t, ph) # ys"
    and s: "own_step G (wk_store w) s'" and ok: "phase_ok G t ph'" and live: "unanswered_phase ph' \<Longrightarrow> unanswered_phase ph"
  shows "worker_inv G (w\<lparr>wk_store := s', wk_running := xs @ (t, ph') # ys\<rparr>)" (is "worker_inv G ?w")
proof -
  have held: "held ?w = held w" by (simp add: held_def r)
  have "committed ?w \<subseteq> committed w" using live by (auto simp: committed_def r)
  then have com: "D \<inter> t_Name ` committed w = {} \<Longrightarrow> D \<inter> t_Name ` committed ?w = {}" for D by blast
  have "filed_store G (wk_store w)" using inv by (simp add: worker_inv_def)
  from own_step_filed [OF s this] own_step_absent [OF s this] show ?thesis
    unfolding worker_inv_def held using inv ok com by (simp add: worker_inv_def r)
qed

lemma held_nth:
  assumes "worker_inv G w" "wk_running w = xs @ (t, ph) # ys"
  shows "good G t" "phase_ok G t ph" "t_Name t \<notin> t_Name ` set (map fst xs @ map fst ys)"
    "t_Name t \<notin> t_Name ` set (pass_held (wk_pass w))"
  using assms by (auto simp: worker_inv_def held_def)

lemma delivered_step:
  assumes inv: "worker_inv G w" and r: "wk_running w = xs @ (t, Waiting t') # ys"
    and e: "dispatch_end D rd (wk_store w) t' out = (False, s', ev)"
  shows "worker_inv G (w\<lparr>wk_store := s', wk_running := xs @ (t, Ended) # ys,
    wk_delivered := insert (t_Name t') (wk_delivered w)\<rparr>)" (is "worker_inv G ?w")
proof -
  let ?v = "w\<lparr>wk_store := s', wk_running := xs @ (t, Ended) # ys\<rparr>"
  note h = held_nth [OF inv r]
  have t': "good G t'" "t_Name t' = t_Name t" using h(2) by simp_all
  have v: "worker_inv G ?v" by (rule phase_step [OF inv r dispatch_end_own(1) [OF e t'(1)]]) simp_all
  have "ts_ok (wk_store w)" using inv by (simp add: worker_inv_def filed_store_def typed_store_def)
  then have gone: "absent s' (t_Name t')" using dispatch_end_own(2) [OF e t'(1)] by simp
  have "committed ?v \<subseteq> set (map fst xs @ map fst ys) \<union> set (pass_held (wk_pass w))"
    by (force simp: committed_def pass_held_def split: option.splits turn.splits)
  then have "t_Name t' \<notin> t_Name ` committed ?v" unfolding t'(2) using h(3,4) by blast
  with v gone show ?thesis by (simp add: worker_inv_def held_def committed_def)
qed

lemma finish_step:
  assumes inv: "worker_inv G w" and r: "wk_running w = xs @ (t, Ended) # ys"
  shows "worker_inv G ((release w t)\<lparr>wk_running := xs @ ys\<rparr>)" (is "worker_inv G ?w")
proof -
  have "committed ?w \<subseteq> committed w" by (auto simp: committed_def release_def r)
  then have com: "wk_delivered w \<inter> t_Name ` committed w = {} \<Longrightarrow> wk_delivered w \<inter> t_Name ` committed ?w = {}" by blast
  show ?thesis using inv com held_nth(3,4) [OF inv r]
    by (auto simp: worker_inv_def held_def release_def r)
qed

text \<open>The pass moves on.\<close>

lemma pass_step:
  assumes inv: "worker_inv G w" and "pass_ok G p'" "pass_held p' = []"
    and "pass_held (wk_pass w) = [] \<and> w0 = w \<or> (\<exists>t. pass_held (wk_pass w) = [t] \<and> w0 = release w t)"
  shows "worker_inv G (w0\<lparr>wk_pass := p'\<rparr>)" (is "worker_inv G ?w")
proof -
  have p': "case p' of None \<Rightarrow> True | Some p \<Rightarrow> ps_turn p = Looking"
    using assms(3) by (cases p') (auto simp: pass_held_def elim!: turn_held.elims)
  then have "committed ?w \<subseteq> committed w"
    using assms(4) by (auto simp: committed_def release_def split: option.splits)
  then have com: "wk_delivered w \<inter> t_Name ` committed w = {} \<Longrightarrow> wk_delivered w \<inter> t_Name ` committed ?w = {}" by blast
  show ?thesis
  proof (cases "pass_held (wk_pass w)")
    case Nil
    then show ?thesis using inv assms(2-4) com by (simp add: worker_inv_def held_def)
  next
    case (Cons t ts)
    then have "held w = t # map fst (wk_running w)" "w0 = release w t" using assms(4) by (simp_all add: held_def)
    then show ?thesis using inv assms(2,3) com by (auto simp: worker_inv_def held_def release_def)
  qed
qed

lemma mark_step:
  assumes inv: "worker_inv G w" and "wk_pass w = Some p" "ps_turn p = Looking" "ps_due p = t # rest"
    and "\<not> wk_inflight w (t_Name t)"
  shows "worker_inv G ((to_mark w t)\<lparr>wk_buckets := b, wk_pass := Some (p\<lparr>ps_due := rest, ps_limits := l, ps_turn := Marked t\<rparr>)\<rparr>)"
    (is "worker_inv G ?w")
proof -
  have "committed ?w = committed w" using assms(2,3) by (simp add: committed_def to_mark_def)
  then show ?thesis using assms
    by (auto simp: worker_inv_def held_def pass_held_def pass_ok_def to_mark_def)
qed

lemma read_good:
  assumes "filed_store G s" "GetTask s n = Inr t"
  shows "good G t" "t_Name t = n" "\<not> absent s n"
proof -
  have s: "typed_store s" "ts_ok s" using assms(1) by (simp_all add: filed_store_def typed_store_def)
  have t: "get_task (ts_db s) (taskKey n) = Some t" using assms(2) by (simp add: GetTask_def split: option.splits)
  then have v: "ts_view s (taskKey n) = Some (JTask t)" by (simp add: get_iff(2) [OF s(2)])
  then show "\<not> absent s n" by simp
  show "good G t" "t_Name t = n" using typed_task [OF s(1) t] v assms(1) by (auto simp: good_def filed_store_def)
qed

lemma check_step:
  assumes inv: "worker_inv G w" and p: "wk_pass w = Some p" "ps_turn p = Marked t"
  shows "worker_inv G (check_again w p t)"
proof -
  have undo: "worker_inv G ((release w t)\<lparr>wk_pass := Some (p\<lparr>ps_turn := Looking\<rparr>)\<rparr>)"
    using pass_step [OF inv, of "Some (p\<lparr>ps_turn := Looking\<rparr>)" "release w t"] inv p
    by (simp add: pass_held_def pass_ok_def worker_inv_def)
  have go: "worker_inv G (w\<lparr>wk_pass := Some (p\<lparr>ps_turn := Checked t fresh\<rparr>)\<rparr>)"
    if "GetTask (wk_store w) (t_Name t) = Inr fresh" for fresh
  proof -
    have "filed_store G (wk_store w)" using inv by (simp add: worker_inv_def)
    note fresh = read_good [OF this that]
    have "committed (w\<lparr>wk_pass := Some (p\<lparr>ps_turn := Checked t fresh\<rparr>)\<rparr>) = insert fresh (committed w)"
      using p by (auto simp: committed_def)
    then show ?thesis using inv p fresh by (auto simp: worker_inv_def held_def pass_held_def pass_ok_def)
  qed
  show ?thesis
    using undo go by (auto simp: check_again_def current_task_def Let_def split: sum.split)
qed

lemma start_step:
  assumes inv: "worker_inv G w" and p: "wk_pass w = Some p" "ps_turn p = Checked t fresh"
  shows "worker_inv G (start w p t fresh)"
proof -
  have go: "worker_inv G (w\<lparr>wk_store := s', wk_pass := Some (p\<lparr>ps_turn := Looking\<rparr>), wk_running := (f, Starting) # wk_running w\<rparr>)"
    (is "worker_inv G ?w")
    if s: "own_step G (wk_store w) s'" and f: "t_Name f = t_Name fresh" "good G f" for s' f
  proof -
    have fil: "filed_store G (wk_store w)" using inv by (simp add: worker_inv_def)
    have "committed ?w \<subseteq> insert f (committed w)" "fresh \<in> committed w" using p by (auto simp: committed_def)
    then have "t_Name ` committed ?w \<subseteq> t_Name ` committed w" using f(1) by auto
    then have com: "wk_delivered w \<inter> t_Name ` committed w = {} \<Longrightarrow> wk_delivered w \<inter> t_Name ` committed ?w = {}" by blast
    have "map t_Name (held ?w) = map t_Name (held w)" "list_all (good G) (held w) \<Longrightarrow> list_all (good G) (held ?w)"
      "pass_ok G (wk_pass w) \<Longrightarrow> pass_ok G (wk_pass ?w)"
      using p f by (simp_all add: held_def pass_held_def pass_ok_def)
    then show ?thesis using inv com own_step_filed [OF s fil] own_step_absent [OF s fil]
      unfolding worker_inv_def by simp
  qed
  have swap: "w\<lparr>wk_pass := a, wk_store := b, wk_running := c\<rparr> = w\<lparr>wk_store := b, wk_pass := a, wk_running := c\<rparr>" for a b c
    by simp
  have "good G fresh" using inv p by (simp add: worker_inv_def held_def pass_held_def)
  then show ?thesis
    using go [OF own_writes(3), of "fresh\<lparr>t_RunRequested := zero_time\<rparr>"] go [OF own_step_refl, of fresh] good_write_backs(6) [of G fresh zero_time]
    by (simp add: start_def Let_def swap)
qed

lemma due_good:
  assumes "filed_store G s" "t \<in> set (DueTasks s now)"
  shows "good G t"
proof -
  have s: "typed_store s" using assms(1) by (simp add: filed_store_def)
  have "cache_ok (ts_db s) []" by (simp add: cache_ok_def)
  then obtain k where k: "get_task (ts_db s) k = Some t" "k \<in> set (db_List (ts_db s) ''tasks/tasks/'')"
    using assms(2) by (auto simp: DueTasks_def due_tasks_eq map_filter_def)
  then have "ts_view s k = Some (JTask t)" using get_iff(2) [OF typed_ts_ok [OF s]] by blast
  then have "doc_ok k (JTask t)" using s by (auto simp: typed_store_def dest: docs_okD)
  then show ?thesis using k \<open>ts_view s k = Some (JTask t)\<close> assms(1) by (auto simp: good_def filed_store_def)
qed

lemma look_step:
  assumes inv: "worker_inv G w" and p: "wk_pass w = Some p" "ps_turn p = Looking" "ps_due p = t # rest"
  shows "worker_inv G (look w p t rest)"
proof -
  have skip: "worker_inv G (w\<lparr>wk_pass := Some (p\<lparr>ps_due := rest, ps_limits := l\<rparr>)\<rparr>)" for l
    using pass_step [OF inv, of "Some (p\<lparr>ps_due := rest, ps_limits := l\<rparr>)" w] inv p
    by (simp add: pass_held_def pass_ok_def worker_inv_def)
  note mark = mark_step [OF inv p]
  have "(to_mark w t)\<lparr>wk_pass := q\<rparr> = (to_mark w t)\<lparr>wk_buckets := wk_buckets w, wk_pass := q\<rparr>" for q
    by (simp add: to_mark_def)
  with mark have mark0: "\<not> wk_inflight w (t_Name t) \<Longrightarrow>
      worker_inv G ((to_mark w t)\<lparr>wk_pass := Some (p\<lparr>ps_due := rest, ps_limits := l, ps_turn := Marked t\<rparr>)\<rparr>)" for l
    by metis
  show ?thesis
    using skip mark mark0 by (auto simp: look_def Let_def split: prod.split bool.split)
qed

theorem worker_step_inv: "worker_step D G w w' \<Longrightarrow> worker_inv G w \<Longrightarrow> worker_inv G w'"
proof (induction rule: worker_step.induct)
  case (api c w)
  have "call_ok c" using api(1) by (cases c) auto
  then have "filed_store G (exec_call c (wk_store w))" using api by (simp add: worker_inv_def filed_call)
  moreover have "ts_ok (wk_store w)" using api(3) by (simp add: worker_inv_def filed_store_def typed_store_def)
  then have "\<forall>n\<in>wk_delivered w - created c. absent (exec_call c (wk_store w)) n"
    using api(3) absent_call by (simp add: worker_inv_def)
  moreover have "held (w\<lparr>wk_store := s, wk_delivered := d\<rparr>) = held w"
    "committed (w\<lparr>wk_store := s, wk_delivered := d\<rparr>) = committed w" for s d by (simp_all add: held_def committed_def)
  moreover have "wk_delivered w \<inter> t_Name ` committed w = {} \<Longrightarrow> (wk_delivered w - created c) \<inter> t_Name ` committed w = {}" by blast
  ultimately show ?case using api(3) by (simp add: worker_inv_def)
next
  case (begin_pass w now)
  then show ?case
    using pass_step [of G w "Some \<lparr>ps_now = now, ps_due = DueTasks (wk_store w) now, ps_limits = [], ps_turn = Looking\<rparr>" w]
      due_good [of G "wk_store w" _ now]
    by (simp add: pass_held_def pass_ok_def worker_inv_def)
next
  case (end_pass w p)
  then show ?case using pass_step [of G w None w] by (simp add: pass_held_def pass_ok_def)
next
  case (build_fails w xs t ys rd ev s')
  from held_nth(1) [OF build_fails(3,1)] have "own_step G (wk_store w) s'" by (rule dispatch_begin_own [OF build_fails(2)])
  then show ?case using phase_step [OF build_fails(3,1)] by simp
next
  case (send w xs t ys rd req t' s')
  note own = dispatch_begin_own [OF send(2) held_nth(1) [OF send(3,1)]]
  show ?case using own(2) [OF refl] by (intro phase_step [OF send(3,1) own(1)]) simp_all
next
  case (failed w xs t t' ys rd out s' ev)
  then have "good G t'" using held_nth(2) [OF failed(3,1)] by simp
  then show ?case using phase_step [OF failed(3,1) dispatch_end_own(1) [OF failed(2)]] by simp
next
  case (reread w xs t ys current q)
  have "filed_store G (wk_store w)" using reread(4) by (simp add: worker_inv_def)
  from read_good [OF this reread(2)] show ?case
    using phase_step [OF reread(4,1) own_step_refl, of "Deciding current q"] by simp
next
  case (lost w xs t ys)
  then show ?case using phase_step [OF lost(3,1) own_step_refl, of Ended] by simp
next
  case (retry w xs t current q ys clock1 clock2 now)
  then have "good G current" using held_nth(2) [OF retry(2,1)] by simp
  then show ?case by (intro phase_step [OF retry(2,1) decide_own]) simp_all
qed (simp_all add: look_step check_step start_step delivered_step finish_step)

lemma new_worker_inv: "filed_store G s \<Longrightarrow> worker_inv G (NewWorker s)"
  by (simp add: worker_inv_def NewWorker_def held_def committed_def pass_held_def pass_ok_def)

lemma reachable_inv:
  "(worker_step D G)\<^sup>*\<^sup>* (NewWorker s) w \<Longrightarrow> filed_store G s \<Longrightarrow> worker_inv G w"
  by (induction rule: rtranclp_induct) (auto intro: new_worker_inv worker_step_inv)

section \<open>A delivered task is not sent again\<close>

text \<open>C2: With the API and any number of attempts running beside it, the worker never has two attempts of one
  task out; a task that was answered 2xx and deleted is not stored, is not about to be started and has
  no attempt that may still send it, until it is created again, however stale the list of due tasks a
  pass is working through.\<close>

theorem delivered_task_is_not_sent_again:
  assumes "typed_store s" "(worker_step D (\<lambda>_ _. True))\<^sup>*\<^sup>* (NewWorker s) w"
  shows "distinct (map t_Name (held w)) \<and> (\<forall>n. wk_inflight w n \<longleftrightarrow> n \<in> set (map t_Name (held w))) \<and>
    (\<forall>n\<in>wk_delivered w. GetTask (wk_store w) n = Inl NotFound \<and> n \<notin> t_Name ` committed w)"
proof -
  have "filed_store (\<lambda>_ _. True) s" using assms(1) by (simp add: filed_store_def)
  then have inv: "worker_inv (\<lambda>_ _. True) w" using reachable_inv [OF assms(2)] by simp
  then have "ts_ok (wk_store w)" by (simp add: worker_inv_def filed_store_def typed_store_def)
  note get = get_after(3) [OF this]
  have "wk_delivered w \<inter> t_Name ` committed w = {}" using inv by (simp add: worker_inv_def)
  then have "\<forall>n\<in>wk_delivered w. n \<notin> t_Name ` committed w" by blast
  then show ?thesis using inv get by (simp add: worker_inv_def)
qed

text \<open>A pass over the one queue and task, the attempt and its answer.\<close>

lemma demo_due: "DueTasks demo_full 10 = [demo_t]"
  by code_simp

lemma demo_limit: "queue_limit demo_full demo_queue = DefaultRateLimits"
  using demo_full_gets by (simp add: queue_limit_def demo_q_def Let_def DefaultRateLimits_def)

lemma demo_token:
  "\<exists>b. bucket_take zero_time 10 (rl_MaxDispatchesPerSecond DefaultRateLimits)
     (BurstSize (rl_MaxDispatchesPerSecond DefaultRateLimits)) = (True, b)"
proof -
  have "f64_div (f64_of_int Second) (Fin 500) = Fin 2000000"
    using round64_int [of 2000000] f64_of_nat_exact [of Second] by (simp add: Second_def)
  then have I: "bucket_interval (Fin 500) = 2000000"
    using min_quarter [of 2000000]
    by (simp add: bucket_interval_def effective_rate_def f64_le_def Let_def trunc_def min_int64_def max_int64_def)
  have B: "BurstSize (Fin 500) = 500"
    using f64_of_nat_exact [of max_int32]
    by (simp add: BurstSize_def effective_rate_def f64_le_def Let_def max_int32_def trunc_def min_int64_def max_int64_def)
  have T: "bucket_tolerance 2000000 500 = 998000000" using tolerance_exact [of 2000000 500] by simp
  show ?thesis by (simp add: bucket_take_def I B T Let_def DefaultRateLimits_def)
qed

lemma demo_fields [simp]: "t_Name demo_t = demo_task" "t_Queue demo_t = demo_queue" "t_RunRequested demo_t = zero_time"
    "t_ScheduleTime demo_t = zero_time"
  by (simp_all add: demo_t_def zero_task_def)

text \<open>The pass marks the task, reads it again, starts it; it is sent and answered 200.\<close>

lemma demo_started:
  "\<exists>w. (worker_step demo_dispatcher G)\<^sup>*\<^sup>* (NewWorker demo_full) w \<and> wk_store w = demo_full \<and>
     wk_running w = [(demo_t, Starting)] \<and> pass_held (wk_pass w) = []"
proof -
  let ?step = "worker_step demo_dispatcher G"
  obtain b where b: "bucket_take zero_time 10 (rl_MaxDispatchesPerSecond DefaultRateLimits)
     (BurstSize (rl_MaxDispatchesPerSecond DefaultRateLimits)) = (True, b)" using demo_token by blast
  define w0 where "w0 = NewWorker demo_full"
  note w0 = w0_def [unfolded NewWorker_def]
  let ?p = "\<lparr>ps_now = 10, ps_due = [demo_t], ps_limits = [], ps_turn = Looking\<rparr>"
  define w1 where "w1 = w0\<lparr>wk_pass := Some ?p\<rparr>"
  define w2 where "w2 = look w1 ?p demo_t []"
  have "w2 = (to_mark w1 demo_t)\<lparr>wk_buckets := (wk_buckets w1)(demo_queue := b),
      wk_pass := Some (?p\<lparr>ps_due := [], ps_limits := [(demo_queue, DefaultRateLimits)], ps_turn := Marked demo_t\<rparr>)\<rparr>"
    using b by (simp add: w2_def look_def w1_def w0 limit_for_def demo_limit Let_def DefaultRateLimits_def)
  then have w2: "wk_store w2 = demo_full" "wk_running w2 = []"
    "\<exists>p. wk_pass w2 = Some p \<and> ps_turn p = Marked demo_t \<and> ps_now p = 10"
    by (simp_all add: to_mark_def w1_def w0)
  then obtain p where p: "wk_pass w2 = Some p" "ps_turn p = Marked demo_t" "ps_now p = 10" by blast
  define w3 where "w3 = check_again w2 p demo_t"
  have w3: "w3 = w2\<lparr>wk_pass := Some (p\<lparr>ps_turn := Checked demo_t demo_t\<rparr>)\<rparr>"
    using w2(1) p(3) demo_full_gets(1) by (simp add: w3_def check_again_def current_task_def Let_def)
  define w4 where "w4 = start w3 (p\<lparr>ps_turn := Checked demo_t demo_t\<rparr>) demo_t demo_t"
  have "?step w0 w1" using worker_step.begin_pass [of w0 demo_dispatcher G 10] by (simp add: w1_def w0 demo_due)
  moreover have "?step w1 w2" unfolding w2_def by (rule worker_step.look) (simp_all add: w1_def)
  moreover have "?step w2 w3" unfolding w3_def using p(1,2) by (rule worker_step.check)
  moreover have "?step w3 w4" unfolding w4_def by (rule worker_step.start) (simp_all add: w3)
  ultimately have "?step\<^sup>*\<^sup>* w0 w4" by (meson rtranclp.rtrancl_into_rtrancl rtranclp.rtrancl_refl)
  moreover have "wk_store w4 = demo_full" "wk_running w4 = [(demo_t, Starting)]" "pass_held (wk_pass w4) = []"
    using w2 by (simp_all add: w4_def start_def Let_def w3 pass_held_def)
  ultimately show ?thesis unfolding w0_def by blast
qed

theorem delivered_task_is_not_sent_again_witness:
  "\<exists>w. (worker_step demo_dispatcher (\<lambda>_ _. True))\<^sup>*\<^sup>* (NewWorker demo_full) w \<and> demo_task \<in> wk_delivered w \<and>
     GetTask (wk_store w) demo_task = Inl NotFound"
proof -
  let ?step = "worker_step demo_dispatcher (\<lambda>_ _. True)" and ?rd = "ai_readings demo_input"
  obtain w where w: "?step\<^sup>*\<^sup>* (NewWorker demo_full) w" "wk_store w = demo_full" "wk_running w = [] @ (demo_t, Starting) # []"
    using demo_started by auto
  define t where "t = bump (rd_first ?rd) demo_t"
  have ae: "t_AppEngineHTTPRequest demo_t = None" by (simp add: demo_t_def zero_task_def)
  then obtain req where "buildRequest demo_dispatcher demo_full (sent_task demo_dispatcher demo_full demo_t) = Some req"
    using demo_sendable by (auto simp: sendable_def unserved_def)
  then have b: "dispatch_begin demo_dispatcher ?rd (wk_store w) demo_t = (Send req t, demo_full)"
    using ae by (simp add: dispatch_begin_def w(2) t_def)
  define w1 where "w1 = w\<lparr>wk_store := demo_full, wk_running := [] @ (demo_t, Waiting t) # []\<rparr>"
  have w1: "?step w w1" unfolding w1_def by (rule worker_step.send [OF w(3) b])
  obtain s' where s': "DeleteTask (rd_deleted ?rd) demo_full demo_task = (Inr (), s')"
    using mem_DeleteTask [OF typed_demo_full _ demo_full_gets(1), of "rd_deleted ?rd"]
    by (auto simp: in_memory_def demo_full_def demo_input_def time_json_ok_def nanos_per_day_def TombstoneTTL_def duration_defs)
  have "t_Name t = demo_task" by (simp add: t_def write_back_fields)
  then obtain ev where e: "dispatch_end demo_dispatcher ?rd (wk_store w1) t (Response 200 ''200 OK'') = (False, s', ev)"
    using s' by (simp add: dispatch_end_def w1_def write_back_fields Let_def is_2xx_def)
  define w2 where "w2 = w1\<lparr>wk_store := s', wk_running := [] @ (demo_t, Ended) # [], wk_delivered := insert (t_Name t) (wk_delivered w1)\<rparr>"
  have "?step w1 w2" unfolding w2_def by (rule worker_step.delivered [OF _ e]) (simp add: w1_def)
  with w(1) w1 have r: "?step\<^sup>*\<^sup>* (NewWorker demo_full) w2" by (meson rtranclp.rtrancl_into_rtrancl)
  have "demo_task \<in> wk_delivered w2" by (simp add: w2_def \<open>t_Name t = demo_task\<close>)
  with r delivered_task_is_not_sent_again [OF typed_demo_full r] show ?thesis by blast
qed

section \<open>The counts of the queues\<close>

abbreviation attempts_of :: "worker \<Rightarrow> string \<Rightarrow> nat" where
  "attempts_of w q \<equiv> length (filter (\<lambda>t. t_Queue t = q) (held w))"

definition counted :: "worker \<Rightarrow> bool" where
  "counted w \<longleftrightarrow> (\<forall>q. wk_perQueue w q = int (attempts_of w q))"

lemma counted_look:
  assumes "counted w" "wk_pass w = Some p" "ps_turn p = Looking"
  shows "counted (look w p t rest)"
  using assms
  by (auto simp: look_def counted_def held_def pass_held_def to_mark_def Let_def split: prod.split bool.split)

lemma counted_check:
  assumes "counted w" "worker_inv G w" "\<And>n q q'. G n q \<Longrightarrow> G n q' \<Longrightarrow> q = q'"
    and p: "wk_pass w = Some p" "ps_turn p = Marked t"
  shows "counted (check_again w p t)"
proof -
  have undo: "counted ((release w t)\<lparr>wk_pass := Some (p\<lparr>ps_turn := Looking\<rparr>)\<rparr>)"
    using assms(1) p by (simp add: counted_def held_def pass_held_def release_def)
  have go: "counted (w\<lparr>wk_pass := Some (p\<lparr>ps_turn := Checked t fresh\<rparr>)\<rparr>)"
    if "GetTask (wk_store w) (t_Name t) = Inr fresh" for fresh
  proof -
    have "filed_store G (wk_store w)" "good G t" using assms(2) p by (simp_all add: worker_inv_def held_def pass_held_def)
    then have "G (t_Name t) (t_Queue fresh)" "G (t_Name t) (t_Queue t)"
      using read_good(1,2) [OF _ that, of G] by (simp_all add: good_def)
    then have "t_Queue fresh = t_Queue t" by (rule assms(3))
    then show ?thesis using assms(1) p by (simp add: counted_def held_def pass_held_def)
  qed
  show ?thesis
    using undo go by (auto simp: check_again_def current_task_def Let_def split: sum.split)
qed

lemma counted_step:
  assumes "worker_step D G w w'" "worker_inv G w" "counted w" "\<And>n q q'. G n q \<Longrightarrow> G n q' \<Longrightarrow> q = q'"
  shows "counted w'"
  using assms(1)
proof (cases rule: worker_step.cases)
  case (look p t rest)
  then show ?thesis using assms(3) by (simp add: counted_look)
next
  case (check p t)
  then show ?thesis using assms(2-4) by (simp add: counted_check)
next
  case (start p t fresh)
  then show ?thesis using assms(3) by (simp add: counted_def held_def pass_held_def start_def Let_def)
next
  case (finish xs t ys)
  then show ?thesis using assms(3) by (auto simp: counted_def held_def release_def)
qed (use assms(3) in \<open>simp_all add: counted_def held_def pass_held_def\<close>)

lemma reachable_counted:
  assumes "(worker_step D G)\<^sup>*\<^sup>* (NewWorker s) w" "filed_store G s" "\<And>n q q'. G n q \<Longrightarrow> G n q' \<Longrightarrow> q = q'"
  shows "counted w"
  using assms(1)
proof (induction rule: rtranclp_induct)
  case base
  then show ?case by (simp add: counted_def NewWorker_def held_def pass_held_def)
next
  case (step w w')
  then show ?case using reachable_inv [OF step(1) assms(2)] counted_step [OF step(2)] assms(3) by blast
qed

text \<open>C16: While tasks of one name are always filed in one queue, the count the worker keeps for a queue is the
  number of its tasks marked in flight, whatever passes, attempts and calls interleave; and a pass that
  marks a task whose run is not forced found fewer attempts of its queue out than the queue's
  \<open>max_concurrent_dispatches\<close> as the pass read it.\<close>

theorem queue_limit_is_kept:
  assumes one: "\<And>n q q'. G n q \<Longrightarrow> G n q' \<Longrightarrow> q = q'"
    and s: "filed_store G s" and w: "(worker_step D G)\<^sup>*\<^sup>* (NewWorker s) w"
  shows "wk_perQueue w q = int (attempts_of w q) \<and>
    (\<forall>p t rest. t_RunRequested t = zero_time \<longrightarrow> \<not> wk_inflight w (t_Name t) \<longrightarrow>
       wk_inflight (look w p t rest) (t_Name t) \<longrightarrow>
       int (attempts_of w (t_Queue t)) < rl_MaxConcurrentDispatches (limit_for (wk_store w) p (t_Queue t)))"
proof -
  have c: "wk_perQueue w q = int (attempts_of w q)" for q
    using reachable_counted [OF w s one] by (simp add: counted_def)
  have "int (attempts_of w (t_Queue t)) < rl_MaxConcurrentDispatches (limit_for (wk_store w) p (t_Queue t))"
    if "t_RunRequested t = zero_time" "\<not> wk_inflight w (t_Name t)" "wk_inflight (look w p t rest) (t_Name t)" for p t rest
  proof (rule ccontr)
    assume "\<not> ?thesis"
    then have "look w p t rest = w\<lparr>wk_pass := Some (p\<lparr>ps_due := rest,
        ps_limits := AList.update (t_Queue t) (limit_for (wk_store w) p (t_Queue t)) (ps_limits p)\<rparr>)\<rparr>"
      using that(1) by (simp add: look_def Let_def c)
    with that(2,3) show False by simp
  qed
  with c show ?thesis by blast
qed

theorem queue_limit_is_kept_witness:
  "\<exists>w. (worker_step demo_dispatcher (\<lambda>_ q. q = demo_queue))\<^sup>*\<^sup>* (NewWorker demo_full) w \<and> wk_perQueue w demo_queue = 1"
proof -
  let ?G = "\<lambda>(_ :: string) q. q = demo_queue"
  obtain w where w: "(worker_step demo_dispatcher ?G)\<^sup>*\<^sup>* (NewWorker demo_full) w" "wk_running w = [(demo_t, Starting)]"
      "pass_held (wk_pass w) = []"
    using demo_started by blast
  have s: "filed_store ?G demo_full"
    using typed_demo_full by (auto simp: filed_store_def demo_full_def mem_view_def split: if_splits)
  have "wk_perQueue w demo_queue = int (attempts_of w demo_queue)"
    using queue_limit_is_kept [OF _ s w(1)] by blast
  then show ?thesis using w by (intro exI [of _ w]) (simp add: held_def)
qed

lemma reschedule_decide:
  "reschedule clock1 clock2 now s nm =
     (case GetTask s nm of Inl _ \<Rightarrow> s | Inr current \<Rightarrow>
        (case GetQueue s (t_Queue current) of Inl _ \<Rightarrow> s | Inr q \<Rightarrow> decide clock1 clock2 now s current q))"
  by (simp add: reschedule_def decide_def Let_def split: sum.split)

end
