(* ===== verification/Tasks_Server.thy ===== *)
theory Tasks_Server
  imports Tasks_Filter Tasks_Worker Paging
begin

text \<open>
  The gRPC service of Cloud Tasks (\<open>grpcserver.go\<close>, the batches of \<open>grpc1215.go\<close>): the conversions
  between the messages and the stored records, the checks of a request and the handlers, each on the
  store it is called with. A nil message reads as the empty one. The readings of \<open>time.Now()\<close> are
  arguments; \<open>trace\<close> is the \<open>traceparent\<close> of the request's span, empty without one.
\<close>

section \<open>Queues\<close>

definition toProtoQueue :: "pb_lib \<Rightarrow> queue \<Rightarrow> queue_pb" where
  "toProtoQueue L q =
     \<lparr>qp_Name = q_Name q,
      qp_State = (if q_State q = StatePaused then PAUSED else if q_State q = StateDisabled then DISABLED else RUNNING),
      qp_RateLimits = Some \<lparr>rp_MaxDispatchesPerSecond = rl_MaxDispatchesPerSecond (q_RateLimits q),
        rp_MaxConcurrentDispatches = to_int32 (rl_MaxConcurrentDispatches (q_RateLimits q)),
        rp_MaxBurstSize = to_int32 (BurstSize (rl_MaxDispatchesPerSecond (q_RateLimits q)))\<rparr>,
      qp_RetryConfig = Some \<lparr>cp_MaxAttempts = to_int32 (ct_MaxAttempts (q_RetryConfig q)),
        cp_MinBackoff = Some (ct_MinBackoff (q_RetryConfig q)), cp_MaxBackoff = Some (ct_MaxBackoff (q_RetryConfig q)),
        cp_MaxDoublings = to_int32 (ct_MaxDoublings (q_RetryConfig q)),
        cp_MaxRetryDuration = (if ct_MaxRetryDuration (q_RetryConfig q) > 0 then Some (ct_MaxRetryDuration (q_RetryConfig q)) else None)\<rparr>,
      qp_PurgeTime = (if q_Purged q = zero_time then None else Some (q_Purged q)),
      qp_Logging = map_option lc_SamplingRatio (q_Logging q),
      qp_HttpTarget = queueHTTPTarget L q,
      qp_AppEngineRoutingOverride = routingToProto (q_AppEngineRouting q) (projectOf (q_Name q))\<rparr>"

definition checkLogging :: "queue_pb \<Rightarrow> code + unit" where
  "checkLogging p =
     (case qp_Logging p of None \<Rightarrow> Inr () | Some r \<Rightarrow> if checkSamplingRatio r then Inr () else Inl InvalidArgument)"

definition rate_limits_of :: "queue_pb \<Rightarrow> rate_limits_pb" where
  "rate_limits_of p = (case qp_RateLimits p of Some rl \<Rightarrow> rl
     | None \<Rightarrow> \<lparr>rp_MaxDispatchesPerSecond = Fin 0, rp_MaxConcurrentDispatches = 0, rp_MaxBurstSize = 0\<rparr>)"

definition checkRateLimits :: "queue_pb \<Rightarrow> string \<Rightarrow> code + unit" where
  "checkRateLimits p sub =
     (let rl = rate_limits_of p in
      if (sub = [] \<or> sub = ''max_dispatches_per_second'') \<and> f64_less (Fin 500) (rp_MaxDispatchesPerSecond rl) then Inl InvalidArgument
      else if (sub = [] \<or> sub = ''max_concurrent_dispatches'') \<and> rp_MaxConcurrentDispatches rl > 5000 then Inl InvalidArgument
      else Inr ())"

definition retry_config_of :: "queue_pb \<Rightarrow> retry_config_pb" where
  "retry_config_of p = (case qp_RetryConfig p of Some rc \<Rightarrow> rc
     | None \<Rightarrow> \<lparr>cp_MaxAttempts = 0, cp_MinBackoff = None, cp_MaxBackoff = None, cp_MaxDoublings = 0, cp_MaxRetryDuration = None\<rparr>)"

definition AsDuration :: "duration option \<Rightarrow> duration" where
  "AsDuration d = (case d of None \<Rightarrow> 0 | Some d \<Rightarrow> d)"

definition checkRetry :: "queue_pb \<Rightarrow> string \<Rightarrow> code + unit" where
  "checkRetry p sub =
     (let rc = retry_config_of p; names = (\<lambda>field. sub = [] \<or> sub = field) in
      if names ''max_attempts'' \<and> cp_MaxAttempts rc < - 1 then Inl InvalidArgument
      else if names ''max_retry_duration'' \<and> AsDuration (cp_MaxRetryDuration rc) < 0 then Inl InvalidArgument
      else if names ''min_backoff'' \<and> AsDuration (cp_MinBackoff rc) < 0 then Inl InvalidArgument
      else if names ''max_backoff'' \<and> AsDuration (cp_MaxBackoff rc) < 0 then Inl InvalidArgument
      else if names ''max_doublings'' \<and> cp_MaxDoublings rc < 0 then Inl InvalidArgument
      else Inr ())"

definition checkQueue :: "queue_pb \<Rightarrow> code + unit" where
  "checkQueue p =
     (case checkLogging p of Inl e \<Rightarrow> Inl e
      | Inr _ \<Rightarrow> (case checkHTTPTarget p of Inl e \<Rightarrow> Inl e
      | Inr _ \<Rightarrow> (case checkRateLimits p [] of Inl e \<Rightarrow> Inl e
      | Inr _ \<Rightarrow> checkRetry p [])))"

definition fromProtoQueue :: "pb_lib \<Rightarrow> queue_pb \<Rightarrow> queue" where
  "fromProtoQueue L p =
     zero_queue\<lparr>q_Name := qp_Name p,
       q_State := (case qp_State p of PAUSED \<Rightarrow> StatePaused | DISABLED \<Rightarrow> StateDisabled | _ \<Rightarrow> StateRunning),
       q_RateLimits := (case qp_RateLimits p of
           None \<Rightarrow> unset_rate
         | Some rl \<Rightarrow> \<lparr>rl_MaxDispatchesPerSecond = rp_MaxDispatchesPerSecond rl,
                       rl_MaxConcurrentDispatches = rp_MaxConcurrentDispatches rl\<rparr>),
       q_Logging := map_option (\<lambda>r. \<lparr>lc_SamplingRatio = r\<rparr>) (qp_Logging p),
       q_HTTPTarget := httpTargetJSON L (qp_HttpTarget p),
       q_AppEngineRouting := routingFromProto (qp_AppEngineRoutingOverride p),
       q_RetryConfig := (case qp_RetryConfig p of
           None \<Rightarrow> unset_retry
         | Some rc \<Rightarrow> \<lparr>ct_MaxAttempts = cp_MaxAttempts rc, ct_MinBackoff = AsDuration (cp_MinBackoff rc),
             ct_MaxBackoff = AsDuration (cp_MaxBackoff rc), ct_MaxDoublings = cp_MaxDoublings rc,
             ct_MaxRetryDuration = AsDuration (cp_MaxRetryDuration rc)\<rparr>)\<rparr>"

section \<open>Tasks\<close>

definition method_of :: "pb_lib \<Rightarrow> string \<Rightarrow> http_method" where
  "method_of L meth = (case HttpMethod_value L (ToUpper meth) of Some m \<Rightarrow> m | None \<Rightarrow> POST)"

definition auth_of :: "http_request \<Rightarrow> auth_pb" where
  "auth_of hr =
     (case hr_OIDCToken hr of
        Some o1 \<Rightarrow> OidcAuth o1
      | None \<Rightarrow> (case hr_OAuthToken hr of Some o2 \<Rightarrow> OauthAuth o2 | None \<Rightarrow> NoAuth))"

definition toProtoTaskIn :: "pb_lib \<Rightarrow> task \<Rightarrow> ae_routing option \<Rightarrow> task_pb" where
  "toProtoTaskIn L t override =
     (let message = (case t_HTTPRequest t of
            None \<Rightarrow> NoMessage
          | Some hr \<Rightarrow> HttpMessage \<lparr>hp_Url = hr_URL hr, hp_HttpMethod = method_of L (hr_Method hr),
              hp_Headers = hr_Headers hr, hp_Body = hr_Body hr, hp_Authorization = auth_of hr\<rparr>);
          message = (case t_AppEngineHTTPRequest t of
            None \<Rightarrow> message
          | Some a \<Rightarrow> AppEngineMessage (appEngineToProto L a (t_Name t) override))
      in attemptsToProto t
        \<lparr>tk_Name = t_Name t, tk_ScheduleTime = Some (t_ScheduleTime t), tk_CreateTime = Some (t_Created t),
         tk_DispatchDeadline = (if t_DispatchDeadline t > 0 then Some (t_DispatchDeadline t) else None),
         tk_DispatchCount = to_int32 (t_DispatchCount t), tk_ResponseCount = to_int32 (t_ResponseCount t),
         tk_MessageType = message, tk_FirstAttempt = None, tk_LastAttempt = None\<rparr>)"

definition authorizationFromProto :: "auth_pb \<Rightarrow> code + (oidc_token option \<times> oauth_token option)" where
  "authorizationFromProto a =
     (case a of
        OidcAuth o1 \<Rightarrow> if oi_ServiceAccountEmail o1 = [] then Inl InvalidArgument else Inr (Some o1, None)
      | OauthAuth o2 \<Rightarrow> if oa_ServiceAccountEmail o2 = [] then Inl InvalidArgument else Inr (None, Some o2)
      | NoAuth \<Rightarrow> Inr (None, None))"

definition deadline_ok :: "duration option \<Rightarrow> bool" where
  "deadline_ok dd = (case dd of None \<Rightarrow> True | Some d \<Rightarrow> \<not> (d < 15 * Second \<or> d > 24 * Hour + 15 * Second))"

definition httpRequestFromProto :: "pb_lib \<Rightarrow> http_request_pb \<Rightarrow> code + http_request" where
  "httpRequestFromProto L hr =
     (case authorizationFromProto (hp_Authorization hr) of
        Inl e \<Rightarrow> Inl e
      | Inr (oidc, oauth) \<Rightarrow>
          if hp_HttpMethod hr \<in> {GET, HEAD, DELETE, OPTIONS} \<and> hp_Body hr \<noteq> [] then Inl InvalidArgument
          else Inr \<lparr>hr_URL = hp_Url hr, hr_Method = method_String L (hp_HttpMethod hr), hr_Headers = hp_Headers hr,
                    hr_Body = hp_Body hr, hr_OIDCToken = oidc, hr_OAuthToken = oauth\<rparr>)"

definition fromProtoTask :: "pb_lib \<Rightarrow> task_pb \<Rightarrow> string \<Rightarrow> code + task" where
  "fromProtoTask L p parent =
     (if \<not> deadline_ok (tk_DispatchDeadline p) then Inl InvalidArgument
      else
        let t = zero_task\<lparr>t_Name := tk_Name p, t_Queue := parent,
              t_ScheduleTime := (case tk_ScheduleTime p of None \<Rightarrow> zero_time | Some x \<Rightarrow> x),
              t_DispatchDeadline := AsDuration (tk_DispatchDeadline p)\<rparr>
        in case tk_MessageType p of
             NoMessage \<Rightarrow> Inl InvalidArgument
           | AppEngineMessage ae \<Rightarrow>
               (case appEngineFromProto L ae of
                  Inl e \<Rightarrow> Inl e | Inr a \<Rightarrow> Inr (t\<lparr>t_AppEngineHTTPRequest := Some a\<rparr>))
           | HttpMessage hr \<Rightarrow>
               if t_DispatchDeadline t > 30 * Minute then Inl InvalidArgument
               else (case httpRequestFromProto L hr of
                       Inl e \<Rightarrow> Inl e | Inr h \<Rightarrow> Inr (t\<lparr>t_HTTPRequest := Some h\<rparr>)))"

definition generateTaskName :: "string \<Rightarrow> int \<Rightarrow> string" where
  "generateTaskName parent nano = parent @ ''/tasks/'' @ int_dec nano"

definition protoTask :: "pb_lib \<Rightarrow> tasks_store \<Rightarrow> task \<Rightarrow> task_pb" where
  "protoTask L s t =
     toProtoTaskIn L t
       (if t_AppEngineHTTPRequest t = None then None
        else case GetQueue s (t_Queue t) of Inl _ \<Rightarrow> None | Inr q \<Rightarrow> q_AppEngineRouting q)"

section \<open>Handlers of queues\<close>

definition srv_CreateQueue :: "pb_lib \<Rightarrow> time \<Rightarrow> tasks_store \<Rightarrow> string \<Rightarrow> queue_pb \<Rightarrow> (code + queue_pb) \<times> tasks_store" where
  "srv_CreateQueue L wall s parent p =
     (if ParseLocation parent = None then (Inl InvalidArgument, s)
      else case checkQueue p of
        Inl e \<Rightarrow> (Inl e, s)
      | Inr _ \<Rightarrow>
          let q = fromProtoQueue L p in
          if q_Name q = [] then (Inl InvalidArgument, s)
          else if \<not> HasPrefix (q_Name q) (parent @ ''/queues/'') then (Inl InvalidArgument, s)
          else (case CreateQueue wall s q of
                  (Inl e, s') \<Rightarrow> (Inl e, s')
                | (Inr q1, s1) \<Rightarrow> (Inr (toProtoQueue L q1), s1)))"

definition updatableQueuePaths :: "string list" where
  "updatableQueuePaths = [''app_engine_routing_override'', ''http_target'', ''rate_limits'', ''retry_config'',
     ''stackdriver_logging_config'']"

definition rateLimitsSetter :: "string \<Rightarrow> rate_limits \<Rightarrow> code + (queue \<Rightarrow> queue)" where
  "rateLimitsSetter sub want =
     (if sub = [] then Inr (\<lambda>q. q\<lparr>q_RateLimits := want\<rparr>)
      else if sub = ''max_dispatches_per_second'' then
        Inr (\<lambda>q. q\<lparr>q_RateLimits := (q_RateLimits q)\<lparr>rl_MaxDispatchesPerSecond := rl_MaxDispatchesPerSecond want\<rparr>\<rparr>)
      else if sub = ''max_concurrent_dispatches'' then
        Inr (\<lambda>q. q\<lparr>q_RateLimits := (q_RateLimits q)\<lparr>rl_MaxConcurrentDispatches := rl_MaxConcurrentDispatches want\<rparr>\<rparr>)
      else Inl InvalidArgument)"

definition retryConfigSetter :: "string \<Rightarrow> retry_config \<Rightarrow> code + (queue \<Rightarrow> queue)" where
  "retryConfigSetter sub want =
     (let upd = (\<lambda>f q. q\<lparr>q_RetryConfig := f (q_RetryConfig q)\<rparr>) in
      if sub = [] then Inr (upd (\<lambda>_. want))
      else if sub = ''max_attempts'' then Inr (upd (\<lambda>rc. rc\<lparr>ct_MaxAttempts := ct_MaxAttempts want\<rparr>))
      else if sub = ''max_retry_duration'' then Inr (upd (\<lambda>rc. rc\<lparr>ct_MaxRetryDuration := ct_MaxRetryDuration want\<rparr>))
      else if sub = ''min_backoff'' then Inr (upd (\<lambda>rc. rc\<lparr>ct_MinBackoff := ct_MinBackoff want\<rparr>))
      else if sub = ''max_backoff'' then Inr (upd (\<lambda>rc. rc\<lparr>ct_MaxBackoff := ct_MaxBackoff want\<rparr>))
      else if sub = ''max_doublings'' then Inr (upd (\<lambda>rc. rc\<lparr>ct_MaxDoublings := ct_MaxDoublings want\<rparr>))
      else Inl InvalidArgument)"

text \<open>What one path of the mask sets, or why it is refused.\<close>

definition path_setter :: "queue_pb \<Rightarrow> queue \<Rightarrow> string \<Rightarrow> code + (queue \<Rightarrow> queue)" where
  "path_setter p want path =
     (case Cut (CHR ''.'') path of (field, sub) \<Rightarrow>
        if field = ''rate_limits'' then
          (case checkRateLimits p sub of Inl e \<Rightarrow> Inl e | Inr _ \<Rightarrow> rateLimitsSetter sub (q_RateLimits want))
        else if field = ''retry_config'' then
          (case checkRetry p sub of Inl e \<Rightarrow> Inl e | Inr _ \<Rightarrow> retryConfigSetter sub (q_RetryConfig want))
        else if field = ''stackdriver_logging_config'' then
          (case checkLogging p of Inl e \<Rightarrow> Inl e | Inr _ \<Rightarrow> Inr (\<lambda>q. q\<lparr>q_Logging := q_Logging want\<rparr>))
        else if field = ''http_target'' then
          (case checkHTTPTarget p of Inl e \<Rightarrow> Inl e | Inr _ \<Rightarrow> Inr (\<lambda>q. q\<lparr>q_HTTPTarget := q_HTTPTarget want\<rparr>))
        else if field = ''app_engine_routing_override'' then
          Inr (\<lambda>q. q\<lparr>q_AppEngineRouting := routingFromProto (qp_AppEngineRoutingOverride p)\<rparr>)
        else Inl InvalidArgument)"

fun path_setters :: "queue_pb \<Rightarrow> queue \<Rightarrow> string list \<Rightarrow> code + (queue \<Rightarrow> queue) list" where
  "path_setters p want [] = Inr []"
| "path_setters p want (path # paths) =
     (case path_setter p want path of
        Inl e \<Rightarrow> Inl e
      | Inr upd \<Rightarrow> map_sum id ((#) upd) (path_setters p want paths))"

definition srv_UpdateQueue ::
  "pb_lib \<Rightarrow> time \<Rightarrow> tasks_store \<Rightarrow> queue_pb \<Rightarrow> string list \<Rightarrow> (code + queue_pb) \<times> tasks_store" where
  "srv_UpdateQueue L wall s p paths =
     (if qp_Name p = [] then (Inl InvalidArgument, s)
      else case path_setters p (fromProtoQueue L p) (if paths = [] then updatableQueuePaths else paths) of
        Inl e \<Rightarrow> (Inl e, s)
      | Inr sets \<Rightarrow>
          (case UpdateQueue wall s (qp_Name p) (\<lambda>q. Inr (fold (\<lambda>upd q. upd q) sets q)) of
             (Inl e, s') \<Rightarrow> (Inl e, s')
           | (Inr (q, _), s') \<Rightarrow> (Inr (toProtoQueue L q), s')))"

definition srv_GetQueue :: "pb_lib \<Rightarrow> tasks_store \<Rightarrow> string \<Rightarrow> code + queue_pb" where
  "srv_GetQueue L s nm = map_sum id (toProtoQueue L) (GetQueue s nm)"

text \<open>The same filter on stored queues, for the console.\<close>

definition stored_QueueFilter :: "pb_lib \<Rightarrow> reflect_lib \<Rightarrow> string \<Rightarrow> code + (queue \<Rightarrow> bool option)" where
  "stored_QueueFilter L R flt = map_sum id (\<lambda>keep q. keep (toProtoQueue L q)) (queueFilter R flt)"

text \<open>
  The filter is applied to the queues in turn, and a panic of it is the panic of the call, \<open>None\<close>.
  \<open>byName\<close> finds a queue of the page again.
\<close>

fun kept_queues :: "pb_lib \<Rightarrow> (queue_pb \<Rightarrow> bool option) \<Rightarrow> queue list \<Rightarrow> queue list option" where
  "kept_queues L keep [] = Some []"
| "kept_queues L keep (q # qs) =
     (case keep (toProtoQueue L q) of
        None \<Rightarrow> None
      | Some b \<Rightarrow> map_option (\<lambda>r. if b then q # r else r) (kept_queues L keep qs))"

definition srv_ListQueues ::
  "pb_lib \<Rightarrow> reflect_lib \<Rightarrow> tasks_store \<Rightarrow> string \<Rightarrow> string \<Rightarrow> string \<Rightarrow> int \<Rightarrow> (code + (queue_pb list \<times> string)) option" where
  "srv_ListQueues L R s parent flt pageToken pageSize =
     (if ParseLocation parent = None then Some (Inl InvalidArgument)
      else case queueFilter R flt of
        Inl e \<Rightarrow> Some (Inl e)
      | Inr keep \<Rightarrow>
          (case ListQueues s parent of
             Inl e \<Rightarrow> Some (Inl e)
           | Inr queues \<Rightarrow>
               (case kept_queues L keep queues of
                  None \<Rightarrow> None
                | Some qs \<Rightarrow>
                    let byName = (\<lambda>nm. List.find (\<lambda>q. q_Name q = nm) (rev qs)) in
                    (case Page (''queues:'' @ parent) (map q_Name qs) pageToken pageSize of
                       Inl _ \<Rightarrow> Some (Inl InvalidArgument)
                     | Inr (page, nxt) \<Rightarrow>
                         Some (Inr (map (\<lambda>nm. toProtoQueue L (case byName nm of Some q \<Rightarrow> q | None \<Rightarrow> zero_queue)) page, nxt))))))"

definition srv_DeleteQueue :: "tasks_store \<Rightarrow> string \<Rightarrow> (code + unit) \<times> tasks_store" where
  "srv_DeleteQueue s nm = DeleteQueue s nm"

definition as_queue :: "pb_lib \<Rightarrow> (code + queue) \<times> tasks_store \<Rightarrow> (code + queue_pb) \<times> tasks_store" where
  "as_queue L r = map_prod (map_sum id (toProtoQueue L)) id r"

definition srv_PauseQueue :: "pb_lib \<Rightarrow> tasks_store \<Rightarrow> string \<Rightarrow> (code + queue_pb) \<times> tasks_store" where
  "srv_PauseQueue L s nm = as_queue L (SetQueueState s nm StatePaused)"

definition srv_ResumeQueue :: "pb_lib \<Rightarrow> tasks_store \<Rightarrow> string \<Rightarrow> (code + queue_pb) \<times> tasks_store" where
  "srv_ResumeQueue L s nm = as_queue L (SetQueueState s nm StateRunning)"

definition srv_PurgeQueue :: "pb_lib \<Rightarrow> time \<Rightarrow> tasks_store \<Rightarrow> string \<Rightarrow> (code + queue_pb) \<times> tasks_store" where
  "srv_PurgeQueue L now s nm =
     (case PurgeQueue now s nm of
        (Inl e, s') \<Rightarrow> (Inl e, s')
      | (Inr _, s') \<Rightarrow> (srv_GetQueue L s' nm, s'))"

definition srv_GetIamPolicy :: "(string \<Rightarrow> int) \<Rightarrow> tasks_store \<Rightarrow> string \<Rightarrow> int \<Rightarrow> code + policy_pb" where
  "srv_GetIamPolicy lt_value s nm version =
     (case GetQueue s nm of Inl e \<Rightarrow> Inl e | Inr q \<Rightarrow> iam_Get lt_value (q_IAMPolicy q) version)"

definition srv_SetIamPolicy ::
  "(string \<Rightarrow> int) \<Rightarrow> (int \<Rightarrow> string option) \<Rightarrow> string \<Rightarrow> tasks_store \<Rightarrow> string \<Rightarrow> set_policy_req \<Rightarrow> (code + policy_pb) \<times> tasks_store" where
  "srv_SetIamPolicy lt_value lt_name rnd s nm req =
     map_prod (map_sum id (\<lambda>p. policy_Proto lt_value (Some p))) id (SetIamPolicy lt_name rnd s nm req)"

definition srv_TestIamPermissions :: "tasks_store \<Rightarrow> string \<Rightarrow> string list \<Rightarrow> code + string list" where
  "srv_TestIamPermissions s nm requested =
     (case GetQueue s nm of Inl e \<Rightarrow> Inl e | Inr _ \<Rightarrow> Inr (iam_Permissions requested))"

section \<open>Handlers of tasks\<close>

definition srv_CreateTask ::
  "pb_lib \<Rightarrow> time \<Rightarrow> time \<Rightarrow> int \<Rightarrow> string \<Rightarrow> tasks_store \<Rightarrow> string \<Rightarrow> task_pb \<Rightarrow> (code + task_pb) \<times> tasks_store" where
  "srv_CreateTask L now wall nano trace s parent p =
     (if Parse parent = None then (Inl InvalidArgument, s)
      else case fromProtoTask L p parent of
        Inl e \<Rightarrow> (Inl e, s)
      | Inr t \<Rightarrow>
          let t = (if t_Name t = [] then t\<lparr>t_Name := generateTaskName parent nano, t_NamedByServer := True\<rparr> else t);
              t = t\<lparr>t_Traceparent := trace\<rparr>
          in case CreateTask L now wall s t of
               (Inl e, s') \<Rightarrow> (Inl e, s')
             | (Inr t1, s1) \<Rightarrow> (Inr (protoTask L s1 t1), s1))"

definition srv_GetTask :: "pb_lib \<Rightarrow> tasks_store \<Rightarrow> string \<Rightarrow> code + task_pb" where
  "srv_GetTask L s nm = map_sum id (protoTask L s) (GetTask s nm)"

definition srv_ListTasks ::
  "pb_lib \<Rightarrow> tasks_store \<Rightarrow> string \<Rightarrow> string \<Rightarrow> int \<Rightarrow> code + (task_pb list \<times> string)" where
  "srv_ListTasks L s parent pageToken pageSize =
     (case ListTasks s parent of
        Inl e \<Rightarrow> Inl e
      | Inr ts \<Rightarrow>
          let byName = (\<lambda>nm. List.find (\<lambda>t. t_Name t = nm) (rev ts)) in
          (case Page (''tasks:'' @ parent) (map t_Name ts) pageToken pageSize of
             Inl _ \<Rightarrow> Inl InvalidArgument
           | Inr (page, nxt) \<Rightarrow>
               Inr (map (\<lambda>nm. protoTask L s (case byName nm of Some t \<Rightarrow> t | None \<Rightarrow> zero_task)) page, nxt)))"

definition srv_DeleteTask :: "time \<Rightarrow> tasks_store \<Rightarrow> string \<Rightarrow> (code + unit) \<times> tasks_store" where
  "srv_DeleteTask now s nm = DeleteTask now s nm"

definition srv_RunTask :: "pb_lib \<Rightarrow> time \<Rightarrow> tasks_store \<Rightarrow> string \<Rightarrow> (code + task_pb) \<times> tasks_store" where
  "srv_RunTask L now s nm =
     (if Parse nm = None then (Inl InvalidArgument, s)
      else case RunTask now s nm of
        (Inl e, s') \<Rightarrow> (Inl e, s')
      | (Inr t, s') \<Rightarrow> (Inr (protoTask L s' t), s'))"

section \<open>Batches\<close>

definition MaxBatchCreate :: nat where
  "MaxBatchCreate = 100"

definition MaxBatchDelete :: nat where
  "MaxBatchDelete = 1000"

text \<open>What the clocks read during a batch: at its start, at its end, for the operation's name and for each request.\<close>

record batch_clock =
  bc_start :: time
  bc_end :: time
  bc_nano :: int
  bc_now :: "nat \<Rightarrow> time"
  bc_wall :: "nat \<Rightarrow> time"
  bc_task :: "nat \<Rightarrow> int"

text \<open>\<open>anypb.New\<close> does not fail on the messages a batch makes.\<close>

definition finished_batch :: "string \<Rightarrow> batch_clock \<Rightarrow> (int \<times> code) list \<Rightarrow> nat \<Rightarrow> batch_result \<Rightarrow> batch_op" where
  "finished_batch queue bc failed n result =
     \<lparr>lo_Name = (case Parse queue of Some nm \<Rightarrow> LocationName nm | None \<Rightarrow> ''projects//locations/'') @ ''/operations/'' @ int_dec (bc_nano bc),
      lo_Start = bc_start bc, lo_End = bc_end bc, lo_Partial = (failed \<noteq> []), lo_Failed = failed, lo_Done = True,
      lo_Result = (if length failed = n then BatchError Aborted else result)\<rparr>"

fun create_all :: "pb_lib \<Rightarrow> batch_clock \<Rightarrow> string \<Rightarrow> nat \<Rightarrow> (string \<times> task_pb) list \<Rightarrow> tasks_store \<Rightarrow>
    task_pb list \<times> (int \<times> code) list \<times> tasks_store" where
  "create_all L bc trace i [] s = ([], [], s)"
| "create_all L bc trace i ((parent, p) # reqs) s =
     (case srv_CreateTask L (bc_now bc i) (bc_wall bc i) (bc_task bc i) trace s parent p of
        (Inl e, s1) \<Rightarrow>
          (case create_all L bc trace (Suc i) reqs s1 of (ts, fs, s2) \<Rightarrow> (ts, (to_int32 (int i), e) # fs, s2))
      | (Inr t, s1) \<Rightarrow>
          (case create_all L bc trace (Suc i) reqs s1 of (ts, fs, s2) \<Rightarrow> (t # ts, fs, s2)))"

definition srv_BatchCreateTasks ::
  "pb_lib \<Rightarrow> batch_clock \<Rightarrow> string \<Rightarrow> tasks_store \<Rightarrow> string \<Rightarrow> string \<Rightarrow> (string \<times> task_pb) list \<Rightarrow> (code + batch_op) \<times> tasks_store" where
  "srv_BatchCreateTasks L bc trace s parent requestID reqs =
     (let n = length reqs in
      if Parse parent = None then (Inl InvalidArgument, s)
      else if n = 0 \<or> n > MaxBatchCreate then (Inl InvalidArgument, s)
      else if list_ex (\<lambda>(q, _). q \<noteq> parent) reqs then (Inl InvalidArgument, s)
      else case GetQueue s parent of
        Inl e \<Rightarrow> (Inl e, s)
      | Inr _ \<Rightarrow>
          (case Store_batchOperation s parent requestID of
             Some p \<Rightarrow> (Inr p, s)
           | None \<Rightarrow>
               (case create_all L bc trace 0 reqs s of (ts, failed, s1) \<Rightarrow>
                  let p = finished_batch parent bc failed n (BatchTasks ts)
                  in (Inr p, keepBatchOperation s1 parent requestID p))))"

fun delete_all :: "batch_clock \<Rightarrow> string \<Rightarrow> nat \<Rightarrow> string list \<Rightarrow> tasks_store \<Rightarrow> (int \<times> code) list \<times> tasks_store" where
  "delete_all bc parent i [] s = ([], s)"
| "delete_all bc parent i (nm # nms) s =
     (case (if \<not> HasPrefix nm (parent @ ''/tasks/'') then (Inl InvalidArgument, s)
            else DeleteTask (bc_now bc i) s nm) of
        (Inl e, s1) \<Rightarrow> (case delete_all bc parent (Suc i) nms s1 of (fs, s2) \<Rightarrow> ((to_int32 (int i), e) # fs, s2))
      | (Inr _, s1) \<Rightarrow> delete_all bc parent (Suc i) nms s1)"

definition srv_BatchDeleteTasks ::
  "batch_clock \<Rightarrow> tasks_store \<Rightarrow> string \<Rightarrow> string \<Rightarrow> string list \<Rightarrow> (code + batch_op) \<times> tasks_store" where
  "srv_BatchDeleteTasks bc s parent requestID nms =
     (let n = length nms in
      if Parse parent = None then (Inl InvalidArgument, s)
      else if n = 0 \<or> n > MaxBatchDelete then (Inl InvalidArgument, s)
      else case GetQueue s parent of
        Inl e \<Rightarrow> (Inl e, s)
      | Inr _ \<Rightarrow>
          (case Store_batchOperation s parent requestID of
             Some p \<Rightarrow> (Inr p, s)
           | None \<Rightarrow>
               (case delete_all bc parent 0 nms s of (failed, s1) \<Rightarrow>
                  let p = finished_batch parent bc failed n BatchDeleted
                  in (Inr p, keepBatchOperation s1 parent requestID p))))"

section \<open>A created queue reads back\<close>

lemma defaults_stable:
  "retry_ok rc \<Longrightarrow> retry_withDefaults rc = rc" "rate_ok rl \<Longrightarrow> rate_withDefaults rl = rl"
proof -
  show "retry_ok rc \<Longrightarrow> retry_withDefaults rc = rc" by (simp add: retry_ok_def retry_withDefaults_def WithDefaults_def Let_def)
  show "rate_ok rl \<Longrightarrow> rate_withDefaults rl = rl" by (simp add: rate_ok_def rate_withDefaults_def f64_le_def Let_def)
qed

lemma put_queue_reads:
  assumes "ts_ok s" "put s (queueKey nm) (JQueue q) = (Inr (), s')"
  shows "GetQueue s' nm = Inr q" "ts_ok s'" "db_Get (ts_db s') (queueKey nm) = Inr (JQueue q)"
    "\<And>k. k \<noteq> queueKey nm \<Longrightarrow> ts_view s' k = ts_view s k"
proof -
  have s': "ts_ok s'" "SafeKey (queueKey nm)" "ts_view s' = (ts_view s)(queueKey nm \<mapsto> JQueue q)"
    using put_cases [OF assms(1), of "queueKey nm" "JQueue q"] assms(2) by auto
  then show "GetQueue s' nm = Inr q" "ts_ok s'" "\<And>k. k \<noteq> queueKey nm \<Longrightarrow> ts_view s' k = ts_view s k"
    using get_after(2) [OF s'(1)] by simp_all
  show "db_Get (ts_db s') (queueKey nm) = Inr (JQueue q)"
    using s' by (simp add: db.sget_Inr_iff [OF s'(1)])
qed

lemma CreateQueue_ok:
  assumes "ts_ok s" "CreateQueue wall s q = (Inr q', s')"
  shows "q' = new_queue wall q" "GetQueue s' (q_Name q) = Inr q'"
    "db_Get (ts_db s') (queueKey (q_Name q)) = Inr (JQueue q')" "checkQueueName (q_Name q) = Inr ()"
proof -
  have nm: "q_Name (new_queue wall q) = q_Name q" by (simp add: new_queue_def Let_def)
  have c: "checkQueueName (q_Name q) = Inr ()" "q' = new_queue wall q"
    "put s (queueKey (q_Name q)) (JQueue q') = (Inr (), s')"
    using assms(2) nm by (auto simp: CreateQueue_def Let_def returning_def split: sum.splits prod.splits)
  then show "q' = new_queue wall q" "checkQueueName (q_Name q) = Inr ()" by simp_all
  show "GetQueue s' (q_Name q) = Inr q'" "db_Get (ts_db s') (queueKey (q_Name q)) = Inr (JQueue q')"
    using put_queue_reads [OF assms(1) c(3)] by simp_all
qed

text \<open>C23: A queue that was created reads back as the answer of its creation said, with its name and state as
  asked for and its limits filled in with positive defaults, and creating it again is refused with
  ALREADY\_EXISTS and changes nothing.\<close>

theorem created_queue_reads_back:
  assumes "typed_store s" "srv_CreateQueue L wall s parent p = (Inr r, s')"
  shows "srv_GetQueue L s' (qp_Name p) = Inr r \<and> qp_Name r = qp_Name p \<and>
    qp_State r = (case qp_State p of PAUSED \<Rightarrow> PAUSED | DISABLED \<Rightarrow> DISABLED | _ \<Rightarrow> RUNNING) \<and>
    (\<exists>rl. qp_RateLimits r = Some rl \<and> f64_less (Fin 0) (rp_MaxDispatchesPerSecond rl)) \<and>
    srv_CreateQueue L wall' s' parent p = (Inl AlreadyExists, s')"
proof -
  have ok: "ts_ok s" using assms(1) by (simp add: typed_store_def)
  let ?q = "fromProtoQueue L p"
  obtain q' where c: "ParseLocation parent \<noteq> None" "checkQueue p = Inr ()" "qp_Name p \<noteq> []"
      "HasPrefix (qp_Name p) (parent @ ''/queues/'')" "CreateQueue wall s ?q = (Inr q', s')" "r = toProtoQueue L q'"
    using assms(2) by (auto simp: srv_CreateQueue_def fromProtoQueue_def Let_def split: if_splits sum.splits prod.splits)
  note q' = CreateQueue_ok [OF ok c(5)]
  have nm: "q_Name ?q = qp_Name p" by (simp add: fromProtoQueue_def)
  have again: "CreateQueue wall' s' ?q = (Inl AlreadyExists, s')" using q'(3,4) by (simp add: CreateQueue_def)
  have "typed_store s'"
    using typed_CreateQueue [OF assms(1), of ?q wall] c(5) by (auto simp: fromProtoQueue_def valid_state_def split: state_pb.splits)
  then have "queue_ok q'" using typed_queue [of s' "q_Name ?q" q'] q'(2) by (auto simp: GetQueue_def split: option.splits)
  then have "f64_less (Fin 0) (rl_MaxDispatchesPerSecond (q_RateLimits q'))" by (simp add: queue_ok_def rate_ok_def)
  moreover have "q_State q' = q_State ?q" "q_Name q' = qp_Name p"
    by (auto simp: q'(1) new_queue_def fromProtoQueue_def queue_state_defs Let_def split: state_pb.splits)
  ultimately show ?thesis
    using q'(2) nm c again
    by (auto simp: srv_GetQueue_def srv_CreateQueue_def toProtoQueue_def fromProtoQueue_def queue_state_defs Let_def split: state_pb.splits)
qed

theorem created_queue_reads_back_witness:
  "\<exists>r s'. srv_CreateQueue (demo_lib demo_target) 5 (NewStore (MemDB NewMemory)) ''projects/demo-1/locations/us''
      ((demo_pb PAUSED)\<lparr>qp_Name := demo_queue\<rparr>) = (Inr r, s') \<and>
    srv_GetQueue (demo_lib demo_target) s' demo_queue = Inr r \<and> qp_State r = PAUSED"
proof -
  let ?L = "demo_lib demo_target" and ?s = "NewStore (MemDB NewMemory)" and ?p = "(demo_pb PAUSED)\<lparr>qp_Name := demo_queue\<rparr>"
  have "ParseLocation ''projects/demo-1/locations/us'' \<noteq> None" "checkQueue ?p = Inr ()"
    "HasPrefix demo_queue (''projects/demo-1/locations/us'' @ ''/queues/'')" "demo_queue \<noteq> []"
    "\<not> isl (fst (CreateQueue 5 ?s (fromProtoQueue ?L ?p)))" by code_simp+
  then have "\<not> isl (fst (srv_CreateQueue ?L 5 ?s ''projects/demo-1/locations/us'' ?p))"
    by (auto simp: srv_CreateQueue_def fromProtoQueue_def split: prod.splits sum.splits)
  then obtain r s' where c: "srv_CreateQueue ?L 5 ?s ''projects/demo-1/locations/us'' ?p = (Inr r, s')"
    by (metis isl_def prod.collapse sum.exhaust)
  from created_queue_reads_back [OF typed_fresh c] have "srv_GetQueue ?L s' demo_queue = Inr r" "qp_State r = PAUSED"
    by (simp_all add: demo_pb_def)
  with c show ?thesis by blast
qed

section \<open>An update touches what its mask names\<close>

abbreviation names_field :: "string list \<Rightarrow> string \<Rightarrow> bool" where
  "names_field paths f \<equiv> \<exists>path\<in>set paths. fst (Cut (CHR ''.'') path) = f"

text \<open>What a list of updates leaves alone.\<close>

definition untouched :: "string list \<Rightarrow> queue \<Rightarrow> queue \<Rightarrow> bool" where
  "untouched paths q q' \<longleftrightarrow> q_Name q' = q_Name q \<and> q_State q' = q_State q \<and> q_Created q' = q_Created q \<and>
     q_Purged q' = q_Purged q \<and> q_IAMPolicy q' = q_IAMPolicy q \<and>
     (\<not> names_field paths ''rate_limits'' \<longrightarrow> q_RateLimits q' = q_RateLimits q) \<and>
     (\<not> names_field paths ''retry_config'' \<longrightarrow> q_RetryConfig q' = q_RetryConfig q) \<and>
     (\<not> names_field paths ''stackdriver_logging_config'' \<longrightarrow> q_Logging q' = q_Logging q) \<and>
     (\<not> names_field paths ''http_target'' \<longrightarrow> q_HTTPTarget q' = q_HTTPTarget q) \<and>
     (\<not> names_field paths ''app_engine_routing_override'' \<longrightarrow> q_AppEngineRouting q' = q_AppEngineRouting q)"

lemma rateLimitsSetter_untouched:
  "rateLimitsSetter sub want = Inr upd \<Longrightarrow> \<exists>f. upd = (\<lambda>q. q\<lparr>q_RateLimits := f q\<rparr>)"
  by (auto simp: rateLimitsSetter_def split: if_splits)

lemma retryConfigSetter_untouched:
  "retryConfigSetter sub want = Inr upd \<Longrightarrow> \<exists>f. upd = (\<lambda>q. q\<lparr>q_RetryConfig := f q\<rparr>)"
  by (auto simp: retryConfigSetter_def Let_def split: if_splits)

lemma path_setter_untouched:
  assumes "path_setter p want path = Inr upd"
  shows "untouched [path] q (upd q)"
proof -
  obtain field sub where c: "Cut (CHR ''.'') path = (field, sub)" by (cases "Cut (CHR ''.'') path")
  show ?thesis
    using assms c
    by (auto simp: path_setter_def untouched_def dest!: rateLimitsSetter_untouched retryConfigSetter_untouched
        split: if_splits sum.splits)
qed

lemma path_setters_untouched:
  "path_setters p want paths = Inr sets \<Longrightarrow> untouched paths q (fold (\<lambda>upd q. upd q) sets q)"
proof (induction paths arbitrary: sets q)
  case (Cons path paths)
  then obtain upd sets' where u: "path_setter p want path = Inr upd" "path_setters p want paths = Inr sets'" "sets = upd # sets'"
    by (auto split: sum.splits simp: map_sum_def)
  from path_setter_untouched [OF u(1), of q] Cons.IH [OF u(2), of "upd q"] show ?case
    by (simp add: u(3) untouched_def)
qed (simp add: untouched_def)



section \<open>Batches account for every request\<close>

lemma in_memory_iff: "in_memory s \<longleftrightarrow> (\<exists>m. ts_db s = MemDB m)"
  by (cases "ts_db s") (simp_all add: in_memory_def)

lemma MemDB_stays: "\<exists>m'. snd (db_Put (MemDB m) k b) = MemDB m'" "\<exists>m'. snd (db_Delete (MemDB m) k) = MemDB m'"
  by simp_all

lemma memory_writes:
  assumes "in_memory s"
  shows "in_memory (snd (put s k v))" "in_memory (s\<lparr>ts_db := snd (db_Put (ts_db s) k b)\<rparr>)"
    "in_memory (s\<lparr>ts_db := snd (db_Delete (ts_db s) k)\<rparr>)"
proof -
  obtain m where m: "ts_db s = MemDB m" using assms by (auto simp: in_memory_iff)
  show "in_memory (s\<lparr>ts_db := snd (db_Put (ts_db s) k b)\<rparr>)" "in_memory (s\<lparr>ts_db := snd (db_Delete (ts_db s) k)\<rparr>)"
    using MemDB_stays [of m k] by (simp_all add: in_memory_iff m)
  have "\<exists>m'. snd (db_Put (MemDB m) k b) = MemDB m'" for b by (rule MemDB_stays)
  then have "\<exists>m'. d = MemDB m'" if "db_Put (MemDB m) k b = (r, d)" for b r d using that by (metis snd_conv)
  then show "in_memory (snd (put s k v))"
    using assms by (auto simp: put_def m in_memory_iff simp del: db_Put.simps split: option.split prod.split sum.split)
qed

text \<open>Creating tasks only adds: queues and tasks that were there read as before.\<close>

definition extends :: "tasks_store \<Rightarrow> tasks_store \<Rightarrow> bool" where
  "extends s s' \<longleftrightarrow> ts_ok s' \<and> (in_memory s \<longrightarrow> in_memory s') \<and> (\<forall>nm. GetQueue s' nm = GetQueue s nm) \<and>
     (\<forall>nm t. GetTask s nm = Inr t \<longrightarrow> GetTask s' nm = Inr t)"

lemma extends_trans: "extends s1 s2 \<Longrightarrow> extends s2 s3 \<Longrightarrow> extends s1 s3"
  by (simp add: extends_def)

lemma GetQueue_same_view:
  assumes "ts_ok s" "ts_ok s'" "ts_view s' (queueKey nm) = ts_view s (queueKey nm)"
  shows "GetQueue s' nm = GetQueue s nm"
proof -
  have "get_queue (ts_db s') (queueKey nm) = Some q \<longleftrightarrow> get_queue (ts_db s) (queueKey nm) = Some q" for q
    by (simp add: get_iff(1) [OF assms(1)] get_iff(1) [OF assms(2)] assms(3))
  then have "get_queue (ts_db s') (queueKey nm) = get_queue (ts_db s) (queueKey nm)" by (metis not_Some_eq)
  then show ?thesis by (simp add: GetQueue_def)
qed

lemma extends_task_write:
  assumes ok: "ts_ok s" "ts_ok s'" and mem: "in_memory s \<Longrightarrow> in_memory s'" and new: "\<nexists>v. db_Get (ts_db s) (taskKey nm) = Inr v"
    and same: "\<And>k. k \<noteq> taskKey nm \<Longrightarrow> k \<noteq> tombstoneKey nm \<Longrightarrow> ts_view s' k = ts_view s k"
  shows "extends s s'"
proof -
  have "GetTask s' n = Inr t" if t: "GetTask s n = Inr t" for n t
  proof -
    have v: "SafeKey (taskKey n)" "ts_view s (taskKey n) = Some (JTask t)" using t get_after(1) [OF ok(1)] by blast+
    then have "db_Get (ts_db s) (taskKey n) = Inr (JTask t)" by (simp add: db.sget_Inr_iff [OF ok(1)])
    then have "n \<noteq> nm" using new by blast
    then show ?thesis using v same [of "taskKey n"] get_after(1) [OF ok(2), of n t] by simp
  qed
  then show ?thesis using ok mem same GetQueue_same_view [OF ok] by (simp add: extends_def)
qed

lemma CreateTask_extends:
  assumes ok: "ts_ok s" and c: "CreateTask L now wall s t = (r, s')"
  shows "extends s s'" "r = Inr t1 \<Longrightarrow> GetTask s' (t_Name t) = Inr t1 \<and> t_Name t1 = t_Name t"
proof -
  have "extends s s' \<and> (\<forall>t1. r = Inr t1 \<longrightarrow> GetTask s' (t_Name t) = Inr t1 \<and> t_Name t1 = t_Name t)"
  proof (cases rule: CreateTask_cases [of L now wall s t])
    case (refused e)
    then show ?thesis using c ok by (simp add: extends_def)
  next
    case k: (create n q s1)
    have s1: "ts_ok s1" "in_memory s \<Longrightarrow> in_memory s1" "\<And>k. k \<noteq> tombstoneKey (t_Name t) \<Longrightarrow> ts_view s1 k = ts_view s k"
      using k(4) ok memory_writes(3) by (auto simp: db_Delete_other)
    let ?t = "new_task wall (filed n t)" and ?k = "taskKey (t_Name t)"
    have put: "put s1 ?k (JTask ?t) = (fst (put s1 ?k (JTask ?t)), s')" "r = map_sum id (\<lambda>_. ?t) (fst (put s1 ?k (JTask ?t)))"
      using c k(5) by (cases "put s1 ?k (JTask ?t)"; auto simp: returning_def split: sum.splits)+
    have mem: "in_memory s \<Longrightarrow> in_memory s'" using s1(2) memory_writes(1) [of s1 ?k "JTask ?t"] put(1) by (metis snd_conv)
    show ?thesis
    proof (cases rule: put_cases [OF s1(1), of ?k "JTask ?t"])
      case (1 s2)
      then have "s' = s2" using put(1) by simp
      moreover from this 1 have "extends s s'" by (intro extends_task_write [OF ok _ mem k(3)]) (simp_all add: s1(3))
      moreover have "GetTask s' (t_Name t) = Inr ?t" using get_after(1) [of s'] 1 calculation(1) by simp
      moreover have "t_Name ?t = t_Name t" by (simp add: filed_def)
      ultimately show ?thesis using put(2) 1(1) by simp
    next
      case (2 s2)
      then have "s' = s2" using put(1) by simp
      moreover from this 2 have "extends s s'" by (intro extends_task_write [OF ok _ mem k(3)]) (simp_all add: s1(3))
      ultimately show ?thesis using put(2) 2(1) by simp
    qed
  qed
  then show "extends s s'" "r = Inr t1 \<Longrightarrow> GetTask s' (t_Name t) = Inr t1 \<and> t_Name t1 = t_Name t" by simp_all
qed

lemma protoTask_extends: "extends s s' \<Longrightarrow> protoTask L s' t = protoTask L s t"
  by (simp add: protoTask_def extends_def)

lemma tk_Name_protoTask [simp]: "tk_Name (protoTask L s t) = t_Name t"
  by (simp add: protoTask_def toProtoTaskIn_def attemptsToProto_def Let_def split: option.split)

definition answered_task :: "pb_lib \<Rightarrow> tasks_store \<Rightarrow> task_pb \<Rightarrow> bool" where
  "answered_task L s tp \<longleftrightarrow> srv_GetTask L s (tk_Name tp) = Inr tp"

lemma answered_extends: "answered_task L s tp \<Longrightarrow> extends s s' \<Longrightarrow> answered_task L s' tp"
proof -
  assume a: "answered_task L s tp" and e: "extends s s'"
  obtain t where "GetTask s (tk_Name tp) = Inr t" "tp = protoTask L s t"
    using a by (auto simp: answered_task_def srv_GetTask_def map_sum_def split: sum.splits)
  then show "answered_task L s' tp"
    using e protoTask_extends [OF e] by (simp add: answered_task_def srv_GetTask_def extends_def)
qed

lemma srv_CreateTask_extends:
  assumes ok: "ts_ok s" and c: "srv_CreateTask L now wall nano trace s parent p = (r, s')"
  shows "extends s s'" "r = Inr tp \<Longrightarrow> answered_task L s' tp"
proof -
  have refl: "extends s s" using ok by (simp add: extends_def)
  have "extends s s' \<and> (\<forall>tp. r = Inr tp \<longrightarrow> answered_task L s' tp)"
  proof (cases "Parse parent = None \<or> isl (fromProtoTask L p parent)")
    case True
    then show ?thesis using c refl by (auto simp: srv_CreateTask_def isl_def split: if_splits)
  next
    case False
    then obtain t0 where t0: "fromProtoTask L p parent = Inr t0" by (cases "fromProtoTask L p parent") auto
    define t where "t = (if t_Name t0 = [] then t0\<lparr>t_Name := generateTaskName parent nano, t_NamedByServer := True\<rparr> else t0)\<lparr>t_Traceparent := trace\<rparr>"
    obtain r1 s1 where k: "CreateTask L now wall s t = (r1, s1)" by (cases "CreateTask L now wall s t")
    have "r = map_sum id (protoTask L s1) r1" "s' = s1"
      using c False t0 k by (auto simp: srv_CreateTask_def t_def Let_def split: sum.splits)
    then show ?thesis
      using CreateTask_extends [OF ok k]
      by (cases r1) (auto simp: answered_task_def srv_GetTask_def)
  qed
  then show "extends s s'" "r = Inr tp \<Longrightarrow> answered_task L s' tp" by simp_all
qed

lemma create_all_ok:
  assumes "ts_ok s" "create_all L bc trace i reqs s = (ts, fs, s')" "i + length reqs \<le> 2 ^ 31"
  shows "extends s s'" "length ts + length fs = length reqs" "\<forall>tp\<in>set ts. answered_task L s' tp"
    "sorted_wrt (<) (map fst fs)" "\<forall>j\<in>set (map fst fs). int i \<le> j \<and> j < int (i + length reqs)"
proof -
  have "extends s s' \<and> length ts + length fs = length reqs \<and> (\<forall>tp\<in>set ts. answered_task L s' tp) \<and>
      sorted_wrt (<) (map fst fs) \<and> (\<forall>j\<in>set (map fst fs). int i \<le> j \<and> j < int (i + length reqs))"
    using assms
  proof (induction reqs arbitrary: i s ts fs)
    case Nil
    then show ?case by (simp add: extends_def)
  next
    case (Cons req reqs)
    obtain parent p where req: "req = (parent, p)" by (cases req)
    obtain r s1 where c: "srv_CreateTask L (bc_now bc i) (bc_wall bc i) (bc_task bc i) trace s parent p = (r, s1)"
      by (cases "srv_CreateTask L (bc_now bc i) (bc_wall bc i) (bc_task bc i) trace s parent p")
    obtain ts1 fs1 where rest: "create_all L bc trace (Suc i) reqs s1 = (ts1, fs1, s')"
        "(ts, fs) = (case r of Inl e \<Rightarrow> (ts1, (to_int32 (int i), e) # fs1) | Inr t \<Rightarrow> (t # ts1, fs1))"
      using Cons.prems(2) by (auto simp: req c split: sum.splits prod.splits)
    note e1 = srv_CreateTask_extends [OF Cons.prems(1) c]
    have "ts_ok s1" using e1(1) by (simp add: extends_def)
    from Cons.IH [OF this rest(1)] Cons.prems(3)
    have ih: "extends s1 s'" "length ts1 + length fs1 = length reqs" "\<forall>tp\<in>set ts1. answered_task L s' tp"
        "sorted_wrt (<) (map fst fs1)" "\<forall>j\<in>set (map fst fs1). int (Suc i) \<le> j \<and> j < int (Suc i + length reqs)" by simp_all
    have i: "to_int32 (int i) = int i" using Cons.prems(3) by (intro to_int32_id) auto
    have ext: "extends s s'" using e1(1) ih(1) by (rule extends_trans)
    show ?case
    proof (cases r)
      case (Inl e)
      then show ?thesis using rest(2) ih i ext by auto
    next
      case (Inr t)
      then show ?thesis using rest(2) ih ext answered_extends [OF e1(2) [OF Inr] ih(1)] by auto
    qed
  qed
  then show "extends s s'" "length ts + length fs = length reqs" "\<forall>tp\<in>set ts. answered_task L s' tp"
    "sorted_wrt (<) (map fst fs)" "\<forall>j\<in>set (map fst fs). int i \<le> j \<and> j < int (i + length reqs)" by blast+
qed

lemma kept_operation:
  assumes ok: "ts_ok s" "in_memory s" and k: "SafeKey (batchKey queue rid)" "rid \<noteq> []"
  shows "extends s (keepBatchOperation s queue rid p)" "Store_batchOperation (keepBatchOperation s queue rid p) queue rid = Some p"
proof -
  obtain m where m: "ts_db s = MemDB m" using ok(2) by (auto simp: in_memory_iff)
  let ?s = "keepBatchOperation s queue rid p"
  let ?ops = "[OpPut (batchKey queue rid) (POperation p)]"
  have c: "fst (db_Commit (ts_db s) ?ops) = Inr ()"
    unfolding m using MemDB_commit [of ?ops m] k(1) by (simp del: db_Commit.simps)
  have "?s = s\<lparr>ts_db := snd (db_Commit (ts_db s) ?ops)\<rparr>" using k(2) by (simp add: keepBatchOperation_def db_Put_commit)
  then have s: "ts_ok ?s \<and> ts_view ?s = (ts_view s)(batchKey queue rid \<mapsto> POperation p)"
    by (cases rule: db_Commit_cases [OF ok(1), of ?ops]) (use c in simp_all)
  then have s1: "ts_ok ?s" and s2: "ts_view ?s = (ts_view s)(batchKey queue rid \<mapsto> POperation p)" by blast+
  show "Store_batchOperation ?s queue rid = Some p"
    using k s2 by (simp add: Store_batchOperation_def db.sget_eq [OF s1])
  have "in_memory ?s" using memory_writes(2) [OF ok(2)] k(2) by (simp add: keepBatchOperation_def)
  moreover have "GetQueue ?s nm = GetQueue s nm" for nm by (rule GetQueue_same_view [OF ok(1) s1]) (simp add: s2)
  moreover have "GetTask ?s nm = Inr t" if "GetTask s nm = Inr t" for nm t
    using that unfolding get_after(1) [OF s1] get_after(1) [OF ok(1)] by (simp add: s2)
  ultimately show "extends s ?s" using s1 by (simp add: extends_def)
qed


definition demo_request :: "message_type \<Rightarrow> string \<times> task_pb" where
  "demo_request message = (demo_queue, \<lparr>tk_Name = demo_queue @ ''/tasks/u'', tk_ScheduleTime = None, tk_CreateTime = None,
     tk_DispatchDeadline = None, tk_DispatchCount = 0, tk_ResponseCount = 0, tk_MessageType = message,
     tk_FirstAttempt = None, tk_LastAttempt = None\<rparr>)"

definition demo_clock :: batch_clock where
  "demo_clock = \<lparr>bc_start = 1, bc_end = 2, bc_nano = 3, bc_now = (\<lambda>_. 1), bc_wall = (\<lambda>_. 1), bc_task = int\<rparr>"


end
