(* ===== verification/Secrets_Types.thy ===== *)
theory Secrets_Types
  imports Resource StoreDB Iampolicy "HOL-Library.Stream"
begin

text \<open>
  Secret Manager, package \<open>internal/service/secrets\<close>: the stored forms and names of \<open>store.go\<close>, the
  limits of \<open>schedule.go\<close>, the statuses of \<open>cmek.go\<close> and the messages of \<open>notify.go\<close>; and the
  state the store's methods work on, with the combinators their definitions are written with.
\<close>

section \<open>Names\<close>

definition LatestAlias :: string where
  "LatestAlias = ''latest''"

definition secretPrefix :: string where
  "secretPrefix = ''secrets/''"

definition versionPrefix :: string where
  "versionPrefix = ''versions/''"

definition RegionalScope :: "string \<Rightarrow> string \<Rightarrow> string" where
  "RegionalScope project location = project @ ''@'' @ location"

definition SplitScope :: "string \<Rightarrow> string \<times> string" where
  "SplitScope scope = Cut (CHR ''@'') scope"

definition secret_id_char :: "char \<Rightarrow> bool" where
  "secret_id_char c \<longleftrightarrow> is_alnum c \<or> c = CHR ''-'' \<or> c = CHR ''_''"

text \<open>The loop ranges over runes; a byte outside ASCII is part of a rune the switch refuses.\<close>

definition ValidateSecretID :: "string \<Rightarrow> code + unit" where
  "ValidateSecretID i =
     (if i = [] then Inl InvalidArgument
      else if length i > 255 then Inl InvalidArgument
      else if list_all secret_id_char i then Inr ()
      else Inl InvalidArgument)"

definition secret_parts4 :: "string \<Rightarrow> code + string list" where
  "secret_parts4 nm =
     (case split_on (CHR ''/'') nm of
        [a, p, b, l, c, i] \<Rightarrow>
          if a = ''projects'' \<and> b = ''locations'' \<and> c = ''secrets'' then
            if \<not> ValidID l then Inl InvalidArgument else Inr [a, RegionalScope p l, c, i]
          else Inr [a, p, b, l, c, i]
      | parts \<Rightarrow> Inr parts)"

definition ParseSecretName :: "string \<Rightarrow> code + (string \<times> string)" where
  "ParseSecretName nm =
     (case secret_parts4 nm of
        Inl e \<Rightarrow> Inl e
      | Inr [a, project, c, i] \<Rightarrow>
          if a \<noteq> ''projects'' \<or> c \<noteq> ''secrets'' then Inl InvalidArgument
          else if \<not> ValidID (fst (SplitScope project)) then Inl InvalidArgument
          else if \<not> ValidID i then Inl InvalidArgument
          else (case ValidateSecretID i of Inl e \<Rightarrow> Inl e | Inr _ \<Rightarrow> Inr (project, i))
      | Inr _ \<Rightarrow> Inl InvalidArgument)"

definition ParseVersionName :: "string \<Rightarrow> code + (string \<times> string \<times> string)" where
  "ParseVersionName nm =
     (case Index nm (''/'' @ versionPrefix) of
        None \<Rightarrow> Inl InvalidArgument
      | Some idx \<Rightarrow>
          let parent = take idx nm; version = drop (idx + length (''/'' @ versionPrefix)) nm in
          if version = [] \<or> Contains version ''/'' then Inl InvalidArgument
          else (case ParseSecretName parent of
                  Inl e \<Rightarrow> Inl e
                | Inr (project, secret) \<Rightarrow>
                    if version \<noteq> LatestAlias \<and> (case Atoi version of None \<Rightarrow> True | Some n \<Rightarrow> n < 1)
                    then Inl InvalidArgument else Inr (project, secret, version)))"

definition SecretName :: "string \<Rightarrow> string \<Rightarrow> string" where
  "SecretName project secret =
     (let (p, l) = SplitScope project in
      if l \<noteq> [] then ''projects/'' @ p @ ''/locations/'' @ l @ ''/'' @ secretPrefix @ secret
      else ''projects/'' @ project @ ''/'' @ secretPrefix @ secret)"

definition VersionName :: "string \<Rightarrow> string \<Rightarrow> int \<Rightarrow> string" where
  "VersionName project secret number = SecretName project secret @ ''/'' @ versionPrefix @ int_dec number"

definition scopeOfName :: "string \<Rightarrow> string" where
  "scopeOfName nm =
     (let p = split_on (CHR ''/'') nm in
      if length p \<ge> 6 \<and> p ! 0 = ''projects'' \<and> p ! 2 = ''locations'' \<and> p ! 4 = ''secrets''
      then RegionalScope (p ! 1) (p ! 3)
      else if length p \<ge> 4 \<and> p ! 0 = ''projects'' \<and> p ! 2 = ''secrets'' then p ! 1
      else [])"

definition secretParts :: "string \<Rightarrow> string \<times> string" where
  "secretParts nm =
     (case split_on (CHR ''/'') nm of
        [a, p, b, i] \<Rightarrow> (p, i)
      | [a, p, b, l, c, i] \<Rightarrow> (RegionalScope p l, i)
      | _ \<Rightarrow> ([], []))"

section \<open>Storage keys\<close>

text \<open>\<open>fmt\<close>'s \<open>%010d\<close>: zeros up to a width of ten, after the sign.\<close>

definition pad_zeros :: "nat \<Rightarrow> string \<Rightarrow> string" where
  "pad_zeros w s = replicate (w - length s) (CHR ''0'') @ s"

definition fmt_010d :: "int \<Rightarrow> string" where
  "fmt_010d n = (if n < 0 then CHR ''-'' # pad_zeros 9 (nat_dec (nat (- n))) else pad_zeros 10 (nat_dec (nat n)))"

definition secretKey :: "string \<Rightarrow> string \<Rightarrow> string" where
  "secretKey project secret = ''secret/'' @ project @ ''/'' @ secret"

definition versionsUnder :: "string \<Rightarrow> string \<Rightarrow> string" where
  "versionsUnder project secret = ''version/'' @ project @ ''/'' @ secret @ ''/''"

definition versionKey :: "string \<Rightarrow> string \<Rightarrow> int \<Rightarrow> string" where
  "versionKey project secret number = versionsUnder project secret @ fmt_010d number"

section \<open>Stored forms\<close>

datatype version_state = VersionEnabled | VersionDisabled | VersionDestroyed

record secret =
  sc_Name :: string
  sc_Created :: time
  sc_Labels :: "string gomap"
  sc_Annotations :: "string gomap"
  sc_Replication :: string
  sc_ReplicaLocations :: "string list"
  sc_KMSKeys :: "string list"
  sc_NextVersion :: int
  sc_Etag :: string
  sc_IAMPolicy :: "stored_policy option"
  sc_Expire :: time
  sc_Topics :: "string list"
  sc_NextRotation :: time
  sc_RotationPeriod :: duration
  sc_VersionDestroyTTL :: duration
  sc_ScheduledDestroys :: "time gomap"

record replica_status =
  rs_Location :: string
  rs_KMSKey :: string
  rs_KeyVersion :: string
  rs_WrappedKey :: string

record secret_version =
  sv_Name :: string
  sv_Number :: int
  sv_State :: version_state
  sv_Created :: time
  sv_Destroyed :: time
  sv_ScheduledDestroy :: time
  sv_Payload :: string
  sv_PayloadSize :: int
  sv_Etag :: string
  sv_Replicas :: "replica_status list"
  sv_ClientChecksum :: bool

definition Expired :: "secret \<Rightarrow> time \<Rightarrow> bool" where
  "Expired sec now \<longleftrightarrow> sc_Expire sec \<noteq> zero_time \<and> \<not> now < sc_Expire sec"

definition Accessible :: "secret_version \<Rightarrow> bool" where
  "Accessible v \<longleftrightarrow> sv_State v = VersionEnabled"

definition Regional :: "secret \<Rightarrow> bool" where
  "Regional sec \<longleftrightarrow> snd (SplitScope (scopeOfName (sc_Name sec))) \<noteq> []"

definition encrypted :: "secret_version \<Rightarrow> bool" where
  "encrypted v \<longleftrightarrow> list_ex (\<lambda>r. rs_KMSKey r \<noteq> []) (sv_Replicas v)"

definition version_Size :: "secret_version \<Rightarrow> int" where
  "version_Size v = (if encrypted v then sv_PayloadSize v else int (length (sv_Payload v)))"

text \<open>
  A stored document stands for the bytes \<open>json.Marshal\<close> makes of it, which read back as the value;
  it fails on an instant outside the years JSON can express.
\<close>

datatype sdoc = SSecret secret | SVersion secret_version

fun sdoc_Marshal :: "sdoc \<Rightarrow> sdoc option" where
  "sdoc_Marshal (SSecret x) =
     (if time_json_ok (sc_Created x) \<and> time_json_ok (sc_Expire x) \<and> time_json_ok (sc_NextRotation x) \<and>
         list_all (\<lambda>kt. time_json_ok (snd kt)) (sc_ScheduledDestroys x)
      then Some (SSecret x) else None)"
| "sdoc_Marshal (SVersion v) =
     (if time_json_ok (sv_Created v) \<and> time_json_ok (sv_Destroyed v) \<and> time_json_ok (sv_ScheduledDestroy v)
      then Some (SVersion v) else None)"

section \<open>Schedules\<close>

definition MinRotationLead :: duration where "MinRotationLead = 5 * Minute"
definition MinRotationPeriod :: duration where "MinRotationPeriod = Hour"
definition MaxRotation :: duration where "MaxRotation = 3153600000 * Second"
definition MinVersionDestroyTTL :: duration where "MinVersionDestroyTTL = 24 * Hour"
definition MaxVersionDestroyTTL :: duration where "MaxVersionDestroyTTL = 1000 * 24 * Hour"

lemmas rotation_limits = MinRotationLead_def MinRotationPeriod_def MaxRotation_def
  MinVersionDestroyTTL_def MaxVersionDestroyTTL_def

record schedule =
  sch_NextRotation :: time
  sch_RotationPeriod :: duration
  sch_VersionDestroyTTL :: duration

definition no_schedule :: schedule where
  "no_schedule = \<lparr>sch_NextRotation = zero_time, sch_RotationPeriod = 0, sch_VersionDestroyTTL = 0\<rparr>"

definition schedule_check :: "schedule \<Rightarrow> time \<Rightarrow> bool \<Rightarrow> bool \<Rightarrow> code + unit" where
  "schedule_check sch now rotation ttl =
     (let next = sch_NextRotation sch; p = sch_RotationPeriod sch; d = sch_VersionDestroyTTL sch in
      if rotation \<and> next \<noteq> zero_time \<and> next < now + MinRotationLead then Inl InvalidArgument
      else if rotation \<and> next \<noteq> zero_time \<and> next > now + MaxRotation then Inl InvalidArgument
      else if p \<noteq> 0 \<and> (p < MinRotationPeriod \<or> p > MaxRotation \<or> p mod Second \<noteq> 0) then Inl InvalidArgument
      else if p \<noteq> 0 \<and> next = zero_time \<and> rotation then Inl InvalidArgument
      else if ttl \<and> d \<noteq> 0 \<and> (d < MinVersionDestroyTTL \<or> d > MaxVersionDestroyTTL) then Inl InvalidArgument
      else Inr ())"

section \<open>The state of the store and its surroundings\<close>

text \<open>
  A message handed to the publisher, with its attributes; an attribute that is not set is empty.
  The data is the JSON of the secret or the version, as the REST API renders it.
\<close>

record sm_event =
  ev_Topic :: string
  ev_Type :: string
  ev_Secret :: string
  ev_Time :: time
  ev_Version :: string
  ev_Delete :: string
  ev_Data :: "sdoc option"

text \<open>
  Cloud KMS as \<open>KeyService\<close> shows it: \<open>Encrypt\<close> of a key name, a plaintext and additional data gives
  the key version and the ciphertext, \<open>Decrypt\<close> the plaintext; \<open>None\<close> is an error. The first argument
  of \<open>Encrypt\<close> counts the calls of one operation, for equal requests have different answers.
\<close>

record key_service =
  ks_Encrypt :: "nat \<Rightarrow> string \<Rightarrow> string \<Rightarrow> string \<Rightarrow> (string \<times> string) option"
  ks_Decrypt :: "string \<Rightarrow> string \<Rightarrow> string \<Rightarrow> string option"

text \<open>
  What one operation finds around it. The publisher, if there is one, is asked with the number of
  messages handed to it before, and answers with the status code of its error, \<open>Unknown\<close> for an
  error without one. Then Cloud KMS; the hexadecimal digest of SHA-256; the random bytes of a data
  key, a nonce and a policy's etag; AES-256-GCM's \<open>Seal\<close> and \<open>Open\<close> for a key, a nonce, a text and
  additional data; and the audit log types of the IAM messages.
\<close>

record sm_env =
  env_Publish :: "(nat \<Rightarrow> string \<Rightarrow> code option) option"
  env_Keys :: "key_service option"
  env_sha256 :: "string \<Rightarrow> string"
  env_dek :: string
  env_nonce :: string
  env_policy_etag :: string
  env_Seal :: "string \<Rightarrow> string \<Rightarrow> string \<Rightarrow> string \<Rightarrow> string"
  env_Open :: "string \<Rightarrow> string \<Rightarrow> string \<Rightarrow> string \<Rightarrow> string option"
  env_LogType :: "int \<Rightarrow> string option"

text \<open>
  The store: the metadata store, the readings its base clock will give, one after the other, how
  far \<open>Advance\<close> has moved the clock, and the messages handed to the publisher so far.
\<close>

record secrets_state =
  ss_db :: "sdoc db"
  ss_clock :: "time stream"
  ss_offset :: int
  ss_sent :: "sm_event list"

type_synonym 'a sm = "secrets_state \<Rightarrow> (code + 'a) \<times> secrets_state"

definition sm_ok :: "'a \<Rightarrow> 'a sm" where
  "sm_ok x = (\<lambda>s. (Inr x, s))"

definition sm_fail :: "code \<Rightarrow> 'a sm" where
  "sm_fail e = (\<lambda>s. (Inl e, s))"

text \<open>A call whose error is returned at once: \<open>if err != nil { return err }\<close>.\<close>

definition sm_then :: "'a sm \<Rightarrow> ('a \<Rightarrow> 'b sm) \<Rightarrow> 'b sm" where
  "sm_then m f = (\<lambda>s. case m s of (Inl e, s') \<Rightarrow> (Inl e, s') | (Inr x, s') \<Rightarrow> f x s')"

text \<open>A check that does not touch the state, and one that must hold.\<close>

definition sm_lift :: "code + 'a \<Rightarrow> 'a sm" where
  "sm_lift r = (\<lambda>s. (r, s))"

definition sm_require :: "bool \<Rightarrow> code \<Rightarrow> unit sm" where
  "sm_require b e = (\<lambda>s. (if b then Inr () else Inl e, s))"

text \<open>\<open>s.now()\<close>: the next reading of the base clock, moved by the offset.\<close>

definition sm_now :: "time sm" where
  "sm_now = (\<lambda>s. (Inr (shd (ss_clock s) + ss_offset s), s\<lparr>ss_clock := stl (ss_clock s)\<rparr>))"

end
