(* ===== verification/Secrets_Store.thy ===== *)
theory Secrets_Store
  imports Secrets_Types
begin

text \<open>
  \<open>Store\<close> of \<open>internal/service/secrets\<close>: \<open>store.go\<close>, \<open>expiry.go\<close>, \<open>schedule.go\<close>, \<open>notify.go\<close> and
  \<open>cmek.go\<close> over the metadata store in memory or on disk. The mutex makes every exported method one
  step. The interfaces \<open>scanner\<close>, \<open>secretDeleter\<close>, \<open>bulkDeleter\<close> and \<open>mounter\<close> are implemented by the
  Kubernetes store only: over the stores modelled here the type assertions fail, listings read key by
  key, and there is no mount Secret to drop.
\<close>

section \<open>Reading and writing the metadata store\<close>

definition sm_put :: "string \<Rightarrow> sdoc \<Rightarrow> unit sm" where
  "sm_put key v = (\<lambda>s.
     case sdoc_Marshal v of
       None \<Rightarrow> (Inl Internal, s)
     | Some raw \<Rightarrow>
         (case db_Put (ss_db s) key raw of
            (Inl _, d) \<Rightarrow> (Inl Internal, s\<lparr>ss_db := d\<rparr>)
          | (Inr _, d) \<Rightarrow> (Inr (), s\<lparr>ss_db := d\<rparr>)))"

definition sm_delete :: "string \<Rightarrow> unit sm" where
  "sm_delete key = (\<lambda>s.
     case db_Delete (ss_db s) key of
       (Inl _, d) \<Rightarrow> (Inl Internal, s\<lparr>ss_db := d\<rparr>)
     | (Inr _, d) \<Rightarrow> (Inr (), s\<lparr>ss_db := d\<rparr>))"

fun sm_delete_all :: "string list \<Rightarrow> unit sm" where
  "sm_delete_all [] = sm_ok ()"
| "sm_delete_all (k # ks) = sm_then (sm_delete k) (\<lambda>_. sm_delete_all ks)"

text \<open>The value under a key, decoded; a document of the other kind cannot be decoded.\<close>

definition sm_read_secret :: "secrets_state \<Rightarrow> string \<Rightarrow> code + secret" where
  "sm_read_secret s key =
     (case db_Get (ss_db s) key of Inl _ \<Rightarrow> Inl NotFound | Inr (SSecret x) \<Rightarrow> Inr x | Inr _ \<Rightarrow> Inl Internal)"

definition sm_read_version :: "secrets_state \<Rightarrow> string \<Rightarrow> code + secret_version" where
  "sm_read_version s key =
     (case db_Get (ss_db s) key of Inl _ \<Rightarrow> Inl NotFound | Inr (SVersion v) \<Rightarrow> Inr v | Inr _ \<Rightarrow> Inl Internal)"

text \<open>\<open>scan\<close> with the values decoded: what cannot be read or decoded is left out. Go ranges over the map it
  returns in any order; the model takes the order of the keys.\<close>

definition scan_secrets :: "secrets_state \<Rightarrow> string \<Rightarrow> secret list" where
  "scan_secrets s pre =
     List.map_filter (\<lambda>k. case sm_read_secret s k of Inr x \<Rightarrow> Some x | Inl _ \<Rightarrow> None) (db_List (ss_db s) pre)"

definition scan_versions :: "secrets_state \<Rightarrow> string \<Rightarrow> secret_version list" where
  "scan_versions s pre =
     List.map_filter (\<lambda>k. case sm_read_version s k of Inr v \<Rightarrow> Some v | Inl _ \<Rightarrow> None) (db_List (ss_db s) pre)"

text \<open>An etag is a digest of the clock, in quotes; the clock counts from 1970.\<close>

definition unix_epoch :: time where
  "unix_epoch = 62135596800 * Second"

definition sm_etag :: "sm_env \<Rightarrow> string sm" where
  "sm_etag E = sm_then sm_now (\<lambda>now.
     sm_ok (CHR 0x22 # take 16 (env_sha256 E (int_dec (to_int64 (now - unix_epoch)))) @ [CHR 0x22]))"

section \<open>Notifications\<close>

definition MaxTopics :: nat where
  "MaxTopics = 10"

definition topic_name_ok :: "string \<Rightarrow> bool" where
  "topic_name_ok t =
     (case split_on (CHR ''/'') t of
        [a, p, b, n] \<Rightarrow> a = ''projects'' \<and> p \<noteq> [] \<and> b = ''topics'' \<and> n \<noteq> []
      | _ \<Rightarrow> False)"

fun topics_ok :: "string list \<Rightarrow> string list \<Rightarrow> bool" where
  "topics_ok seen [] = True"
| "topics_ok seen (t # ts) = (topic_name_ok t \<and> t \<notin> set seen \<and> topics_ok (t # seen) ts)"

definition validateTopics :: "sm_env \<Rightarrow> string list \<Rightarrow> code + unit" where
  "validateTopics E topics =
     (if topics = [] then Inr ()
      else if length topics > MaxTopics then Inl InvalidArgument
      else if \<not> topics_ok [] topics then Inl InvalidArgument
      else if env_Publish E = None then Inl Unimplemented
      else Inr ())"

definition publishTo :: "sm_env \<Rightarrow> sm_event \<Rightarrow> secrets_state \<Rightarrow> code option \<times> secrets_state" where
  "publishTo E ev s =
     (case env_Publish E of
        None \<Rightarrow> (Some Unknown, s)
      | Some pub \<Rightarrow> (pub (length (ss_sent s)) (ev_Topic ev), s\<lparr>ss_sent := ss_sent s @ [ev]\<rparr>))"

definition topic_event :: "string \<Rightarrow> sm_event" where
  "topic_event t = \<lparr>ev_Topic = t, ev_Type = ''TOPIC_CONFIGURED'', ev_Secret = [], ev_Time = zero_time,
     ev_Version = [], ev_Delete = [], ev_Data = None\<rparr>"

fun topicConfigured :: "sm_env \<Rightarrow> string list \<Rightarrow> unit sm" where
  "topicConfigured E [] = sm_ok ()"
| "topicConfigured E (t # ts) = (\<lambda>s.
     case publishTo E (topic_event t) s of
       (None, s') \<Rightarrow> topicConfigured E ts s'
     | (Some c, s') \<Rightarrow> (Inl (if c \<noteq> OK \<and> c \<noteq> Unknown then c else FailedPrecondition), s'))"

definition secret_event :: "secret \<Rightarrow> string \<Rightarrow> secret_version option \<Rightarrow> string \<Rightarrow> time \<Rightarrow> string \<Rightarrow> sm_event" where
  "secret_event sec event version deleteType now t =
     \<lparr>ev_Topic = t, ev_Type = event, ev_Secret = sc_Name sec, ev_Time = now,
      ev_Version = (case version of None \<Rightarrow> [] | Some v \<Rightarrow> sv_Name v), ev_Delete = deleteType,
      ev_Data = Some (case version of None \<Rightarrow> SSecret sec | Some v \<Rightarrow> SVersion v)\<rparr>"

text \<open>The errors of the publishes are logged, and the change stands.\<close>

definition notify :: "sm_env \<Rightarrow> secret \<Rightarrow> string \<Rightarrow> secret_version option \<Rightarrow> string \<Rightarrow> unit sm" where
  "notify E sec event version deleteType =
     (if sc_Topics sec = [] \<or> env_Publish E = None then sm_ok ()
      else sm_then sm_now (\<lambda>now s.
        (Inr (), fold (\<lambda>t s. snd (publishTo E (secret_event sec event version deleteType now t) s)) (sc_Topics sec) s)))"

section \<open>Reading secrets\<close>

definition deleteSecret :: "string \<Rightarrow> string \<Rightarrow> unit sm" where
  "deleteSecret project i = (\<lambda>s.
     sm_then (sm_delete_all (db_List (ss_db s) (versionsUnder project i))) (\<lambda>_. sm_delete (secretKey project i)) s)"

text \<open>An expired secret is gone: the read that finds it deletes it.\<close>

definition getSecret :: "sm_env \<Rightarrow> string \<Rightarrow> string \<Rightarrow> secret sm" where
  "getSecret E project i = (\<lambda>s.
     case sm_read_secret s (secretKey project i) of
       Inl e \<Rightarrow> (Inl e, s)
     | Inr sec \<Rightarrow>
         sm_then sm_now (\<lambda>now.
           if Expired sec now then
             sm_then (deleteSecret project i) (\<lambda>_.
             sm_then (notify E sec ''SECRET_DELETE'' None ''EXPIRATION'') (\<lambda>_.
             sm_fail NotFound))
           else sm_ok sec) s)"

definition notifyVersion :: "sm_env \<Rightarrow> string \<Rightarrow> string \<Rightarrow> string \<Rightarrow> secret_version \<Rightarrow> unit sm" where
  "notifyVersion E project i event v = (\<lambda>s.
     case getSecret E project i s of
       (Inl _, s') \<Rightarrow> (Inr (), s')
     | (Inr sec, s') \<Rightarrow> notify E sec event (Some v) [] s')"

section \<open>Customer-managed keys\<close>

definition cmekKeyLocation :: "string \<Rightarrow> code + string" where
  "cmekKeyLocation nm =
     (case split_on (CHR ''/'') nm of
        [a, p, b, l, c, r, d, k] \<Rightarrow>
          if a \<noteq> ''projects'' \<or> b \<noteq> ''locations'' \<or> c \<noteq> ''keyRings'' \<or> d \<noteq> ''cryptoKeys'' \<or>
             p = [] \<or> l = [] \<or> r = [] \<or> k = []
          then Inl InvalidArgument else Inr l
      | _ \<Rightarrow> Inl InvalidArgument)"

definition hasKeys :: "string list \<Rightarrow> bool" where
  "hasKeys keys = list_ex (\<lambda>k. k \<noteq> []) keys"

definition normalKeys :: "string list \<Rightarrow> string list" where
  "normalKeys keys = (if hasKeys keys then keys else [])"

definition kms_key_ok :: "string \<Rightarrow> string list \<Rightarrow> nat \<Rightarrow> string \<Rightarrow> bool" where
  "kms_key_ok replication locations j k =
     (case cmekKeyLocation k of
        Inl _ \<Rightarrow> False
      | Inr loc \<Rightarrow> if replication = ''automatic'' then loc = ''global'' else loc = locations ! j)"

definition checkKMSKeys :: "sm_env \<Rightarrow> string \<Rightarrow> string list \<Rightarrow> string list \<Rightarrow> code + unit" where
  "checkKMSKeys E replication locations keys =
     (if list_ex (\<lambda>(j, k). k \<noteq> [] \<and> \<not> kms_key_ok replication locations j k) (enumerate 0 keys)
      then Inl InvalidArgument
      else if hasKeys keys \<and> env_Keys E = None then Inl Unimplemented
      else Inr ())"

definition payloadAEAD :: "string \<Rightarrow> bool" where
  "payloadAEAD dek \<longleftrightarrow> length dek = 32"

definition NonceSize :: nat where
  "NonceSize = 12"

definition sealPayload :: "sm_env \<Rightarrow> string \<Rightarrow> string \<Rightarrow> string \<Rightarrow> string option" where
  "sealPayload E dek plaintext aad =
     (if payloadAEAD dek then Some (env_nonce E @ env_Seal E dek (env_nonce E) plaintext aad) else None)"

definition openPayload :: "sm_env \<Rightarrow> string \<Rightarrow> string \<Rightarrow> string \<Rightarrow> string option" where
  "openPayload E dek sealed aad =
     (if \<not> payloadAEAD dek then None
      else if length sealed < NonceSize then None
      else env_Open E dek (take NonceSize sealed) (drop NonceSize sealed) aad)"

definition new_replica :: "string \<Rightarrow> replica_status" where
  "new_replica l = \<lparr>rs_Location = l, rs_KMSKey = [], rs_KeyVersion = [], rs_WrappedKey = []\<rparr>"

text \<open>The loop over the replicas: the data key in each, wrapped where the replica has a key.\<close>

fun wrap_replicas :: "key_service \<Rightarrow> string \<Rightarrow> string \<Rightarrow> string list \<Rightarrow> nat \<Rightarrow> replica_status list \<Rightarrow>
    code + replica_status list" where
  "wrap_replicas K dek aad keys j [] = Inr []"
| "wrap_replicas K dek aad keys j (r # rs) =
     (if j \<ge> length keys \<or> keys ! j = [] then
        map_sum id (Cons (r\<lparr>rs_WrappedKey := dek\<rparr>)) (wrap_replicas K dek aad keys (Suc j) rs)
      else case ks_Encrypt K j (keys ! j) dek aad of
             None \<Rightarrow> Inl FailedPrecondition
           | Some (nm, ct) \<Rightarrow>
               map_sum id (Cons (r\<lparr>rs_KMSKey := keys ! j, rs_KeyVersion := nm, rs_WrappedKey := ct\<rparr>))
                 (wrap_replicas K dek aad keys (Suc j) rs))"

definition sealVersion :: "sm_env \<Rightarrow> secret \<Rightarrow> secret_version \<Rightarrow> string \<Rightarrow> code + secret_version" where
  "sealVersion E sec v payload =
     (let locations = (if sc_Replication sec \<noteq> ''user-managed'' then [[]] else sc_ReplicaLocations sec);
          replicas = map new_replica locations in
      if \<not> hasKeys (sc_KMSKeys sec) then Inr (v\<lparr>sv_Replicas := replicas, sv_Payload := payload\<rparr>)
      else case env_Keys E of
        None \<Rightarrow> Inl Unimplemented
      | Some K \<Rightarrow>
          (case sealPayload E (env_dek E) payload (sv_Name v) of
             None \<Rightarrow> Inl Internal
           | Some sealed \<Rightarrow>
               (case wrap_replicas K (env_dek E) (sv_Name v) (sc_KMSKeys sec) 0 replicas of
                  Inl e \<Rightarrow> Inl e
                | Inr rs \<Rightarrow> Inr (v\<lparr>sv_Replicas := rs, sv_Payload := sealed,
                                   sv_PayloadSize := int (length payload)\<rparr>))))"

text \<open>The data key as the last replica with a key gives it; every such replica must give one.\<close>

fun unwrap_replicas :: "key_service \<Rightarrow> string \<Rightarrow> string \<Rightarrow> replica_status list \<Rightarrow> code + string" where
  "unwrap_replicas K aad dek [] = Inr dek"
| "unwrap_replicas K aad dek (r # rs) =
     (if rs_KMSKey r = [] then unwrap_replicas K aad dek rs
      else case ks_Decrypt K (rs_KMSKey r) (rs_WrappedKey r) aad of
             None \<Rightarrow> Inl FailedPrecondition
           | Some pt \<Rightarrow> unwrap_replicas K aad pt rs)"

definition openVersion :: "sm_env \<Rightarrow> secret_version \<Rightarrow> code + secret_version" where
  "openVersion E v =
     (if \<not> encrypted v then Inr v
      else case env_Keys E of
        None \<Rightarrow> Inl Unimplemented
      | Some K \<Rightarrow>
          (case unwrap_replicas K (sv_Name v) [] (sv_Replicas v) of
             Inl e \<Rightarrow> Inl e
           | Inr dek \<Rightarrow>
               (case openPayload E dek (sv_Payload v) (sv_Name v) of
                  None \<Rightarrow> Inl Internal
                | Some pt \<Rightarrow> Inr (v\<lparr>sv_Payload := pt\<rparr>))))"

definition replica_count :: "string \<Rightarrow> string list \<Rightarrow> nat" where
  "replica_count replication locations = (if replication = ''user-managed'' then length locations else 1)"

definition SetReplicationKeys :: "sm_env \<Rightarrow> string \<Rightarrow> string \<Rightarrow> string list \<Rightarrow> secret sm" where
  "SetReplicationKeys E project i keys =
     sm_then (getSecret E project i) (\<lambda>sec.
     sm_then (sm_require (length keys = replica_count (sc_Replication sec) (sc_ReplicaLocations sec)) InvalidArgument) (\<lambda>_.
     sm_then (sm_lift (checkKMSKeys E (sc_Replication sec) (sc_ReplicaLocations sec) keys)) (\<lambda>_.
     sm_then (sm_etag E) (\<lambda>etag.
     let sec = sec\<lparr>sc_KMSKeys := normalKeys keys, sc_Etag := etag\<rparr> in
     sm_then (sm_put (secretKey project i) (SSecret sec)) (\<lambda>_.
     sm_then (notify E sec ''SECRET_UPDATE'' None []) (\<lambda>_.
     sm_ok sec))))))"

section \<open>Secrets\<close>

text \<open>The arguments of \<open>CreateSecretEncrypted\<close>; \<open>cr_Keys\<close> is \<open>None\<close> for nil.\<close>

record create_args =
  cr_Labels :: "string gomap"
  cr_Annotations :: "string gomap"
  cr_Expire :: time
  cr_Topics :: "string list"
  cr_Schedule :: schedule
  cr_Keys :: "string list option"
  cr_Replication :: string
  cr_Locations :: "string list"

definition replication_or_default :: "create_args \<Rightarrow> string" where
  "replication_or_default a = (if cr_Replication a = [] then ''automatic'' else cr_Replication a)"

definition check_replication :: "create_args \<Rightarrow> code + unit" where
  "check_replication a =
     (let replication = replication_or_default a; locations = cr_Locations a in
      if replication = ''automatic'' then (if locations \<noteq> [] then Inl InvalidArgument else Inr ())
      else if replication = ''user-managed'' then
        (if locations = [] \<or> list_ex (\<lambda>l. l = []) locations then Inl InvalidArgument else Inr ())
      else Inl InvalidArgument)"

definition check_key_count :: "create_args \<Rightarrow> code + unit" where
  "check_key_count a =
     (case cr_Keys a of
        None \<Rightarrow> Inr ()
      | Some keys \<Rightarrow>
          if length keys \<noteq> replica_count (replication_or_default a) (cr_Locations a) then Inl InvalidArgument else Inr ())"

definition keys_of :: "create_args \<Rightarrow> string list" where
  "keys_of a = (case cr_Keys a of None \<Rightarrow> [] | Some keys \<Rightarrow> keys)"

definition new_secret :: "string \<Rightarrow> string \<Rightarrow> create_args \<Rightarrow> time \<Rightarrow> string \<Rightarrow> secret" where
  "new_secret project i a now etag =
     \<lparr>sc_Name = SecretName project i, sc_Created = now, sc_Labels = cr_Labels a,
      sc_Annotations = cr_Annotations a, sc_Replication = replication_or_default a,
      sc_ReplicaLocations = cr_Locations a, sc_KMSKeys = normalKeys (keys_of a), sc_NextVersion = 1,
      sc_Etag = etag, sc_IAMPolicy = None, sc_Expire = cr_Expire a, sc_Topics = cr_Topics a,
      sc_NextRotation = sch_NextRotation (cr_Schedule a), sc_RotationPeriod = sch_RotationPeriod (cr_Schedule a),
      sc_VersionDestroyTTL = sch_VersionDestroyTTL (cr_Schedule a), sc_ScheduledDestroys = []\<rparr>"

definition CreateSecretEncrypted :: "sm_env \<Rightarrow> string \<Rightarrow> string \<Rightarrow> create_args \<Rightarrow> secret sm" where
  "CreateSecretEncrypted E project i a =
     sm_then sm_now (\<lambda>now.
     sm_then (sm_lift (schedule_check (cr_Schedule a) now True True)) (\<lambda>_.
     sm_then (sm_require (\<not> (sch_NextRotation (cr_Schedule a) \<noteq> zero_time \<and> cr_Topics a = [])) InvalidArgument) (\<lambda>_.
     sm_then (if cr_Expire a = zero_time then sm_ok ()
              else sm_then sm_now (\<lambda>now. sm_require (cr_Expire a > now) InvalidArgument)) (\<lambda>_.
     sm_then (sm_require (project \<noteq> []) InvalidArgument) (\<lambda>_.
     sm_then (sm_lift (ValidateSecretID i)) (\<lambda>_.
     sm_then (sm_lift (check_replication a)) (\<lambda>_.
     sm_then (sm_lift (check_key_count a)) (\<lambda>_.
     sm_then (sm_lift (checkKMSKeys E (replication_or_default a) (cr_Locations a) (keys_of a))) (\<lambda>_.
     sm_then (sm_lift (validateTopics E (cr_Topics a))) (\<lambda>_.
     sm_then (\<lambda>s. case getSecret E project i s of
                     (Inr _, s') \<Rightarrow> (Inl AlreadyExists, s') | (Inl _, s') \<Rightarrow> (Inr (), s')) (\<lambda>_.
     sm_then (topicConfigured E (cr_Topics a)) (\<lambda>_.
     sm_then sm_now (\<lambda>created.
     sm_then (sm_etag E) (\<lambda>etag.
     let sec = new_secret project i a created etag in
     sm_then (sm_put (secretKey project i) (SSecret sec)) (\<lambda>_.
     sm_then (notify E sec ''SECRET_CREATE'' None []) (\<lambda>_.
     sm_ok sec))))))))))))))))"

text \<open>The shorter forms; each leaves the rest at its zero value.\<close>

definition CreateSecretScheduled :: "sm_env \<Rightarrow> string \<Rightarrow> string \<Rightarrow> string gomap \<Rightarrow> string gomap \<Rightarrow> time \<Rightarrow> string list \<Rightarrow>
    schedule \<Rightarrow> string \<Rightarrow> string list \<Rightarrow> secret sm" where
  "CreateSecretScheduled E project i labels annotations expire topics sch replication locations =
     CreateSecretEncrypted E project i
       \<lparr>cr_Labels = labels, cr_Annotations = annotations, cr_Expire = expire, cr_Topics = topics, cr_Schedule = sch,
        cr_Keys = None, cr_Replication = replication, cr_Locations = locations\<rparr>"

definition CreateSecretWithTopics :: "sm_env \<Rightarrow> string \<Rightarrow> string \<Rightarrow> string gomap \<Rightarrow> string gomap \<Rightarrow> time \<Rightarrow> string list \<Rightarrow>
    string \<Rightarrow> string list \<Rightarrow> secret sm" where
  "CreateSecretWithTopics E project i labels annotations expire topics replication locations =
     CreateSecretScheduled E project i labels annotations expire topics no_schedule replication locations"

definition CreateSecretExpiring :: "sm_env \<Rightarrow> string \<Rightarrow> string \<Rightarrow> string gomap \<Rightarrow> string gomap \<Rightarrow> time \<Rightarrow>
    string \<Rightarrow> string list \<Rightarrow> secret sm" where
  "CreateSecretExpiring E project i labels annotations expire replication locations =
     CreateSecretWithTopics E project i labels annotations expire [] replication locations"

definition CreateSecret :: "sm_env \<Rightarrow> string \<Rightarrow> string \<Rightarrow> string gomap \<Rightarrow> string gomap \<Rightarrow> string \<Rightarrow> string list \<Rightarrow> secret sm" where
  "CreateSecret E project i labels annotations replication locations =
     CreateSecretExpiring E project i labels annotations zero_time replication locations"

definition GetSecret :: "sm_env \<Rightarrow> string \<Rightarrow> string \<Rightarrow> secret sm" where
  "GetSecret E project i = getSecret E project i"

record secret_update =
  su_Labels :: "string gomap"
  su_Annotations :: "string gomap"
  su_UpdateLabels :: bool
  su_UpdateAnnotations :: bool
  su_Expire :: time
  su_UpdateExpire :: bool
  su_Topics :: "string list"
  su_UpdateTopics :: bool
  su_Schedule :: schedule
  su_UpdateNextRotation :: bool
  su_UpdateRotationPeriod :: bool
  su_UpdateVersionDestroyTTL :: bool

definition next_rotation :: "secret_update \<Rightarrow> secret \<Rightarrow> time" where
  "next_rotation u sec = (if su_UpdateNextRotation u then sch_NextRotation (su_Schedule u) else sc_NextRotation sec)"

definition next_period :: "secret_update \<Rightarrow> secret \<Rightarrow> duration" where
  "next_period u sec = (if su_UpdateRotationPeriod u then sch_RotationPeriod (su_Schedule u) else sc_RotationPeriod sec)"

definition next_topics :: "secret_update \<Rightarrow> secret \<Rightarrow> string list" where
  "next_topics u sec = (if su_UpdateTopics u then su_Topics u else sc_Topics sec)"

definition updated_secret :: "secret_update \<Rightarrow> string \<Rightarrow> secret \<Rightarrow> secret" where
  "updated_secret u etag sec =
     (let rotates = su_UpdateNextRotation u \<or> su_UpdateRotationPeriod u in
      sec\<lparr>sc_Topics := next_topics u sec,
          sc_Expire := (if su_UpdateExpire u then su_Expire u else sc_Expire sec),
          sc_NextRotation := (if rotates then next_rotation u sec else sc_NextRotation sec),
          sc_RotationPeriod := (if rotates then next_period u sec else sc_RotationPeriod sec),
          sc_VersionDestroyTTL := (if su_UpdateVersionDestroyTTL u then sch_VersionDestroyTTL (su_Schedule u)
                                   else sc_VersionDestroyTTL sec),
          sc_Labels := (if su_UpdateLabels u then su_Labels u else sc_Labels sec),
          sc_Annotations := (if su_UpdateAnnotations u then su_Annotations u else sc_Annotations sec),
          sc_Etag := etag\<rparr>)"

definition UpdateSecretFields :: "sm_env \<Rightarrow> string \<Rightarrow> string \<Rightarrow> secret_update \<Rightarrow> secret sm" where
  "UpdateSecretFields E project i u =
     sm_then (if su_UpdateExpire u \<and> su_Expire u \<noteq> zero_time
              then sm_then sm_now (\<lambda>now. sm_require (su_Expire u > now) InvalidArgument) else sm_ok ()) (\<lambda>_.
     sm_then sm_now (\<lambda>now.
     sm_then (sm_lift (schedule_check (su_Schedule u) now (su_UpdateNextRotation u) (su_UpdateVersionDestroyTTL u))) (\<lambda>_.
     sm_then (getSecret E project i) (\<lambda>sec.
     sm_then (sm_require (\<not> (next_period u sec > 0 \<and> next_rotation u sec = zero_time)) InvalidArgument) (\<lambda>_.
     sm_then (sm_require (\<not> (next_rotation u sec \<noteq> zero_time \<and> next_topics u sec = [])) InvalidArgument) (\<lambda>_.
     sm_then (if su_UpdateTopics u
              then sm_then (sm_lift (validateTopics E (su_Topics u))) (\<lambda>_. topicConfigured E (su_Topics u))
              else sm_ok ()) (\<lambda>_.
     sm_then (sm_etag E) (\<lambda>etag.
     let sec = updated_secret u etag sec in
     sm_then (sm_put (secretKey project i) (SSecret sec)) (\<lambda>_.
     sm_then (notify E sec ''SECRET_UPDATE'' None []) (\<lambda>_.
     sm_ok sec))))))))))"

definition UpdateSecret :: "sm_env \<Rightarrow> string \<Rightarrow> string \<Rightarrow> string gomap \<Rightarrow> string gomap \<Rightarrow> bool \<Rightarrow> bool \<Rightarrow> secret sm" where
  "UpdateSecret E project i labels annotations updateLabels updateAnnotations =
     UpdateSecretFields E project i
       \<lparr>su_Labels = labels, su_Annotations = annotations, su_UpdateLabels = updateLabels,
        su_UpdateAnnotations = updateAnnotations, su_Expire = zero_time, su_UpdateExpire = False,
        su_Topics = [], su_UpdateTopics = False, su_Schedule = no_schedule, su_UpdateNextRotation = False,
        su_UpdateRotationPeriod = False, su_UpdateVersionDestroyTTL = False\<rparr>"

definition secret_GetIamPolicy :: "sm_env \<Rightarrow> string \<Rightarrow> string \<Rightarrow> stored_policy option sm" where
  "secret_GetIamPolicy E project i = sm_then (getSecret E project i) (\<lambda>sec. sm_ok (sc_IAMPolicy sec))"

definition secret_SetIamPolicy :: "sm_env \<Rightarrow> string \<Rightarrow> string \<Rightarrow> set_policy_req \<Rightarrow> stored_policy sm" where
  "secret_SetIamPolicy E project i req =
     sm_then (getSecret E project i) (\<lambda>sec.
     sm_then (sm_lift (iam_Set (env_LogType E) (env_policy_etag E) (sc_IAMPolicy sec) req)) (\<lambda>next.
     sm_then (sm_put (secretKey project i) (SSecret (sec\<lparr>sc_IAMPolicy := Some next\<rparr>))) (\<lambda>_.
     sm_ok next)))"

text \<open>The loop of \<open>ListSecrets\<close>: an expired secret is deleted on the way and left out.\<close>

fun list_live :: "secret list \<Rightarrow> secret list sm" where
  "list_live [] = sm_ok []"
| "list_live (sec # rest) =
     sm_then sm_now (\<lambda>now.
       if Expired sec now then
         sm_then (deleteSecret (fst (secretParts (sc_Name sec))) (snd (secretParts (sc_Name sec)))) (\<lambda>_. list_live rest)
       else sm_then (list_live rest) (\<lambda>out. sm_ok (sec # out)))"

definition ListSecrets :: "string \<Rightarrow> secret list sm" where
  "ListSecrets project =
     sm_then (sm_require (project \<noteq> []) InvalidArgument) (\<lambda>_ s.
     sm_then (list_live (scan_secrets s (''secret/'' @ project @ ''/''))) (\<lambda>out. sm_ok (sort_key sc_Name out)) s)"

fun list_regional :: "string \<Rightarrow> secret list \<Rightarrow> secret list sm" where
  "list_regional project [] = sm_ok []"
| "list_regional project (sec # rest) =
     sm_then sm_now (\<lambda>now.
       let (p, l) = SplitScope (scopeOfName (sc_Name sec)) in
       if Expired sec now \<or> p \<noteq> project \<or> l = [] then list_regional project rest
       else sm_then (list_regional project rest) (\<lambda>out. sm_ok (sec # out)))"

definition ListRegionalSecrets :: "string \<Rightarrow> secret list sm" where
  "ListRegionalSecrets project =
     sm_then (sm_require (project \<noteq> []) InvalidArgument) (\<lambda>_ s.
     sm_then (list_regional project (scan_secrets s (''secret/'' @ project @ ''@''))) (\<lambda>out. sm_ok (sort_key sc_Name out)) s)"

definition DeleteSecret :: "sm_env \<Rightarrow> string \<Rightarrow> string \<Rightarrow> unit sm" where
  "DeleteSecret E project i =
     sm_then (getSecret E project i) (\<lambda>sec.
     sm_then (deleteSecret project i) (\<lambda>_.
     notify E sec ''SECRET_DELETE'' None ''REQUESTED''))"

section \<open>Versions\<close>

definition MaxPayloadBytes :: nat where
  "MaxPayloadBytes = 64 * 1024"

definition new_version :: "string \<Rightarrow> string \<Rightarrow> int \<Rightarrow> time \<Rightarrow> string \<Rightarrow> bool \<Rightarrow> secret_version" where
  "new_version project i number now etag clientChecksum =
     \<lparr>sv_Name = VersionName project i number, sv_Number = number, sv_State = VersionEnabled,
      sv_Created = now, sv_Destroyed = zero_time, sv_ScheduledDestroy = zero_time, sv_Payload = [],
      sv_PayloadSize = 0, sv_Etag = etag, sv_Replicas = [], sv_ClientChecksum = clientChecksum\<rparr>"

definition addVersion :: "sm_env \<Rightarrow> string \<Rightarrow> string \<Rightarrow> string \<Rightarrow> bool \<Rightarrow> secret_version sm" where
  "addVersion E project i payload clientChecksum =
     sm_then (sm_require (payload \<noteq> []) InvalidArgument) (\<lambda>_.
     sm_then (sm_require (length payload \<le> MaxPayloadBytes) InvalidArgument) (\<lambda>_.
     sm_then (getSecret E project i) (\<lambda>sec.
     let number = sc_NextVersion sec in
     sm_then sm_now (\<lambda>now.
     sm_then (sm_etag E) (\<lambda>etag.
     sm_then (sm_lift (sealVersion E sec (new_version project i number now etag clientChecksum) payload)) (\<lambda>v.
     sm_then (sm_etag E) (\<lambda>etag.
     let sec = sec\<lparr>sc_NextVersion := number + 1, sc_Etag := etag\<rparr> in
     sm_then (sm_put (secretKey project i) (SSecret sec)) (\<lambda>_.
     sm_then (sm_put (versionKey project i number) (SVersion v)) (\<lambda>_.
     sm_then (notify E sec ''SECRET_VERSION_ADD'' (Some v) []) (\<lambda>_.
     sm_ok v))))))))))"

definition AddVersion :: "sm_env \<Rightarrow> string \<Rightarrow> string \<Rightarrow> string \<Rightarrow> secret_version sm" where
  "AddVersion E project i payload = addVersion E project i payload False"

definition AddVersionWithChecksum :: "sm_env \<Rightarrow> string \<Rightarrow> string \<Rightarrow> string \<Rightarrow> secret_version sm" where
  "AddVersionWithChecksum E project i payload = addVersion E project i payload True"

definition listVersions :: "string \<Rightarrow> string \<Rightarrow> secret_version list sm" where
  "listVersions project i = (\<lambda>s. (Inr (scan_versions s (versionsUnder project i)), s))"

text \<open>The most recently created version: the one with the highest number.\<close>

definition best_version :: "secret_version list \<Rightarrow> secret_version" where
  "best_version vs = fold (\<lambda>v best. if sv_Number v > sv_Number best then v else best) vs (hd vs)"

definition resolveVersion :: "sm_env \<Rightarrow> string \<Rightarrow> string \<Rightarrow> string \<Rightarrow> int sm" where
  "resolveVersion E project i version =
     sm_then (getSecret E project i) (\<lambda>_.
       if version \<noteq> LatestAlias then
         (case Atoi version of
            None \<Rightarrow> sm_fail InvalidArgument
          | Some n \<Rightarrow> if n < 1 then sm_fail InvalidArgument else sm_ok n)
       else
         sm_then (listVersions project i) (\<lambda>versions.
         if versions = [] then sm_fail NotFound else sm_ok (sv_Number (best_version versions))))"

definition ResolveVersion :: "sm_env \<Rightarrow> string \<Rightarrow> string \<Rightarrow> string \<Rightarrow> int sm" where
  "ResolveVersion E project i version = resolveVersion E project i version"

definition getVersion :: "string \<Rightarrow> string \<Rightarrow> int \<Rightarrow> secret_version sm" where
  "getVersion project i number = (\<lambda>s. (sm_read_version s (versionKey project i number), s))"

definition GetVersion :: "sm_env \<Rightarrow> string \<Rightarrow> string \<Rightarrow> string \<Rightarrow> secret_version sm" where
  "GetVersion E project i version =
     sm_then (resolveVersion E project i version) (\<lambda>number. getVersion project i number)"

definition AccessVersion :: "sm_env \<Rightarrow> string \<Rightarrow> string \<Rightarrow> string \<Rightarrow> secret_version sm" where
  "AccessVersion E project i version =
     sm_then (resolveVersion E project i version) (\<lambda>number.
     sm_then (getVersion project i number) (\<lambda>v.
     sm_then (sm_require (Accessible v) FailedPrecondition) (\<lambda>_.
     sm_lift (openVersion E v))))"

definition ListVersions :: "sm_env \<Rightarrow> string \<Rightarrow> string \<Rightarrow> secret_version list sm" where
  "ListVersions E project i =
     sm_then (getSecret E project i) (\<lambda>_.
     sm_then (listVersions project i) (\<lambda>versions.
     sm_ok (sort_key (\<lambda>v. - sv_Number v) versions)))"

section \<open>States and destruction\<close>

text \<open>\<open>delete\<close> from the map of scheduled destructions, which is nil when it is empty.\<close>

definition unschedule :: "sm_env \<Rightarrow> string \<Rightarrow> string \<Rightarrow> int \<Rightarrow> unit sm" where
  "unschedule E project i number =
     sm_then (getSecret E project i) (\<lambda>sec.
     sm_put (secretKey project i)
       (SSecret (sec\<lparr>sc_ScheduledDestroys := AList.delete (int_dec number) (sc_ScheduledDestroys sec)\<rparr>)))"

definition SetVersionState :: "sm_env \<Rightarrow> string \<Rightarrow> string \<Rightarrow> string \<Rightarrow> version_state \<Rightarrow> secret_version sm" where
  "SetVersionState E project i version state =
     sm_then (sm_require (state = VersionEnabled \<or> state = VersionDisabled) InvalidArgument) (\<lambda>_.
     sm_then (resolveVersion E project i version) (\<lambda>number.
     sm_then (getVersion project i number) (\<lambda>v.
     sm_then (sm_require (sv_State v \<noteq> VersionDestroyed) FailedPrecondition) (\<lambda>_.
     sm_then (sm_etag E) (\<lambda>etag.
     let cancelled = (sv_ScheduledDestroy v \<noteq> zero_time);
         v = v\<lparr>sv_State := state, sv_Etag := etag, sv_ScheduledDestroy := zero_time\<rparr> in
     sm_then (sm_put (versionKey project i number) (SVersion v)) (\<lambda>_.
     sm_then (if cancelled then unschedule E project i number else sm_ok ()) (\<lambda>_.
     sm_then (notifyVersion E project i
       (if state = VersionDisabled then ''SECRET_VERSION_DISABLE'' else ''SECRET_VERSION_ENABLE'') v) (\<lambda>_.
     sm_ok v))))))))"

definition scheduleDestroy :: "sm_env \<Rightarrow> secret \<Rightarrow> secret_version \<Rightarrow> secret_version sm" where
  "scheduleDestroy E sec v =
     (let (project, i) = secretParts (sc_Name sec) in
      sm_then sm_now (\<lambda>now.
      let due_at = now + sc_VersionDestroyTTL sec in
      sm_then (sm_etag E) (\<lambda>etag.
      let v = v\<lparr>sv_State := VersionDisabled, sv_ScheduledDestroy := due_at, sv_Etag := etag\<rparr> in
      sm_then (sm_put (versionKey project i (sv_Number v)) (SVersion v)) (\<lambda>_.
      let sec = sec\<lparr>sc_ScheduledDestroys := AList.update (int_dec (sv_Number v)) due_at (sc_ScheduledDestroys sec)\<rparr> in
      sm_then (sm_put (secretKey project i) (SSecret sec)) (\<lambda>_.
      sm_then (notify E sec ''SECRET_VERSION_DESTROY_SCHEDULED'' (Some v) []) (\<lambda>_.
      sm_ok v))))))"

definition destroyed_version :: "secret_version \<Rightarrow> time \<Rightarrow> string \<Rightarrow> secret_version" where
  "destroyed_version v now etag =
     v\<lparr>sv_State := VersionDestroyed, sv_ScheduledDestroy := zero_time, sv_Destroyed := now,
       sv_Payload := [], sv_PayloadSize := 0,
       sv_Replicas := map (\<lambda>r. r\<lparr>rs_WrappedKey := []\<rparr>) (sv_Replicas v), sv_Etag := etag\<rparr>"

definition destroyNowQuiet :: "sm_env \<Rightarrow> string \<Rightarrow> string \<Rightarrow> secret_version \<Rightarrow> secret_version sm" where
  "destroyNowQuiet E project i v =
     sm_then sm_now (\<lambda>now.
     sm_then (sm_etag E) (\<lambda>etag.
     let v = destroyed_version v now etag in
     sm_then (sm_put (versionKey project i (sv_Number v)) (SVersion v)) (\<lambda>_.
     sm_ok v)))"

definition destroyNow :: "sm_env \<Rightarrow> string \<Rightarrow> string \<Rightarrow> secret_version \<Rightarrow> secret_version sm" where
  "destroyNow E project i v =
     sm_then (destroyNowQuiet E project i v) (\<lambda>v.
     sm_then (notifyVersion E project i ''SECRET_VERSION_DESTROY'' v) (\<lambda>_.
     sm_ok v))"

definition DestroyVersion :: "sm_env \<Rightarrow> string \<Rightarrow> string \<Rightarrow> string \<Rightarrow> secret_version sm" where
  "DestroyVersion E project i version =
     sm_then (resolveVersion E project i version) (\<lambda>number.
     sm_then (getVersion project i number) (\<lambda>v.
     sm_then (sm_require (sv_State v \<noteq> VersionDestroyed) FailedPrecondition) (\<lambda>_.
     sm_then (sm_require (sv_ScheduledDestroy v = zero_time) FailedPrecondition) (\<lambda>_.
     sm_then (getSecret E project i) (\<lambda>sec.
     if sc_VersionDestroyTTL sec > 0 then scheduleDestroy E sec v else destroyNow E project i v)))))"

section \<open>The sweep\<close>

text \<open>The loop that moves a missed rotation past the present.\<close>

function rotate_past :: "time \<Rightarrow> duration \<Rightarrow> time \<Rightarrow> time" where
  "rotate_past next period now =
     (if period > 0 \<and> \<not> next > now then rotate_past (next + period) period now else next)"
  by pat_completeness auto
termination
  by (relation "measure (\<lambda>(next, period, now). nat (now - next + 1))") auto

declare rotate_past.simps [simp del]

definition soonest :: "time \<Rightarrow> time \<Rightarrow> time" where
  "soonest next t = (if t \<noteq> zero_time \<and> (next = zero_time \<or> t < next) then t else next)"

text \<open>The loop over the scheduled destructions: the secret, the next time and whether it changed.\<close>

fun due_versions :: "sm_env \<Rightarrow> string \<Rightarrow> string \<Rightarrow> time \<Rightarrow> string list \<Rightarrow> secret \<times> time \<times> bool \<Rightarrow>
    (secret \<times> time \<times> bool) sm" where
  "due_versions E project i now [] acc = sm_ok acc"
| "due_versions E project i now (n # ns) (sec, next, changed) =
     (let due_at = (case map_of (sc_ScheduledDestroys sec) n of Some t \<Rightarrow> t | None \<Rightarrow> zero_time) in
      if now < due_at then due_versions E project i now ns (sec, soonest next due_at, changed)
      else
        let sec = sec\<lparr>sc_ScheduledDestroys := AList.delete n (sc_ScheduledDestroys sec)\<rparr>;
            number = (case Atoi n of Some k \<Rightarrow> k | None \<Rightarrow> 0) in
        (\<lambda>s. case sm_read_version s (versionKey project i number) of
               Inl _ \<Rightarrow> due_versions E project i now ns (sec, next, True) s
             | Inr v \<Rightarrow>
                 if sv_ScheduledDestroy v = zero_time \<or> sv_State v = VersionDestroyed
                 then due_versions E project i now ns (sec, next, True) s
                 else
                   sm_then (destroyNowQuiet E project i v) (\<lambda>destroyed.
                   sm_then (notify E sec ''SECRET_VERSION_DESTROY'' (Some destroyed) []) (\<lambda>_.
                   due_versions E project i now ns (sec, next, True))) s))"

definition due :: "sm_env \<Rightarrow> secret \<Rightarrow> time \<Rightarrow> time sm" where
  "due E sec now =
     (let (project, i) = secretParts (sc_Name sec);
          rotates = (sc_NextRotation sec \<noteq> zero_time \<and> \<not> now < sc_NextRotation sec);
          sec' = (if \<not> rotates then sec
                  else if sc_RotationPeriod sec > 0
                  then sec\<lparr>sc_NextRotation := rotate_past (sc_NextRotation sec) (sc_RotationPeriod sec) now\<rparr>
                  else sec\<lparr>sc_NextRotation := zero_time\<rparr>) in
      sm_then (if rotates then notify E sec ''SECRET_ROTATE'' None [] else sm_ok ()) (\<lambda>_.
      sm_then (due_versions E project i now (sort (gokeys (sc_ScheduledDestroys sec)))
        (sec', soonest zero_time (sc_NextRotation sec'), rotates)) (\<lambda>(sec, next, changed).
      sm_then (if changed then sm_put (secretKey project i) (SSecret sec) else sm_ok ()) (\<lambda>_.
      sm_ok next))))"

fun sweep_keys :: "sm_env \<Rightarrow> time \<Rightarrow> string list \<Rightarrow> time \<Rightarrow> time sm" where
  "sweep_keys E now [] next = sm_ok next"
| "sweep_keys E now (k # ks) next = (\<lambda>s.
     case sm_read_secret s k of
       Inl _ \<Rightarrow> sweep_keys E now ks next s
     | Inr sec \<Rightarrow>
         if sc_Expire sec = zero_time \<and> sc_NextRotation sec = zero_time \<and> sc_ScheduledDestroys sec = []
         then sweep_keys E now ks next s
         else if Expired sec now then
           sm_then (deleteSecret (fst (secretParts (sc_Name sec))) (snd (secretParts (sc_Name sec)))) (\<lambda>_.
           sm_then (notify E sec ''SECRET_DELETE'' None ''EXPIRATION'') (\<lambda>_.
           sweep_keys E now ks next)) s
         else
           sm_then (due E sec now) (\<lambda>later.
           sweep_keys E now ks (soonest (soonest next (sc_Expire sec)) later)) s)"

definition Sweep :: "sm_env \<Rightarrow> time sm" where
  "Sweep E = (\<lambda>s.
     let keys = db_List (ss_db s) ''secret/'' in
     sm_then sm_now (\<lambda>now. sweep_keys E now keys zero_time) s)"

text \<open>One turn of \<open>Run\<close>: how long it waits before the next one, \<open>None\<close> for as long as nothing
  wakes it, and the delay of the next retry.\<close>

definition run_turn :: "sm_env \<Rightarrow> duration \<Rightarrow> secrets_state \<Rightarrow> (duration option \<times> duration) \<times> secrets_state" where
  "run_turn E retry s =
     (case Sweep E s of
        (Inl _, s') \<Rightarrow> ((Some retry, if retry * 2 > Minute then Minute else retry * 2), s')
      | (Inr next, s') \<Rightarrow>
          if next \<noteq> zero_time then
            ((Some (time_sub next (shd (ss_clock s') + ss_offset s')), Second), s'\<lparr>ss_clock := stl (ss_clock s')\<rparr>)
          else ((None, Second), s'))"

definition sm_Advance :: "sm_env \<Rightarrow> duration \<Rightarrow> time sm" where
  "sm_Advance E d =
     sm_then (sm_require (\<not> d < 0) InvalidArgument) (\<lambda>_ s.
     case Sweep E (s\<lparr>ss_offset := to_int64 (ss_offset s + d)\<rparr>) of
       (r, s') \<Rightarrow> (case sm_now s' of (now, s'') \<Rightarrow> (case r of Inl e \<Rightarrow> (Inl e, s'') | Inr _ \<Rightarrow> (now, s''))))"

definition sm_Reset :: "unit sm" where
  "sm_Reset =
     sm_then (\<lambda>s. sm_delete_all (db_List (ss_db s) ''secret/'') s) (\<lambda>_ s.
     sm_delete_all (db_List (ss_db s) ''version/'') s)"

section \<open>References from workloads\<close>

definition kube_char :: "char \<Rightarrow> char" where
  "kube_char c = (if is_lower c \<or> is_digit c \<or> c = CHR ''-'' then c else CHR ''-'')"

definition TrimDashes :: "string \<Rightarrow> string" where
  "TrimDashes s = rev (dropWhile (\<lambda>c. c = CHR ''-'') (rev (dropWhile (\<lambda>c. c = CHR ''-'') s)))"

definition KubernetesSecretName :: "sm_env \<Rightarrow> string \<Rightarrow> string \<Rightarrow> string" where
  "KubernetesSecretName E project secret =
     (let digest = take 10 (env_sha256 E (project @ ''/'' @ secret));
          sanitised = TrimDashes (map kube_char (ToLower secret));
          sanitised = (if sanitised = [] then ''secret'' else sanitised) in
      ''cb-secret-'' @ take 200 sanitised @ ''-'' @ digest)"

definition VersionSecretName :: "sm_env \<Rightarrow> string \<Rightarrow> string \<Rightarrow> int \<Rightarrow> string" where
  "VersionSecretName E project secret number = KubernetesSecretName E project secret @ ''-v'' @ int_dec number"

definition VersionKey :: "int \<Rightarrow> string" where
  "VersionKey number = CHR ''v'' # int_dec number"

text \<open>
  The two calls take the mutex one after the other. A version under a customer-managed key needs the
  mount Secret, which only the Kubernetes store has.
\<close>

definition ref_target :: "string \<Rightarrow> string \<Rightarrow> code + (string \<times> string)" where
  "ref_target project secret = (if Contains secret ''/'' then ParseSecretName secret else Inr (project, secret))"

definition ResolveSecretRef :: "sm_env \<Rightarrow> string \<Rightarrow> string \<Rightarrow> string \<Rightarrow> (string \<times> string) sm" where
  "ResolveSecretRef E project secret version =
     sm_then (sm_lift (ref_target project secret)) (\<lambda>(project, i).
     sm_then (sm_require (project \<noteq> []) InvalidArgument) (\<lambda>_.
     sm_then (ResolveVersion E project i (if version = [] then LatestAlias else version)) (\<lambda>number.
     sm_then (GetVersion E project i (int_dec number)) (\<lambda>v.
     sm_then (sm_require (Accessible v) FailedPrecondition) (\<lambda>_.
     sm_then (sm_require (\<not> encrypted v) Unimplemented) (\<lambda>_.
     sm_ok (VersionSecretName E project i number, VersionKey number)))))))"

section \<open>All operations\<close>

text \<open>The exported methods that read or change secrets, as one type, with the state each leaves.\<close>

datatype sm_op =
    OpCreateSecret string string create_args
  | OpGetSecret string string
  | OpUpdateSecretFields string string secret_update
  | OpSetReplicationKeys string string "string list"
  | OpSetIamPolicy string string set_policy_req
  | OpListSecrets string
  | OpListRegionalSecrets string
  | OpDeleteSecret string string
  | OpAddVersion string string string bool
  | OpGetVersion string string string
  | OpAccessVersion string string string
  | OpListVersions string string
  | OpSetVersionState string string string version_state
  | OpDestroyVersion string string string
  | OpResolveSecretRef string string string
  | OpSweep
  | OpAdvance duration
  | OpReset

fun sm_run :: "sm_env \<Rightarrow> sm_op \<Rightarrow> secrets_state \<Rightarrow> secrets_state" where
  "sm_run E (OpCreateSecret p i a) s = snd (CreateSecretEncrypted E p i a s)"
| "sm_run E (OpGetSecret p i) s = snd (GetSecret E p i s)"
| "sm_run E (OpUpdateSecretFields p i u) s = snd (UpdateSecretFields E p i u s)"
| "sm_run E (OpSetReplicationKeys p i ks) s = snd (SetReplicationKeys E p i ks s)"
| "sm_run E (OpSetIamPolicy p i req) s = snd (secret_SetIamPolicy E p i req s)"
| "sm_run E (OpListSecrets p) s = snd (ListSecrets p s)"
| "sm_run E (OpListRegionalSecrets p) s = snd (ListRegionalSecrets p s)"
| "sm_run E (OpDeleteSecret p i) s = snd (DeleteSecret E p i s)"
| "sm_run E (OpAddVersion p i payload c) s = snd (addVersion E p i payload c s)"
| "sm_run E (OpGetVersion p i v) s = snd (GetVersion E p i v s)"
| "sm_run E (OpAccessVersion p i v) s = snd (AccessVersion E p i v s)"
| "sm_run E (OpListVersions p i) s = snd (ListVersions E p i s)"
| "sm_run E (OpSetVersionState p i v st) s = snd (SetVersionState E p i v st s)"
| "sm_run E (OpDestroyVersion p i v) s = snd (DestroyVersion E p i v s)"
| "sm_run E (OpResolveSecretRef p i v) s = snd (ResolveSecretRef E p i v s)"
| "sm_run E OpSweep s = snd (Sweep E s)"
| "sm_run E (OpAdvance d) s = snd (sm_Advance E d s)"
| "sm_run E OpReset s = snd (sm_Reset s)"

text \<open>The callers pass projects and identifiers without a slash: the parts of a parsed name.\<close>

fun op_names_ok :: "sm_op \<Rightarrow> bool" where
  "op_names_ok (OpCreateSecret p i a) \<longleftrightarrow> CHR ''/'' \<notin> set p \<and> CHR ''/'' \<notin> set i"
| "op_names_ok (OpGetSecret p i) \<longleftrightarrow> CHR ''/'' \<notin> set p \<and> CHR ''/'' \<notin> set i"
| "op_names_ok (OpUpdateSecretFields p i u) \<longleftrightarrow> CHR ''/'' \<notin> set p \<and> CHR ''/'' \<notin> set i"
| "op_names_ok (OpSetReplicationKeys p i ks) \<longleftrightarrow> CHR ''/'' \<notin> set p \<and> CHR ''/'' \<notin> set i"
| "op_names_ok (OpSetIamPolicy p i req) \<longleftrightarrow> CHR ''/'' \<notin> set p \<and> CHR ''/'' \<notin> set i"
| "op_names_ok (OpListSecrets p) \<longleftrightarrow> True"
| "op_names_ok (OpListRegionalSecrets p) \<longleftrightarrow> True"
| "op_names_ok (OpDeleteSecret p i) \<longleftrightarrow> CHR ''/'' \<notin> set p \<and> CHR ''/'' \<notin> set i"
| "op_names_ok (OpAddVersion p i payload c) \<longleftrightarrow> CHR ''/'' \<notin> set p \<and> CHR ''/'' \<notin> set i"
| "op_names_ok (OpGetVersion p i v) \<longleftrightarrow> CHR ''/'' \<notin> set p \<and> CHR ''/'' \<notin> set i"
| "op_names_ok (OpAccessVersion p i v) \<longleftrightarrow> CHR ''/'' \<notin> set p \<and> CHR ''/'' \<notin> set i"
| "op_names_ok (OpListVersions p i) \<longleftrightarrow> CHR ''/'' \<notin> set p \<and> CHR ''/'' \<notin> set i"
| "op_names_ok (OpSetVersionState p i v st) \<longleftrightarrow> CHR ''/'' \<notin> set p \<and> CHR ''/'' \<notin> set i"
| "op_names_ok (OpDestroyVersion p i v) \<longleftrightarrow> CHR ''/'' \<notin> set p \<and> CHR ''/'' \<notin> set i"
| "op_names_ok (OpResolveSecretRef p i v) \<longleftrightarrow> CHR ''/'' \<notin> set p"
| "op_names_ok (OpSweep) \<longleftrightarrow> True"
| "op_names_ok (OpAdvance d) \<longleftrightarrow> True"
| "op_names_ok (OpReset) \<longleftrightarrow> True"

end
