(* ===== verification/Secrets_Laws.thy ===== *)
theory Secrets_Laws
  imports Secrets_Store
begin

text \<open>
  What Secret Manager's store keeps: every version belongs to a secret that has handed out its
  number, a destroyed version holds nothing, names and keys agree. The rules \<open>sm_rules\<close> follow an
  operation call by call; each call's rule says what it leaves in the metadata store.
\<close>

section \<open>Keys\<close>

lemma append_sep_eq:
  "c \<notin> set x \<Longrightarrow> c \<notin> set x' \<Longrightarrow> x @ c # y = x' @ c # y' \<longleftrightarrow> x = x' \<and> y = y'"
proof (induction x arbitrary: x')
  case Nil
  then show ?case by (cases x') auto
next
  case (Cons a x)
  then show ?case by (cases x') auto
qed

lemma secretKey_inject:
  "CHR ''/'' \<notin> set p \<Longrightarrow> CHR ''/'' \<notin> set p' \<Longrightarrow>
   secretKey p i = secretKey p' i' \<longleftrightarrow> p = p' \<and> i = i'"
  by (simp add: secretKey_def append_sep_eq)

lemma dec_val_zeros: "dec_val (replicate k (CHR ''0'') @ s) = dec_val s"
proof -
  have "foldl (\<lambda>a c. 10 * a + (of_char c - 48)) 0 (replicate k (CHR ''0'')) = (0::nat)"
    by (induction k) simp_all
  then show ?thesis by (simp add: dec_val_def)
qed

lemma dec_val_pad [simp]: "dec_val (pad_zeros w s) = dec_val s"
  by (simp add: pad_zeros_def dec_val_zeros)

lemma fmt_010d_inject: "0 \<le> m \<Longrightarrow> 0 \<le> n \<Longrightarrow> fmt_010d m = fmt_010d n \<longleftrightarrow> m = n"
  unfolding fmt_010d_def by (metis dec_val_pad dec_val_nat_dec int_nat_eq linorder_not_less)

lemma fmt_010d_no_slash: "0 \<le> n \<Longrightarrow> CHR ''/'' \<notin> set (fmt_010d n)"
  using nat_dec_digits by (fastforce simp: fmt_010d_def pad_zeros_def is_digit_def less_eq_char_def)

lemma versionsUnder_prefix:
  assumes "CHR ''/'' \<notin> set p" "CHR ''/'' \<notin> set i" "CHR ''/'' \<notin> set p'" "CHR ''/'' \<notin> set i'"
  shows "prefix (versionsUnder p i) (versionsUnder p' i' @ z) \<longleftrightarrow> p = p' \<and> i = i'"
  using assms by (auto simp: versionsUnder_def prefix_def append_sep_eq)

lemma versionKey_inject:
  assumes "CHR ''/'' \<notin> set p" "CHR ''/'' \<notin> set i" "CHR ''/'' \<notin> set p'" "CHR ''/'' \<notin> set i'" "0 \<le> m" "0 \<le> n"
  shows "versionKey p i m = versionKey p' i' n \<longleftrightarrow> p = p' \<and> i = i' \<and> m = n"
  using assms by (auto simp: versionKey_def versionsUnder_def append_sep_eq fmt_010d_inject)

lemma secret_key_kinds [simp]:
  "secretKey p i \<noteq> versionKey p' i' n" "versionKey p' i' n \<noteq> secretKey p i"
  "\<not> prefix (versionsUnder p i) (secretKey p' i')"
  by (auto simp: secretKey_def versionKey_def versionsUnder_def)

lemma versionKey_under [simp]: "prefix (versionsUnder p i) (versionKey p i n)"
  by (simp add: versionKey_def)

lemma split_scope_join: "snd (SplitScope p) \<noteq> [] \<Longrightarrow> RegionalScope (fst (SplitScope p)) (snd (SplitScope p)) = p"
proof -
  let ?d = "dropWhile (\<lambda>x. x \<noteq> CHR ''@'') p"
  assume "snd (SplitScope p) \<noteq> []"
  then obtain a r where d: "?d = a # r" by (cases ?d) (auto simp: SplitScope_def Cut_def)
  then have "a = CHR ''@''" by (simp add: dropWhile_eq_Cons_conv)
  then show ?thesis
    using d takeWhile_dropWhile_id [of "\<lambda>x. x \<noteq> CHR ''@''" p] by (simp add: RegionalScope_def SplitScope_def Cut_def)
qed

lemma split_scope_no_slash:
  "CHR ''/'' \<notin> set p \<Longrightarrow> CHR ''/'' \<notin> set (fst (SplitScope p)) \<and> CHR ''/'' \<notin> set (snd (SplitScope p))"
  by (auto simp: SplitScope_def Cut_def dest: set_takeWhileD in_set_dropD set_dropWhileD)

text \<open>A secret's name gives back its scope and identifier.\<close>

lemma split_SecretName:
  assumes "CHR ''/'' \<notin> set p" "CHR ''/'' \<notin> set i"
  shows "split_on (CHR ''/'') (SecretName p i) =
    (if snd (SplitScope p) \<noteq> []
     then [''projects'', fst (SplitScope p), ''locations'', snd (SplitScope p), ''secrets'', i]
     else [''projects'', p, ''secrets'', i])"
proof -
  note s = split_scope_no_slash [OF assms(1)]
  have "SecretName p i = join ''/'' [''projects'', fst (SplitScope p), ''locations'', snd (SplitScope p), ''secrets'', i]"
    if "snd (SplitScope p) \<noteq> []"
    using that by (simp add: SecretName_def secretPrefix_def case_prod_beta)
  moreover have "SecretName p i = join ''/'' [''projects'', p, ''secrets'', i]" if "snd (SplitScope p) = []"
    using that by (simp add: SecretName_def secretPrefix_def case_prod_beta)
  ultimately show ?thesis
    using s assms by (auto simp del: join.simps intro!: split_on_join)
qed

lemma secretParts_SecretName:
  "CHR ''/'' \<notin> set p \<Longrightarrow> CHR ''/'' \<notin> set i \<Longrightarrow> secretParts (SecretName p i) = (p, i)"
  by (simp add: secretParts_def split_SecretName split_scope_join)

section \<open>A store that does not fail\<close>

text \<open>No system call of a durable store fails from now on; a store in memory never does.\<close>

fun db_reliable :: "'v db \<Rightarrow> bool" where
  "db_reliable (MemDB m) = True"
| "db_reliable (DurDB d) = list_all (\<lambda>f. f = None) (dur_faults d)"

lemma reliable_step:
  assumes "db_reliable d" "list_all (\<lambda>x. SafeKey (op_key x)) ops"
  shows "fst (db_Commit d ops) = Inr () \<and> db_reliable (snd (db_Commit d ops))"
proof (cases d)
  case (MemDB m)
  with assms show ?thesis using MemDB_commit [of ops m] by (simp del: db_Commit.simps)
next
  case (DurDB x)
  have c: "checkKeys ops = None" using assms(2) by (simp add: checkKeys_None_iff)
  have f: "next_fault x = None"
    using assms(1) DurDB by (auto simp: next_fault_def split: list.splits)
  have "fst (Durable_Commit x ops) = Inr ()"
    using c f by (simp add: Durable_Commit_def Let_def case_prod_beta flush_result)
  moreover have "db_reliable (DurDB (snd (Durable_Commit x ops)))"
    using c assms(1) DurDB by (cases "dur_faults x") (auto simp: Durable_Commit_def Let_def case_prod_beta split: sum.splits)
  ultimately show ?thesis using DurDB by simp
qed

lemma reliable_commit:
  assumes "db_inv d" "db_reliable d" "list_all (\<lambda>x. SafeKey (op_key x)) ops"
  obtains d' where "db_Commit d ops = (Inr (), d')" "db_inv d'" "db_reliable d'"
    "db_view d' = spec_ops ops (db_view d)"
proof -
  obtain d' where c: "db_Commit d ops = (Inr (), d')" "db_reliable d'"
    using reliable_step [OF assms(2,3)] by (cases "db_Commit d ops") auto
  then show thesis
    using that db.scommit_ok [OF assms(1) c(1)] db.scommit_inv [OF assms(1), of ops] by simp
qed

lemma commit_unsafe:
  "db_inv d \<Longrightarrow> \<not> SafeKey k \<Longrightarrow> db_Commit d [OpPut k v] = (Inl ErrUnsafeKey, d)"
  by (rule db.scommit_unsafe) simp_all

section \<open>The invariant\<close>

abbreviation no_slash :: "string \<Rightarrow> bool" where
  "no_slash s \<equiv> CHR ''/'' \<notin> set s"

abbreviation ss_view :: "secrets_state \<Rightarrow> string \<Rightarrow> sdoc option" where
  "ss_view s \<equiv> db_view (ss_db s)"

definition names_ok :: "string \<Rightarrow> string \<Rightarrow> bool" where
  "names_ok p i \<longleftrightarrow> p \<noteq> [] \<and> no_slash p \<and> no_slash i \<and> ValidateSecretID i = Inr ()"

definition replication_ok :: "secret \<Rightarrow> bool" where
  "replication_ok sec \<longleftrightarrow>
     (sc_Replication sec = ''automatic'' \<and> sc_ReplicaLocations sec = [] \<or>
      sc_Replication sec = ''user-managed'' \<and> sc_ReplicaLocations sec \<noteq> [] \<and> [] \<notin> set (sc_ReplicaLocations sec)) \<and>
     (sc_KMSKeys sec = [] \<or>
      hasKeys (sc_KMSKeys sec) \<and> length (sc_KMSKeys sec) = replica_count (sc_Replication sec) (sc_ReplicaLocations sec))"

definition schedule_ok :: "secret \<Rightarrow> bool" where
  "schedule_ok sec \<longleftrightarrow>
     (sc_NextRotation sec \<noteq> zero_time \<longrightarrow> sc_Topics sec \<noteq> []) \<and>
     (sc_RotationPeriod sec = 0 \<or> MinRotationPeriod \<le> sc_RotationPeriod sec \<and> sc_RotationPeriod sec \<le> MaxRotation) \<and>
     (sc_VersionDestroyTTL sec = 0 \<or>
      MinVersionDestroyTTL \<le> sc_VersionDestroyTTL sec \<and> sc_VersionDestroyTTL sec \<le> MaxVersionDestroyTTL) \<and>
     gomap_ok (sc_ScheduledDestroys sec) \<and>
     (\<forall>k \<in> set (gokeys (sc_ScheduledDestroys sec)). \<exists>n. k = int_dec n \<and> 1 \<le> n \<and> n < sc_NextVersion sec)"

definition secret_ok :: "string \<Rightarrow> string \<Rightarrow> secret \<Rightarrow> bool" where
  "secret_ok p i sec \<longleftrightarrow>
     sc_Name sec = SecretName p i \<and> 1 \<le> sc_NextVersion sec \<and> replication_ok sec \<and> schedule_ok sec"

definition destroyed_ok :: "secret_version \<Rightarrow> bool" where
  "destroyed_ok v \<longleftrightarrow>
     sv_Payload v = [] \<and> sv_PayloadSize v = 0 \<and> sv_ScheduledDestroy v = zero_time \<and>
     list_all (\<lambda>r. rs_WrappedKey r = []) (sv_Replicas v)"

definition version_ok :: "string \<Rightarrow> string \<Rightarrow> secret_version \<Rightarrow> bool" where
  "version_ok p i v \<longleftrightarrow>
     sv_Name v = VersionName p i (sv_Number v) \<and> 1 \<le> sv_Number v \<and>
     (sv_State v = VersionDestroyed \<longrightarrow> destroyed_ok v) \<and>
     (sv_ScheduledDestroy v \<noteq> zero_time \<longrightarrow> sv_State v = VersionDisabled)"

definition view_ok :: "(string \<Rightarrow> sdoc option) \<Rightarrow> bool" where
  "view_ok f \<longleftrightarrow>
     (\<forall>k \<in> dom f. SafeKey k) \<and>
     (\<forall>k sec. f k = Some (SSecret sec) \<longrightarrow> (\<exists>p i. names_ok p i \<and> k = secretKey p i \<and> secret_ok p i sec)) \<and>
     (\<forall>k v. f k = Some (SVersion v) \<longrightarrow>
       (\<exists>p i sec. names_ok p i \<and> k = versionKey p i (sv_Number v) \<and> version_ok p i v \<and>
          f (secretKey p i) = Some (SSecret sec) \<and> sv_Number v < sc_NextVersion sec))"

definition sdb_ok :: "sdoc db \<Rightarrow> bool" where
  "sdb_ok d \<longleftrightarrow> db_inv d \<and> db_reliable d \<and> view_ok (db_view d)"

abbreviation sm_inv :: "secrets_state \<Rightarrow> bool" where
  "sm_inv s \<equiv> sdb_ok (ss_db s)"

text \<open>Between two views no version appears, and a destroyed one stays as it is or goes.\<close>

definition shrinks :: "(string \<Rightarrow> sdoc option) \<Rightarrow> (string \<Rightarrow> sdoc option) \<Rightarrow> bool" where
  "shrinks f g \<longleftrightarrow>
     (\<forall>k. (\<nexists>v. f k = Some (SVersion v)) \<longrightarrow> (\<nexists>v. g k = Some (SVersion v))) \<and>
     (\<forall>k v. f k = Some (SVersion v) \<and> sv_State v = VersionDestroyed \<longrightarrow> (\<nexists>w. g k = Some (SVersion w)) \<or> g k = f k)"

lemma shrinks_refl [simp]: "shrinks f f"
  by (simp add: shrinks_def)

lemma shrinks_trans:
  assumes "shrinks f g" "shrinks g h"
  shows "shrinks f h"
proof -
  have "(\<nexists>w. h k = Some (SVersion w)) \<or> h k = f k" if "f k = Some (SVersion v)" "sv_State v = VersionDestroyed" for k v
  proof (cases "g k = f k")
    case True
    then show ?thesis using that assms(2) unfolding shrinks_def by metis
  next
    case False
    then have "\<nexists>w. g k = Some (SVersion w)" using that assms(1) unfolding shrinks_def by blast
    then show ?thesis using assms(2) by (simp add: shrinks_def)
  qed
  then show ?thesis using assms unfolding shrinks_def by simp
qed

lemma view_secretD:
  assumes "view_ok f" "f (secretKey p i) = Some d" "no_slash p"
  obtains sec where "d = SSecret sec" "names_ok p i" "secret_ok p i sec"
proof (cases d)
  case (SSecret sec)
  with assms obtain p' i' where "names_ok p' i'" "secretKey p i = secretKey p' i'" "secret_ok p' i' sec"
    unfolding view_ok_def by blast
  with SSecret that assms(3) show thesis by (auto simp: secretKey_inject names_ok_def)
next
  case (SVersion v)
  with assms show thesis unfolding view_ok_def by (metis secret_key_kinds(1))
qed

lemma view_versionD:
  assumes "view_ok f" "f (versionKey p i n) = Some d" "no_slash p" "no_slash i" "0 \<le> n"
  obtains v sec where "d = SVersion v" "sv_Number v = n" "names_ok p i" "version_ok p i v"
    "f (secretKey p i) = Some (SSecret sec)" "n < sc_NextVersion sec"
proof (cases d)
  case (SSecret sec)
  with assms show thesis unfolding view_ok_def by (metis secret_key_kinds(2))
next
  case (SVersion v)
  with assms obtain p' i' sec where v: "names_ok p' i'" "versionKey p i n = versionKey p' i' (sv_Number v)"
      "version_ok p' i' v" "f (secretKey p' i') = Some (SSecret sec)" "sv_Number v < sc_NextVersion sec"
    unfolding view_ok_def by blast
  then have "p = p' \<and> i = i' \<and> n = sv_Number v"
    using assms(3-5) by (subst (asm) versionKey_inject) (auto simp: names_ok_def version_ok_def)
  with v SVersion that show thesis by blast
qed

lemma view_ok_put_secret:
  assumes f: "view_ok f" and k: "names_ok p i" "SafeKey (secretKey p i)" and sec: "secret_ok p i sec"
    and mono: "\<And>old. f (secretKey p i) = Some (SSecret old) \<Longrightarrow> sc_NextVersion old \<le> sc_NextVersion sec"
  shows "view_ok (f(secretKey p i \<mapsto> SSecret sec))"
proof -
  let ?g = "f(secretKey p i \<mapsto> SSecret sec)"
  have "\<exists>p' i' sec'. names_ok p' i' \<and> k = versionKey p' i' (sv_Number v) \<and> version_ok p' i' v \<and>
      ?g (secretKey p' i') = Some (SSecret sec') \<and> sv_Number v < sc_NextVersion sec'" if "?g k = Some (SVersion v)" for k v
  proof -
    from that f obtain p' i' old where v: "names_ok p' i'" "k = versionKey p' i' (sv_Number v)" "version_ok p' i' v"
        "f (secretKey p' i') = Some (SSecret old)" "sv_Number v < sc_NextVersion old"
      unfolding view_ok_def by (metis fun_upd_apply option.inject sdoc.distinct(1))
    show ?thesis
    proof (cases "secretKey p' i' = secretKey p i")
      case True
      then have "?g (secretKey p' i') = Some (SSecret sec)" "sv_Number v < sc_NextVersion sec"
        using v mono [of old] by auto
      with v show ?thesis by blast
    next
      case False
      with v show ?thesis by (metis fun_upd_other)
    qed
  qed
  moreover have "\<exists>p' i'. names_ok p' i' \<and> k = secretKey p' i' \<and> secret_ok p' i' x" if "?g k = Some (SSecret x)" for k x
    using that f k sec unfolding view_ok_def by (metis fun_upd_apply option.inject sdoc.inject(1))
  ultimately show ?thesis
    using f k(2) unfolding view_ok_def by auto
qed

lemma view_ok_put_version:
  assumes f: "view_ok f" and k: "names_ok p i" "SafeKey (versionKey p i (sv_Number v))" and v: "version_ok p i v"
    and sec: "f (secretKey p i) = Some (SSecret sec)" "sv_Number v < sc_NextVersion sec"
  shows "view_ok (f(versionKey p i (sv_Number v) \<mapsto> SVersion v))"
proof -
  let ?g = "f(versionKey p i (sv_Number v) \<mapsto> SVersion v)"
  have "\<exists>p' i' sec'. names_ok p' i' \<and> k = versionKey p' i' (sv_Number x) \<and> version_ok p' i' x \<and>
      ?g (secretKey p' i') = Some (SSecret sec') \<and> sv_Number x < sc_NextVersion sec'" if "?g k = Some (SVersion x)" for k x
  proof (cases "k = versionKey p i (sv_Number v)")
    case True
    with that have "x = v" by simp
    with True k v sec show ?thesis by auto
  next
    case False
    with that f show ?thesis unfolding view_ok_def by (metis fun_upd_other secret_key_kinds(2))
  qed
  moreover have "\<exists>p' i'. names_ok p' i' \<and> k = secretKey p' i' \<and> secret_ok p' i' x" if "?g k = Some (SSecret x)" for k x
    using that f unfolding view_ok_def by (metis fun_upd_apply option.inject sdoc.distinct(1))
  ultimately show ?thesis
    using f k(2) unfolding view_ok_def by auto
qed

text \<open>What deleting a secret leaves.\<close>

definition without_secret :: "string \<Rightarrow> string \<Rightarrow> (string \<Rightarrow> sdoc option) \<Rightarrow> string \<Rightarrow> sdoc option" where
  "without_secret p i f = (\<lambda>k. if k = secretKey p i \<or> prefix (versionsUnder p i) k then None else f k)"

lemma shrinks_without [simp]: "shrinks f (without_secret p i f)"
  by (auto simp: shrinks_def without_secret_def)

lemma view_ok_without:
  assumes f: "view_ok f" and "no_slash p" "no_slash i"
  shows "view_ok (without_secret p i f)"
proof -
  let ?g = "without_secret p i f"
  have "\<exists>p' i' sec. names_ok p' i' \<and> k = versionKey p' i' (sv_Number v) \<and> version_ok p' i' v \<and>
      ?g (secretKey p' i') = Some (SSecret sec) \<and> sv_Number v < sc_NextVersion sec" if "?g k = Some (SVersion v)" for k v
  proof -
    from that have "\<not> prefix (versionsUnder p i) k" "f k = Some (SVersion v)"
      by (auto simp: without_secret_def split: if_splits)
    with f obtain p' i' sec where v: "names_ok p' i'" "k = versionKey p' i' (sv_Number v)" "version_ok p' i' v"
        "f (secretKey p' i') = Some (SSecret sec)" "sv_Number v < sc_NextVersion sec" "(p', i') \<noteq> (p, i)"
      unfolding view_ok_def by (metis Pair_inject versionKey_under)
    then have "?g (secretKey p' i') = f (secretKey p' i')"
      using assms(2,3) by (auto simp: without_secret_def secretKey_inject names_ok_def)
    with v show ?thesis by auto
  qed
  moreover have "\<exists>p' i'. names_ok p' i' \<and> k = secretKey p' i' \<and> secret_ok p' i' x" if "?g k = Some (SSecret x)" for k x
    using that f unfolding view_ok_def without_secret_def by (metis option.distinct(1))
  ultimately show ?thesis
    using f unfolding view_ok_def by (auto simp: without_secret_def dom_def)
qed

section \<open>Following an operation\<close>

named_theorems sm_rules \<open>what each call of an operation leaves\<close>

text \<open>What a call on a state makes of its result and the new state.\<close>

definition sm_wp :: "'a sm \<Rightarrow> (code + 'a \<Rightarrow> secrets_state \<Rightarrow> bool) \<Rightarrow> secrets_state \<Rightarrow> bool" where
  "sm_wp m K s \<longleftrightarrow> K (fst (m s)) (snd (m s))"

lemma wp_eq: "m s = (r, s') \<Longrightarrow> sm_wp m K s = K r s'"
  by (simp add: sm_wp_def)

lemma wp_mono: "sm_wp m K s \<Longrightarrow> (\<And>r s'. K r s' \<Longrightarrow> K' r s') \<Longrightarrow> sm_wp m K' s"
  by (simp add: sm_wp_def)

text \<open>The rest of an operation after a call: it goes on with a value and stops at an error.\<close>

definition sm_rest :: "('a \<Rightarrow> 'b sm) \<Rightarrow> (code + 'b \<Rightarrow> secrets_state \<Rightarrow> bool) \<Rightarrow> code + 'a \<Rightarrow> secrets_state \<Rightarrow> bool" where
  "sm_rest f K r s = (case r of Inl e \<Rightarrow> K (Inl e) s | Inr x \<Rightarrow> sm_wp (f x) K s)"

lemma wp_then [sm_rules]: "sm_wp m (sm_rest f K) s \<Longrightarrow> sm_wp (sm_then m f) K s"
  by (cases "m s"; cases "fst (m s)") (auto simp: sm_wp_def sm_then_def sm_rest_def)

lemma rest_intros [sm_rules]:
  "sm_wp (f x) K s \<Longrightarrow> sm_rest f K (Inr x) s"
  "K (Inl e) s \<Longrightarrow> sm_rest f K (Inl e) s"
  by (simp_all add: sm_rest_def)

lemma wp_let [sm_rules]: "sm_wp (f x) K s \<Longrightarrow> sm_wp (Let x f) K s"
  by simp

lemma wp_pure [sm_rules]:
  "K (Inr x) s \<Longrightarrow> sm_wp (sm_ok x) K s"
  "K (Inl e) s \<Longrightarrow> sm_wp (sm_fail e) K s"
  by (simp_all add: sm_wp_def sm_ok_def sm_fail_def)

lemma wp_lift [sm_rules]:
  "(\<And>x. r = Inr x \<Longrightarrow> K (Inr x) s) \<Longrightarrow> (\<And>e. r = Inl e \<Longrightarrow> K (Inl e) s) \<Longrightarrow> sm_wp (sm_lift r) K s"
  by (cases r) (simp_all add: sm_wp_def sm_lift_def)

lemma wp_require [sm_rules]:
  "(b \<Longrightarrow> K (Inr ()) s) \<Longrightarrow> (\<not> b \<Longrightarrow> K (Inl e) s) \<Longrightarrow> sm_wp (sm_require b e) K s"
  by (simp add: sm_wp_def sm_require_def)

lemma wp_now [sm_rules]:
  "K (Inr (shd (ss_clock s) + ss_offset s)) (s\<lparr>ss_clock := stl (ss_clock s)\<rparr>) \<Longrightarrow> sm_wp sm_now K s"
  by (simp add: sm_wp_def sm_now_def)

lemma wp_if [sm_rules]:
  "(b \<Longrightarrow> sm_wp m K s) \<Longrightarrow> (\<not> b \<Longrightarrow> sm_wp m' K s) \<Longrightarrow> sm_wp (if b then m else m') K s"
  by simp

lemma wp_etag [sm_rules]:
  "(\<And>t. K (Inr t) (s\<lparr>ss_clock := stl (ss_clock s)\<rparr>)) \<Longrightarrow> sm_wp (sm_etag E) K s"
  by (simp add: sm_wp_def sm_etag_def sm_then_def sm_now_def sm_ok_def)

text \<open>Publishing changes nothing but the messages and the clock.\<close>

lemma publishTo_db: "ss_db (snd (publishTo E ev s)) = ss_db s"
  by (simp add: publishTo_def split: option.splits)

lemma publish_fold_db:
  "ss_db (fold (\<lambda>t s. snd (publishTo E (f t) s)) ts s) = ss_db s"
  by (induction ts arbitrary: s) (simp_all add: publishTo_db)

lemma wp_notify [sm_rules]:
  "(\<And>s'. ss_db s' = ss_db s \<Longrightarrow> K (Inr ()) s') \<Longrightarrow> sm_wp (notify E sec ev v d) K s"
  by (simp add: sm_wp_def notify_def sm_then_def sm_now_def sm_ok_def publish_fold_db)

lemma topicConfigured_db: "ss_db (snd (topicConfigured E ts s)) = ss_db s"
proof (induction ts arbitrary: s)
  case (Cons t ts)
  then show ?case
    using publishTo_db [of E "topic_event t" s]
    by (cases "publishTo E (topic_event t) s") (auto split: option.splits)
qed (simp add: sm_ok_def)

lemma wp_topicConfigured [sm_rules]:
  "(\<And>s'. ss_db s' = ss_db s \<Longrightarrow> K (Inr ()) s') \<Longrightarrow> (\<And>e s'. ss_db s' = ss_db s \<Longrightarrow> K (Inl e) s') \<Longrightarrow>
   sm_wp (topicConfigured E ts) K s"
  using topicConfigured_db [of E ts s]
  by (cases "topicConfigured E ts s"; cases "fst (topicConfigured E ts s)") (simp_all add: sm_wp_def)

section \<open>Reads and writes\<close>

lemma read_secret_iff:
  "sm_inv s \<Longrightarrow> sm_read_secret s k = Inr x \<longleftrightarrow> ss_view s k = Some (SSecret x)"
  by (auto simp: sm_read_secret_def sdb_ok_def db.sget_eq view_ok_def dom_def split: option.splits sdoc.splits)

lemma read_version_iff:
  "sm_inv s \<Longrightarrow> sm_read_version s k = Inr v \<longleftrightarrow> ss_view s k = Some (SVersion v)"
  by (auto simp: sm_read_version_def sdb_ok_def db.sget_eq view_ok_def dom_def split: option.splits sdoc.splits)

lemma read_secret_Inl:
  assumes "sm_inv s" "no_slash p" "sm_read_secret s (secretKey p i) = Inl e"
  shows "e = NotFound \<and> ss_view s (secretKey p i) = None"
proof (cases "ss_view s (secretKey p i)")
  case None
  with assms show ?thesis
    by (simp add: sm_read_secret_def sdb_ok_def db.sget_eq split: if_splits)
next
  case (Some d)
  with assms(1,2) obtain x where "d = SSecret x" by (metis sdb_ok_def view_secretD)
  with Some have "sm_read_secret s (secretKey p i) = Inr x" using read_secret_iff [OF assms(1)] by simp
  with assms(3) show ?thesis by simp
qed

lemma put_outcome:
  assumes "sm_inv s"
  obtains (ok) d where "sm_put k v s = (Inr (), s\<lparr>ss_db := d\<rparr>)" "db_inv d" "db_reliable d" "SafeKey k"
      "db_view d = (ss_view s)(k \<mapsto> v)" "sdoc_Marshal v = Some v"
  | (failed) "sm_put k v s = (Inl Internal, s)"
proof (cases "sdoc_Marshal v")
  case None
  then show thesis using failed by (simp add: sm_put_def)
next
  case (Some b)
  then have b: "b = v" by (cases v) (auto split: if_splits)
  show thesis
  proof (cases "SafeKey k")
    case True
    then obtain d where "db_Commit (ss_db s) [OpPut k v] = (Inr (), d)" "db_inv d" "db_reliable d"
        "db_view d = (ss_view s)(k \<mapsto> v)"
      using assms reliable_commit [of "ss_db s" "[OpPut k v]"] by (auto simp: sdb_ok_def)
    then show thesis using Some b True ok [of d] by (simp add: sm_put_def db_Put_commit)
  next
    case False
    then show thesis
      using assms Some b failed by (simp add: sdb_ok_def sm_put_def db_Put_commit commit_unsafe)
  qed
qed

lemma wp_put_secret [sm_rules]:
  assumes "sm_inv s" "names_ok p i" "secret_ok p i sec"
    and "\<And>old. ss_view s (secretKey p i) = Some (SSecret old) \<Longrightarrow> sc_NextVersion old \<le> sc_NextVersion sec"
    and "\<And>d. sm_inv (s\<lparr>ss_db := d\<rparr>) \<Longrightarrow> db_view d = (ss_view s)(secretKey p i \<mapsto> SSecret sec) \<Longrightarrow>
      K (Inr ()) (s\<lparr>ss_db := d\<rparr>)"
    and "K (Inl Internal) s"
  shows "sm_wp (sm_put (secretKey p i) (SSecret sec)) K s"
  using assms(1)
proof (cases rule: put_outcome [of s "secretKey p i" "SSecret sec"])
  case (ok d)
  then have "sm_inv (s\<lparr>ss_db := d\<rparr>)"
    using assms(1-4) by (auto simp: sdb_ok_def intro!: view_ok_put_secret)
  then show ?thesis using ok assms(5) by (simp add: wp_eq)
next
  case failed
  then show ?thesis using assms(6) by (simp add: wp_eq)
qed

lemma wp_put_version [sm_rules]:
  assumes "sm_inv s" "names_ok p i" "version_ok p i v" "n = sv_Number v"
    and "\<exists>sec. ss_view s (secretKey p i) = Some (SSecret sec) \<and> n < sc_NextVersion sec"
    and "\<And>d. sm_inv (s\<lparr>ss_db := d\<rparr>) \<Longrightarrow> db_view d = (ss_view s)(versionKey p i n \<mapsto> SVersion v) \<Longrightarrow>
      K (Inr ()) (s\<lparr>ss_db := d\<rparr>)"
    and "K (Inl Internal) s"
  shows "sm_wp (sm_put (versionKey p i n) (SVersion v)) K s"
  using assms(1)
proof (cases rule: put_outcome [of s "versionKey p i n" "SVersion v"])
  case (ok d)
  then have "sm_inv (s\<lparr>ss_db := d\<rparr>)"
    using assms(1-5) by (auto simp: sdb_ok_def intro!: view_ok_put_version)
  then show ?thesis using ok assms(6) by (simp add: wp_eq)
next
  case failed
  then show ?thesis using assms(7) by (simp add: wp_eq)
qed

lemma delete_outcome:
  assumes "db_inv (ss_db s)" "db_reliable (ss_db s)" "SafeKey k"
  obtains d where "sm_delete k s = (Inr (), s\<lparr>ss_db := d\<rparr>)" "db_inv d" "db_reliable d"
    "db_view d = (ss_view s)(k := None)"
proof -
  obtain d where "db_Commit (ss_db s) [OpDelete k] = (Inr (), d)" "db_inv d" "db_reliable d"
      "db_view d = (ss_view s)(k := None)"
    using assms reliable_commit [of "ss_db s" "[OpDelete k]"] by auto
  then show thesis using that [of d] by (simp add: sm_delete_def db_Delete_commit)
qed

lemma delete_all_outcome:
  assumes "db_inv (ss_db s)" "db_reliable (ss_db s)" "list_all SafeKey ks"
  shows "\<exists>d. sm_delete_all ks s = (Inr (), s\<lparr>ss_db := d\<rparr>) \<and> db_inv d \<and> db_reliable d \<and>
    db_view d = (\<lambda>k. if k \<in> set ks then None else ss_view s k)"
  using assms
proof (induction ks arbitrary: s)
  case Nil
  then show ?case by (intro exI [of _ "ss_db s"]) (simp add: sm_ok_def)
next
  case (Cons k ks)
  obtain d where d: "sm_delete k s = (Inr (), s\<lparr>ss_db := d\<rparr>)" "db_inv d" "db_reliable d"
      "db_view d = (ss_view s)(k := None)"
    by (rule delete_outcome [OF Cons.prems(1,2), of k]) (use Cons.prems(3) in auto)
  obtain d' where "sm_delete_all ks (s\<lparr>ss_db := d\<rparr>) = (Inr (), s\<lparr>ss_db := d'\<rparr>)" "db_inv d'" "db_reliable d'"
      "\<And>k. db_view d' k = (if k \<in> set ks then None else db_view d k)"
    using Cons.IH [of "s\<lparr>ss_db := d\<rparr>"] Cons.prems(3) d(2,3) by (auto simp: fun_eq_iff)
  then show ?case
    using d by (intro exI [of _ d']) (auto simp: sm_then_def fun_eq_iff)
qed

text \<open>A listing of a store that keeps the invariant holds safe keys.\<close>

lemma listed_safe: "sm_inv s \<Longrightarrow> list_all SafeKey (db_List (ss_db s) p)"
  using db.slist_set [of "ss_db s" p] by (auto simp: sdb_ok_def view_ok_def list_all_iff)

lemma deleteSecret_outcome:
  assumes "sm_inv s" "ss_view s (secretKey p i) = Some x" "no_slash p" "no_slash i"
  obtains d where "deleteSecret p i s = (Inr (), s\<lparr>ss_db := d\<rparr>)" "sm_inv (s\<lparr>ss_db := d\<rparr>)"
    "db_view d = without_secret p i (ss_view s)"
proof -
  have inv: "db_inv (ss_db s)" "db_reliable (ss_db s)" "view_ok (ss_view s)" "SafeKey (secretKey p i)"
    using assms(1,2) by (auto simp: sdb_ok_def view_ok_def)
  let ?ks = "db_List (ss_db s) (versionsUnder p i)"
  obtain d where d: "sm_delete_all ?ks s = (Inr (), s\<lparr>ss_db := d\<rparr>)" "db_inv d" "db_reliable d"
      "db_view d = (\<lambda>k. if k \<in> set ?ks then None else ss_view s k)"
    using delete_all_outcome [OF inv(1,2) listed_safe [OF assms(1)]] by blast
  obtain d' where d': "sm_delete (secretKey p i) (s\<lparr>ss_db := d\<rparr>) = (Inr (), s\<lparr>ss_db := d'\<rparr>)" "db_inv d'" "db_reliable d'"
      "db_view d' = (db_view d)(secretKey p i := None)"
    using delete_outcome [of "s\<lparr>ss_db := d\<rparr>" "secretKey p i"] d(2,3) inv(4) by auto
  have "db_view d' = without_secret p i (ss_view s)"
    using d(4) d'(4) db.slist_set [OF inv(1), of "versionsUnder p i"]
    by (auto simp: without_secret_def fun_eq_iff dom_def)
  then show thesis
    using that [of d'] d d' inv(3) view_ok_without [of "ss_view s" p i] assms(3,4)
    by (simp add: deleteSecret_def sm_then_def sdb_ok_def)
qed

lemma wp_deleteSecret [sm_rules]:
  assumes "sm_inv s" "ss_view s (secretKey p i) \<noteq> None" "no_slash p" "no_slash i"
    and "\<And>d. sm_inv (s\<lparr>ss_db := d\<rparr>) \<Longrightarrow> db_view d = without_secret p i (ss_view s) \<Longrightarrow> K (Inr ()) (s\<lparr>ss_db := d\<rparr>)"
  shows "sm_wp (deleteSecret p i) K s"
proof -
  obtain x where x: "ss_view s (secretKey p i) = Some x" using assms(2) by blast
  obtain d where "deleteSecret p i s = (Inr (), s\<lparr>ss_db := d\<rparr>)" "sm_inv (s\<lparr>ss_db := d\<rparr>)"
      "db_view d = without_secret p i (ss_view s)"
    by (rule deleteSecret_outcome [OF assms(1) x assms(3,4)])
  then show ?thesis using assms(5) by (simp add: wp_eq)
qed

text \<open>A read finds the secret and consumes one reading of the clock, or the secret is not there
  afterwards.\<close>

lemma wp_getSecret [sm_rules]:
  assumes "sm_inv s" "no_slash p" "no_slash i"
    and found: "\<And>sec. ss_view s (secretKey p i) = Some (SSecret sec) \<Longrightarrow> names_ok p i \<Longrightarrow> secret_ok p i sec \<Longrightarrow>
      \<not> Expired sec (shd (ss_clock s) + ss_offset s) \<Longrightarrow> K (Inr sec) (s\<lparr>ss_clock := stl (ss_clock s)\<rparr>)"
    and gone: "\<And>s'. sm_inv s' \<Longrightarrow> ss_view s' (secretKey p i) = None \<Longrightarrow>
      ss_view s' = ss_view s \<or> ss_view s' = without_secret p i (ss_view s) \<Longrightarrow> K (Inl NotFound) s'"
  shows "sm_wp (getSecret E p i) K s"
proof (cases "sm_read_secret s (secretKey p i)")
  case (Inl e)
  with read_secret_Inl [OF assms(1,2)] have "e = NotFound" "ss_view s (secretKey p i) = None" by auto
  with Inl gone [OF assms(1)] show ?thesis by (simp add: sm_wp_def getSecret_def)
next
  case (Inr sec)
  then have v: "ss_view s (secretKey p i) = Some (SSecret sec)" by (simp add: read_secret_iff [OF assms(1)])
  then have "names_ok p i" "secret_ok p i sec"
    using assms(1,2) view_secretD [of "ss_view s" p i] by (auto simp: sdb_ok_def)
  let ?now = "shd (ss_clock s) + ss_offset s" and ?s = "s\<lparr>ss_clock := stl (ss_clock s)\<rparr>"
  show ?thesis
  proof (cases "Expired sec ?now")
    case True
    have "sm_wp (sm_then (deleteSecret p i) (\<lambda>_.
             sm_then (notify E sec ''SECRET_DELETE'' None ''EXPIRATION'') (\<lambda>_. sm_fail NotFound))) K ?s"
      using assms(1-3) v
      by (intro sm_rules) (auto intro!: gone simp: without_secret_def)
    with True Inr show ?thesis by (simp add: sm_wp_def getSecret_def sm_then_def sm_now_def)
  next
    case False
    with Inr found [OF v \<open>names_ok p i\<close> \<open>secret_ok p i sec\<close>] show ?thesis
      by (simp add: sm_wp_def getSecret_def sm_then_def sm_now_def sm_ok_def)
  qed
qed

section \<open>The operations keep the invariant\<close>

lemma shrinks_put_secret: "shrinks f g \<Longrightarrow> shrinks f (g(k \<mapsto> SSecret x))"
  by (auto simp: shrinks_def)

lemma shrinks_put_version:
  "shrinks f g \<Longrightarrow> g k = Some (SVersion w) \<Longrightarrow> sv_State w \<noteq> VersionDestroyed \<Longrightarrow> shrinks f (g(k \<mapsto> SVersion v))"
  by (erule shrinks_trans) (auto simp: shrinks_def)

lemma shrinks_without_secret: "shrinks f g \<Longrightarrow> shrinks f (without_secret p i g)"
  by (erule shrinks_trans) simp

lemmas shrinks_intros = shrinks_put_secret shrinks_put_version shrinks_without_secret

text \<open>The state an operation leaves, seen from the views before.\<close>

abbreviation sm_kept :: "(string \<Rightarrow> sdoc option) \<Rightarrow> secrets_state \<Rightarrow> bool" where
  "sm_kept f s \<equiv> sm_inv s \<and> shrinks f (ss_view s)"

lemma kept_after_read:
  "shrinks f (ss_view s) \<Longrightarrow> ss_view s' = ss_view s \<or> ss_view s' = without_secret p i (ss_view s) \<Longrightarrow>
   shrinks f (ss_view s')"
  by (auto intro: shrinks_without_secret)

lemma kept_getSecret:
  "sm_kept f s \<Longrightarrow> no_slash p \<Longrightarrow> no_slash i \<Longrightarrow> sm_wp (getSecret E p i) (\<lambda>_. sm_kept f) s"
  by (rule wp_getSecret) (auto intro: kept_after_read)

lemma wp_notifyVersion [sm_rules]:
  assumes "sm_inv s" "no_slash p" "no_slash i"
    and "\<And>s'. sm_inv s' \<Longrightarrow> ss_view s' = ss_view s \<or> ss_view s' = without_secret p i (ss_view s) \<Longrightarrow> K (Inr ()) s'"
  shows "sm_wp (notifyVersion E p i ev v) K s"
proof -
  have "sm_wp (getSecret E p i) (\<lambda>r s'. case r of Inl _ \<Rightarrow> K (Inr ()) s' | Inr sec \<Rightarrow> sm_wp (notify E sec ev (Some v) []) K s') s"
    using assms by (intro wp_getSecret) (auto intro!: wp_notify)
  then show ?thesis
    by (auto simp: sm_wp_def notifyVersion_def split: prod.splits sum.splits)
qed

text \<open>The versions a scan finds are those of the secret.\<close>

lemma scan_versions_set:
  assumes "sm_inv s" "no_slash p" "no_slash i"
  shows "set (scan_versions s (versionsUnder p i)) = {v. \<exists>n. 1 \<le> n \<and> ss_view s (versionKey p i n) = Some (SVersion v)}"
proof -
  have "v \<in> set (scan_versions s (versionsUnder p i)) \<longleftrightarrow>
      (\<exists>k. prefix (versionsUnder p i) k \<and> ss_view s k = Some (SVersion v))" for v
  proof -
    have "(case sm_read_version s k of Inl _ \<Rightarrow> None | Inr v \<Rightarrow> Some v) = Some v \<longleftrightarrow> ss_view s k = Some (SVersion v)" for k
      using read_version_iff [OF assms(1), of k v] by (auto split: sum.splits)
    then show ?thesis
      using assms(1) db.slist_set [of "ss_db s" "versionsUnder p i"]
      by (auto simp: scan_versions_def set_map_filter sdb_ok_def)
  qed
  moreover have "(\<exists>k. prefix (versionsUnder p i) k \<and> ss_view s k = Some (SVersion v)) \<longleftrightarrow>
      (\<exists>n. 1 \<le> n \<and> ss_view s (versionKey p i n) = Some (SVersion v))" for v
  proof
    assume "\<exists>k. prefix (versionsUnder p i) k \<and> ss_view s k = Some (SVersion v)"
    then obtain k where k: "prefix (versionsUnder p i) k" "ss_view s k = Some (SVersion v)" by blast
    with assms(1) obtain p' i' where v: "names_ok p' i'" "k = versionKey p' i' (sv_Number v)" "version_ok p' i' v"
      unfolding sdb_ok_def view_ok_def by blast
    with k(1) assms(2,3) have "p = p' \<and> i = i'"
      by (simp add: versionKey_def versionsUnder_prefix names_ok_def)
    with k v show "\<exists>n. 1 \<le> n \<and> ss_view s (versionKey p i n) = Some (SVersion v)"
      by (auto simp: version_ok_def)
  qed (metis versionKey_under)
  ultimately show ?thesis by blast
qed

lemma best_version_in: "vs \<noteq> [] \<Longrightarrow> best_version vs \<in> set vs \<and> (\<forall>v \<in> set vs. sv_Number v \<le> sv_Number (best_version vs))"
proof -
  have "fold (\<lambda>v best. if sv_Number v > sv_Number best then v else best) vs b \<in> insert b (set vs) \<and>
      (\<forall>v \<in> insert b (set vs). sv_Number v \<le> sv_Number (fold (\<lambda>v best. if sv_Number v > sv_Number best then v else best) vs b))" for b
  proof (induction vs arbitrary: b)
    case (Cons v vs)
    show ?case using Cons [of "if sv_Number v > sv_Number b then v else b"] by (auto split: if_splits)
  qed simp
  from this [of "hd vs"] show "vs \<noteq> [] \<Longrightarrow> ?thesis" by (auto simp: best_version_def)
qed

lemma wp_listVersions [sm_rules]:
  assumes "sm_inv s" "no_slash p" "no_slash i"
    and "\<And>vs. set vs = {v. \<exists>n. 1 \<le> n \<and> ss_view s (versionKey p i n) = Some (SVersion v)} \<Longrightarrow> K (Inr vs) s"
  shows "sm_wp (listVersions p i) K s"
  using assms scan_versions_set [OF assms(1-3)] by (simp add: sm_wp_def listVersions_def)

lemma version_number:
  "sm_inv s \<Longrightarrow> no_slash p \<Longrightarrow> no_slash i \<Longrightarrow> 0 \<le> n \<Longrightarrow> ss_view s (versionKey p i n) = Some (SVersion v) \<Longrightarrow>
   sv_Number v = n \<and> names_ok p i \<and> version_ok p i v \<and>
   (\<exists>sec. ss_view s (secretKey p i) = Some (SSecret sec) \<and> n < sc_NextVersion sec)"
  by (erule view_versionD [of "ss_view s" p i n "SVersion v", rotated]) (auto simp: sdb_ok_def)

lemma wp_getVersion [sm_rules]:
  assumes "sm_inv s" "no_slash p" "no_slash i" "0 \<le> n"
    and "\<And>v. ss_view s (versionKey p i n) = Some (SVersion v) \<Longrightarrow> sv_Number v = n \<Longrightarrow> names_ok p i \<Longrightarrow> version_ok p i v \<Longrightarrow>
      \<exists>sec. ss_view s (secretKey p i) = Some (SSecret sec) \<and> n < sc_NextVersion sec \<Longrightarrow> K (Inr v) s"
    and "\<And>e. K (Inl e) s"
  shows "sm_wp (getVersion p i n) K s"
proof (cases "sm_read_version s (versionKey p i n)")
  case (Inr v)
  then have "ss_view s (versionKey p i n) = Some (SVersion v)" by (simp add: read_version_iff [OF assms(1)])
  with version_number [OF assms(1-4) this] assms(5) Inr show ?thesis by (simp add: sm_wp_def getVersion_def)
qed (simp add: sm_wp_def getVersion_def assms(6))

lemma wp_resolveVersion [sm_rules]:
  assumes "sm_inv s" "no_slash p" "no_slash i"
    and found: "\<And>n s' sec. 1 \<le> n \<Longrightarrow> ss_db s' = ss_db s \<Longrightarrow> names_ok p i \<Longrightarrow>
      ss_view s (secretKey p i) = Some (SSecret sec) \<Longrightarrow> K (Inr n) s'"
    and failed: "\<And>e s'. sm_inv s' \<Longrightarrow> ss_view s' = ss_view s \<or> ss_view s' = without_secret p i (ss_view s) \<Longrightarrow> K (Inl e) s'"
  shows "sm_wp (resolveVersion E p i version) K s"
proof -
  have "1 \<le> sv_Number (best_version vs)"
    if "set vs = {v. \<exists>n. 1 \<le> n \<and> ss_view s (versionKey p i n) = Some (SVersion v)}" "vs \<noteq> []" for vs
  proof -
    from best_version_in [OF that(2)] that(1)
    obtain n where n: "1 \<le> n" "ss_view s (versionKey p i n) = Some (SVersion (best_version vs))" by blast
    with version_number [OF assms(1-3) _ n(2)] show ?thesis by simp
  qed
  then show ?thesis
    unfolding resolveVersion_def using assms(1-3)
    by (intro sm_rules) (auto intro!: sm_rules intro: found failed split: option.splits)
qed

lemma secret_ok_unscheduled:
  "secret_ok p i sec \<Longrightarrow> secret_ok p i (sec\<lparr>sc_ScheduledDestroys := AList.delete k (sc_ScheduledDestroys sec)\<rparr>)"
  by (auto simp: secret_ok_def replication_ok_def schedule_ok_def gokeys_def AList.delete_keys)

lemma wp_unschedule [sm_rules]:
  assumes "sm_inv s" "no_slash p" "no_slash i"
    and "\<And>x s'. sm_inv s' \<Longrightarrow> shrinks (ss_view s) (ss_view s') \<Longrightarrow> K (Inr x) s'"
    and "\<And>e s'. sm_inv s' \<Longrightarrow> shrinks (ss_view s) (ss_view s') \<Longrightarrow> K (Inl e) s'"
  shows "sm_wp (unschedule E p i n) K s"
  unfolding unschedule_def using assms(1-3)
  by (intro sm_rules) (auto intro!: assms(4,5) secret_ok_unscheduled shrinks_intros)

text \<open>An operation that keeps the invariant and lets versions only go.\<close>

abbreviation sm_keeps :: "'a sm \<Rightarrow> secrets_state \<Rightarrow> bool" where
  "sm_keeps m s \<equiv> sm_wp m (\<lambda>_ s'. sm_inv s' \<and> shrinks (ss_view s) (ss_view s')) s"

lemma keeps_SetVersionState:
  assumes "sm_inv s" "no_slash p" "no_slash i"
  shows "sm_keeps (SetVersionState E p i version st) s"
  unfolding SetVersionState_def using assms
  by (intro sm_rules) (auto simp: version_ok_def intro!: shrinks_intros elim!: shrinks_trans [rotated])

lemma keeps_reads:
  assumes "sm_inv s" "no_slash p" "no_slash i"
  shows "sm_keeps (GetSecret E p i) s" "sm_keeps (GetVersion E p i version) s"
    "sm_keeps (AccessVersion E p i version) s" "sm_keeps (ListVersions E p i) s"
    "sm_keeps (ResolveVersion E p i version) s"
  unfolding GetSecret_def GetVersion_def AccessVersion_def ListVersions_def ResolveVersion_def
  using assms by (intro sm_rules; auto intro!: shrinks_intros)+

lemma keeps_DeleteSecret:
  assumes "sm_inv s" "no_slash p" "no_slash i"
  shows "sm_keeps (DeleteSecret E p i) s"
  unfolding DeleteSecret_def using assms by (intro sm_rules) (auto intro!: shrinks_intros)

lemma secret_ok_fields:
  "secret_ok p i sec \<Longrightarrow> secret_ok p i (sec\<lparr>sc_IAMPolicy := x\<rparr>)"
  "secret_ok p i sec \<Longrightarrow> secret_ok p i (sec\<lparr>sc_Etag := e\<rparr>)"
  by (simp_all add: secret_ok_def replication_ok_def schedule_ok_def)

lemma keeps_SetIamPolicy:
  assumes "sm_inv s" "no_slash p" "no_slash i"
  shows "sm_keeps (secret_SetIamPolicy E p i req) s"
  unfolding secret_SetIamPolicy_def using assms
  by (intro sm_rules) (auto intro!: shrinks_intros secret_ok_fields)

lemma secret_ok_keys:
  "secret_ok p i sec \<Longrightarrow> length keys = replica_count (sc_Replication sec) (sc_ReplicaLocations sec) \<Longrightarrow>
   secret_ok p i (sec\<lparr>sc_KMSKeys := normalKeys keys, sc_Etag := e\<rparr>)"
  by (simp add: secret_ok_def replication_ok_def schedule_ok_def normalKeys_def)

lemma keeps_SetReplicationKeys:
  assumes "sm_inv s" "no_slash p" "no_slash i"
  shows "sm_keeps (SetReplicationKeys E p i keys) s"
  unfolding SetReplicationKeys_def using assms
  by (intro sm_rules) (auto intro!: shrinks_intros secret_ok_keys)

lemma schedule_check_ok:
  "schedule_check sch now rotation ttl = Inr () \<Longrightarrow>
   (sch_RotationPeriod sch = 0 \<or> MinRotationPeriod \<le> sch_RotationPeriod sch \<and> sch_RotationPeriod sch \<le> MaxRotation) \<and>
   (ttl \<longrightarrow> sch_VersionDestroyTTL sch = 0 \<or>
     MinVersionDestroyTTL \<le> sch_VersionDestroyTTL sch \<and> sch_VersionDestroyTTL sch \<le> MaxVersionDestroyTTL)"
  by (auto simp: schedule_check_def Let_def split: if_splits)

lemma updated_secret_fields:
  "sc_Name (updated_secret u e sec) = sc_Name sec" "sc_NextVersion (updated_secret u e sec) = sc_NextVersion sec"
  "sc_ScheduledDestroys (updated_secret u e sec) = sc_ScheduledDestroys sec"
  "sc_Topics (updated_secret u e sec) = next_topics u sec"
  "sc_NextRotation (updated_secret u e sec) = next_rotation u sec"
  "sc_RotationPeriod (updated_secret u e sec) = next_period u sec"
  "sc_VersionDestroyTTL (updated_secret u e sec) =
    (if su_UpdateVersionDestroyTTL u then sch_VersionDestroyTTL (su_Schedule u) else sc_VersionDestroyTTL sec)"
  "replication_ok (updated_secret u e sec) = replication_ok sec"
  by (simp_all add: updated_secret_def Let_def next_rotation_def next_period_def replication_ok_def)

lemma secret_ok_updated:
  assumes sec: "secret_ok p i sec"
    and sch: "schedule_check (su_Schedule u) now (su_UpdateNextRotation u) (su_UpdateVersionDestroyTTL u) = Inr ()"
    and topics: "\<not> (next_rotation u sec \<noteq> zero_time \<and> next_topics u sec = [])"
  shows "secret_ok p i (updated_secret u etag sec)"
proof -
  have "next_period u sec = 0 \<or> MinRotationPeriod \<le> next_period u sec \<and> next_period u sec \<le> MaxRotation"
    using sec schedule_check_ok [OF sch] by (simp add: next_period_def secret_ok_def schedule_ok_def)
  with sec schedule_check_ok [OF sch] topics show ?thesis
    by (simp add: secret_ok_def schedule_ok_def updated_secret_fields) blast
qed

lemma keeps_UpdateSecretFields:
  assumes "sm_inv s" "no_slash p" "no_slash i"
  shows "sm_keeps (UpdateSecretFields E p i u) s"
  unfolding UpdateSecretFields_def using assms
  by (intro sm_rules) (auto intro!: shrinks_intros intro: secret_ok_updated simp: updated_secret_fields)

lemma wp_absent:
  assumes "sm_inv s" "no_slash p" "no_slash i"
    and "\<And>s'. sm_inv s' \<Longrightarrow> shrinks (ss_view s) (ss_view s') \<Longrightarrow> ss_view s' (secretKey p i) = None \<Longrightarrow> K (Inr ()) s'"
    and "\<And>s'. ss_db s' = ss_db s \<Longrightarrow> K (Inl AlreadyExists) s'"
  shows "sm_wp (\<lambda>s. case getSecret E p i s of (Inr _, s') \<Rightarrow> (Inl AlreadyExists, s') | (Inl _, s') \<Rightarrow> (Inr (), s')) K s"
proof -
  have "sm_wp (getSecret E p i) (\<lambda>r s'. case r of Inr _ \<Rightarrow> K (Inl AlreadyExists) s' | Inl _ \<Rightarrow> K (Inr ()) s') s"
    using assms(1-3) by (intro sm_rules) (auto intro!: assms(4,5) shrinks_intros)
  then show ?thesis by (auto simp: sm_wp_def split: prod.splits sum.splits)
qed

lemma secret_ok_new:
  assumes "schedule_check (cr_Schedule a) now True True = Inr ()"
    and "\<not> (sch_NextRotation (cr_Schedule a) \<noteq> zero_time \<and> cr_Topics a = [])"
    and "check_replication a = Inr ()" "check_key_count a = Inr ()"
  shows "secret_ok p i (new_secret p i a t e)"
proof -
  have "replication_or_default a = ''automatic'' \<and> cr_Locations a = [] \<or>
      replication_or_default a = ''user-managed'' \<and> cr_Locations a \<noteq> [] \<and> [] \<notin> set (cr_Locations a)"
    using assms(3) by (auto simp: check_replication_def Let_def list_ex_iff split: if_splits)
  moreover have "normalKeys (keys_of a) = [] \<or>
      hasKeys (normalKeys (keys_of a)) \<and>
      length (normalKeys (keys_of a)) = replica_count (replication_or_default a) (cr_Locations a)"
    using assms(4) by (cases "cr_Keys a") (simp_all add: check_key_count_def keys_of_def normalKeys_def hasKeys_def split: if_splits)
  ultimately have "replication_ok (new_secret p i a t e)"
    by (simp add: replication_ok_def new_secret_def)
  moreover have "schedule_ok (new_secret p i a t e)"
    using assms(2) schedule_check_ok [OF assms(1)] by (simp add: schedule_ok_def new_secret_def gokeys_def) blast
  ultimately show ?thesis by (simp add: secret_ok_def new_secret_def)
qed

lemma keeps_CreateSecret:
  assumes "sm_inv s" "no_slash p" "no_slash i"
  shows "sm_keeps (CreateSecretEncrypted E p i a) s"
  unfolding CreateSecretEncrypted_def using assms
  by (intro sm_rules wp_absent) (auto intro!: shrinks_intros intro: secret_ok_new simp: names_ok_def)

text \<open>The listings read each secret once, and delete the expired ones.\<close>

definition stored_secrets :: "(string \<Rightarrow> sdoc option) \<Rightarrow> secret list \<Rightarrow> bool" where
  "stored_secrets f secs \<longleftrightarrow>
     distinct (map (\<lambda>x. secretParts (sc_Name x)) secs) \<and>
     (\<forall>x \<in> set secs. \<exists>p i. names_ok p i \<and> secretParts (sc_Name x) = (p, i) \<and> f (secretKey p i) = Some (SSecret x))"

lemma secret_parts_ok: "names_ok p i \<Longrightarrow> secret_ok p i sec \<Longrightarrow> secretParts (sc_Name sec) = (p, i)"
  by (simp add: names_ok_def secret_ok_def secretParts_SecretName)

lemma scan_secrets_stored:
  assumes "sm_inv s"
  shows "stored_secrets (ss_view s) (scan_secrets s pre)"
proof -
  let ?g = "\<lambda>k. case sm_read_secret s k of Inl _ \<Rightarrow> None | Inr x \<Rightarrow> Some x"
  have g: "?g k = Some x \<longleftrightarrow> ss_view s k = Some (SSecret x)" for k x
    using read_secret_iff [OF assms, of k x] by (auto split: sum.splits)
  have own: "\<exists>p i. names_ok p i \<and> k = secretKey p i \<and> secretParts (sc_Name x) = (p, i)" if "?g k = Some x" for k x
    using that assms secret_parts_ok unfolding g sdb_ok_def view_ok_def by blast
  have "distinct (map (\<lambda>x. secretParts (sc_Name x)) (List.map_filter ?g ks))" if "distinct ks" for ks
    using that
  proof (induction ks)
    case (Cons k ks)
    have "secretParts (sc_Name x) \<noteq> secretParts (sc_Name y)" if "?g k = Some x" "y \<in> set (List.map_filter ?g ks)" for x y
    proof -
      from that(2) obtain k' where k': "k' \<in> set ks" "?g k' = Some y" by (auto simp: set_map_filter)
      with Cons.prems have "k \<noteq> k'" by auto
      with own [OF that(1)] own [OF k'(2)] show ?thesis by auto
    qed
    with Cons show ?case by (auto simp: List.map_filter_simps split: option.splits)
  qed (simp add: List.map_filter_simps)
  moreover have "distinct (db_List (ss_db s) pre)"
    using assms by (intro db.slist_distinct) (simp add: sdb_ok_def)
  ultimately show ?thesis
    using own unfolding stored_secrets_def scan_secrets_def set_map_filter by (auto simp: g; metis)
qed

lemma stored_secrets_Cons:
  assumes "stored_secrets f (x # xs)"
  obtains p i where "secretParts (sc_Name x) = (p, i)" "names_ok p i" "f (secretKey p i) = Some (SSecret x)"
    "stored_secrets f xs" "stored_secrets (without_secret p i f) xs"
proof -
  from assms obtain p i where x: "secretParts (sc_Name x) = (p, i)" "names_ok p i" "f (secretKey p i) = Some (SSecret x)"
    by (auto simp: stored_secrets_def)
  have "without_secret p i f (secretKey p' i') = f (secretKey p' i')"
    if "names_ok p' i'" "(p', i') \<noteq> (p, i)" for p' i'
    using that x(2) by (auto simp: without_secret_def secretKey_inject names_ok_def)
  moreover have "\<exists>p' i'. names_ok p' i' \<and> secretParts (sc_Name y) = (p', i') \<and> f (secretKey p' i') = Some (SSecret y) \<and>
      (p', i') \<noteq> (p, i)" if "y \<in> set xs" for y
  proof -
    have "secretParts (sc_Name y) \<noteq> (p, i)" using assms that x(1) by (force simp: stored_secrets_def)
    then show ?thesis using assms that by (auto simp: stored_secrets_def)
  qed
  ultimately have "stored_secrets (without_secret p i f) xs"
    using assms unfolding stored_secrets_def by simp metis
  moreover have "stored_secrets f xs" using assms by (simp add: stored_secrets_def)
  ultimately show thesis using that x by blast
qed

lemma wp_list_live:
  assumes "sm_inv s" "stored_secrets (ss_view s) secs"
    and "\<And>x s'. sm_inv s' \<Longrightarrow> shrinks (ss_view s) (ss_view s') \<Longrightarrow> K (Inr x) s'"
    and "\<And>e s'. sm_inv s' \<Longrightarrow> shrinks (ss_view s) (ss_view s') \<Longrightarrow> K (Inl e) s'"
  shows "sm_wp (list_live secs) K s"
  using assms
proof (induction secs arbitrary: s K)
  case Nil
  then show ?case by (auto intro!: sm_rules)
next
  case (Cons x xs)
  from Cons.prems(2) obtain p i where x: "secretParts (sc_Name x) = (p, i)" "names_ok p i"
      "ss_view s (secretKey p i) = Some (SSecret x)" "stored_secrets (ss_view s) xs"
      "stored_secrets (without_secret p i (ss_view s)) xs"
    by (rule stored_secrets_Cons)
  then show ?case
    unfolding list_live.simps using Cons.prems(1)
    by (intro sm_rules Cons.IH)
      (auto simp: names_ok_def intro!: Cons.prems(3,4) sm_rules shrinks_intros elim!: shrinks_trans [rotated])
qed

lemma wp_at: "sm_wp (m s) K s \<Longrightarrow> sm_wp (\<lambda>s. m s s) K s"
  by (simp add: sm_wp_def)

lemma keeps_ListSecrets: "sm_inv s \<Longrightarrow> sm_keeps (ListSecrets p) s"
  unfolding ListSecrets_def
  by (intro wp_then wp_require rest_intros wp_list_live
      wp_at [where m = "\<lambda>s. sm_then (list_live (scan_secrets s (''secret/'' @ p @ ''/''))) (\<lambda>out. sm_ok (sort_key sc_Name out))"])
    (auto intro!: sm_rules scan_secrets_stored)

lemma list_regional_db: "ss_db (snd (list_regional p secs s)) = ss_db s"
proof (induction secs arbitrary: s)
  case (Cons x xs)
  then show ?case
    by (simp add: sm_then_def sm_now_def sm_ok_def Let_def case_prod_beta split: sum.splits prod.splits)
qed (simp add: sm_ok_def)

lemma keeps_ListRegionalSecrets: "sm_inv s \<Longrightarrow> sm_keeps (ListRegionalSecrets p) s"
proof -
  assume "sm_inv s"
  have "ss_db (snd (ListRegionalSecrets p s)) = ss_db s"
    using list_regional_db [of p "scan_secrets s (''secret/'' @ p @ ''@'')" s]
    by (auto simp: ListRegionalSecrets_def sm_then_def sm_require_def sm_ok_def split: prod.splits sum.splits)
  with \<open>sm_inv s\<close> show ?thesis by (simp add: sm_wp_def)
qed

lemma secret_parts4_cases:
  "secret_parts4 nm = Inr qs \<Longrightarrow>
   qs = split_on (CHR ''/'') nm \<or>
   (\<exists>a p b l c i. split_on (CHR ''/'') nm = [a, p, b, l, c, i] \<and> qs = [a, RegionalScope p l, c, i])"
  by (auto simp: secret_parts4_def split: list.splits if_splits)

lemma ParseSecretName_no_slash:
  assumes "ParseSecretName nm = Inr (p, i)"
  shows "no_slash p \<and> no_slash i"
proof -
  obtain a c where q: "secret_parts4 nm = Inr [a, p, c, i]"
    using assms by (auto simp: ParseSecretName_def split: sum.splits list.splits if_splits)
  have parts: "no_slash x" if "x \<in> set (split_on (CHR ''/'') nm)" for x
    using that split_on_parts by fast
  from secret_parts4_cases [OF q] show ?thesis
  proof
    assume "[a, p, c, i] = split_on (CHR ''/'') nm"
    then show ?thesis using parts [of p] parts [of i] by (metis list.set_intros)
  next
    assume "\<exists>a' p' b l c' i'. split_on (CHR ''/'') nm = [a', p', b, l, c', i'] \<and> [a, p, c, i] = [a', RegionalScope p' l, c', i']"
    then obtain p' b l where "split_on (CHR ''/'') nm = [a, p', b, l, c, i]" "p = RegionalScope p' l" by auto
    then show ?thesis using parts [of p'] parts [of l] parts [of i] by (simp add: RegionalScope_def)
  qed
qed

lemma Contains_char: "Contains s [c] \<longleftrightarrow> c \<in> set s"
  by (auto simp: sublist_def in_set_conv_decomp)

lemma ref_target_no_slash:
  "no_slash p \<Longrightarrow> ref_target p r = Inr (q, i) \<Longrightarrow> no_slash q \<and> no_slash i"
  using ParseSecretName_no_slash by (auto simp: ref_target_def Contains_char split: if_splits)

lemma wp_prod [sm_rules]:
  "(\<And>a b. x = (a, b) \<Longrightarrow> sm_wp (f a b) K s) \<Longrightarrow> sm_wp (case_prod f x) K s"
  by (cases x) simp

lemma keeps_ResolveSecretRef:
  assumes "sm_inv s" "no_slash p"
  shows "sm_keeps (ResolveSecretRef E p r version) s"
  unfolding ResolveSecretRef_def ResolveVersion_def GetVersion_def using assms
  by (intro sm_rules) (auto dest: ref_target_no_slash intro!: shrinks_intros)

section \<open>Destruction and the sweep\<close>

lemma version_ok_destroyed: "version_ok p i v \<Longrightarrow> version_ok p i (destroyed_version v t e)"
  by (simp add: version_ok_def destroyed_version_def destroyed_ok_def list_all_iff)

lemma wp_destroyNowQuiet [sm_rules]:
  assumes "sm_inv s" "names_ok p i" "version_ok p i v"
    and "ss_view s (versionKey p i (sv_Number v)) = Some (SVersion v)" "sv_State v \<noteq> VersionDestroyed"
    and "\<exists>sec. ss_view s (secretKey p i) = Some (SSecret sec) \<and> sv_Number v < sc_NextVersion sec"
    and "\<And>v' s'. sm_inv s' \<Longrightarrow> shrinks (ss_view s) (ss_view s') \<Longrightarrow>
      ss_view s' = (ss_view s)(versionKey p i (sv_Number v) \<mapsto> SVersion v') \<Longrightarrow> sv_Number v' = sv_Number v \<Longrightarrow>
      sv_State v' = VersionDestroyed \<Longrightarrow> K (Inr v') s'"
    and "\<And>s'. ss_db s' = ss_db s \<Longrightarrow> K (Inl Internal) s'"
  shows "sm_wp (destroyNowQuiet E p i v) K s"
  unfolding destroyNowQuiet_def using assms(1-6)
  by (intro sm_rules)
    (auto simp: destroyed_version_def intro!: assms(7,8) version_ok_destroyed [unfolded destroyed_version_def] shrinks_intros)

lemma wp_scheduleDestroy:
  assumes "sm_inv s" "names_ok p i" "secret_ok p i sec" "version_ok p i v"
    and "ss_view s (versionKey p i (sv_Number v)) = Some (SVersion v)" "sv_State v \<noteq> VersionDestroyed"
    and "ss_view s (secretKey p i) = Some (SSecret sec)" "sv_Number v < sc_NextVersion sec"
  shows "sm_keeps (scheduleDestroy E sec v) s"
proof -
  have "secret_ok p i (sec\<lparr>sc_ScheduledDestroys := AList.update (int_dec (sv_Number v)) t (sc_ScheduledDestroys sec)\<rparr>)" for t
    using assms(3,4,8)
    by (auto simp: secret_ok_def replication_ok_def schedule_ok_def gokeys_def update_keys version_ok_def)
  then show ?thesis
    unfolding scheduleDestroy_def secret_parts_ok [OF assms(2,3)] using assms
    by (intro sm_rules) (auto simp: version_ok_def intro!: shrinks_intros)
qed

lemma keeps_DestroyVersion:
  assumes "sm_inv s" "no_slash p" "no_slash i"
  shows "sm_keeps (DestroyVersion E p i version) s"
  unfolding DestroyVersion_def destroyNow_def using assms
  by (intro sm_rules wp_scheduleDestroy [THEN wp_mono]) (auto intro!: shrinks_intros elim!: shrinks_trans [rotated])

lemma Atoi_int_dec_nonneg: "0 \<le> n \<Longrightarrow> 0 \<le> (case Atoi (int_dec n) of Some k \<Rightarrow> k | None \<Rightarrow> 0)"
proof -
  assume "0 \<le> n"
  then have "int_dec n \<noteq> []" "hd (int_dec n) \<noteq> CHR ''-''"
    using nat_dec_digits [of "hd (int_dec n)" "nat n"]
    by (auto simp: int_dec_def is_digit_def less_eq_char_def)
  then show ?thesis by (auto simp: Atoi_def Let_def split: option.splits)
qed

lemma wp_due_versions:
  assumes "sm_inv s" "names_ok p i" "secret_ok p i sec" "ss_view s (secretKey p i) = Some (SSecret old)"
    and "sc_NextVersion sec = sc_NextVersion old" "\<forall>k \<in> set ns. \<exists>n. k = int_dec n \<and> 1 \<le> n"
    and "\<And>sec' next' c' s'. sm_inv s' \<Longrightarrow> shrinks (ss_view s) (ss_view s') \<Longrightarrow> secret_ok p i sec' \<Longrightarrow>
      sc_NextVersion sec' = sc_NextVersion old \<Longrightarrow> ss_view s' (secretKey p i) = Some (SSecret old) \<Longrightarrow>
      K (Inr (sec', next', c')) s'"
    and "\<And>e s'. sm_inv s' \<Longrightarrow> shrinks (ss_view s) (ss_view s') \<Longrightarrow> K (Inl e) s'"
  shows "sm_wp (due_versions E p i now ns (sec, next, changed)) K s"
  using assms
proof (induction ns arbitrary: s sec "next" changed)
  case Nil
  then show ?case by (auto intro!: sm_rules)
next
  case (Cons k ks)
  let ?at = "case map_of (sc_ScheduledDestroys sec) k of Some t \<Rightarrow> t | None \<Rightarrow> zero_time"
  let ?sec = "sec\<lparr>sc_ScheduledDestroys := AList.delete k (sc_ScheduledDestroys sec)\<rparr>"
  let ?n = "case Atoi k of Some n \<Rightarrow> n | None \<Rightarrow> 0"
  have n: "0 \<le> ?n" using Cons.prems(6) Atoi_int_dec_nonneg by fastforce
  have ok: "secret_ok p i ?sec" "sc_NextVersion ?sec = sc_NextVersion old"
    using Cons.prems(3,5) secret_ok_unscheduled by auto
  have slash: "no_slash p" "no_slash i" using Cons.prems(2) by (auto simp: names_ok_def)
  have rest: "sm_wp (due_versions E p i now ks (sec', next', c')) K s'"
    if "sm_inv s'" "shrinks (ss_view s) (ss_view s')" "secret_ok p i sec'" "sc_NextVersion sec' = sc_NextVersion old"
      "ss_view s' (secretKey p i) = Some (SSecret old)" for sec' next' c' s'
    using that Cons.prems(2,6)
    by (intro Cons.IH) (auto intro!: Cons.prems(7,8) elim!: shrinks_trans [rotated])
  show ?case
  proof (cases "now < ?at")
    case True
    then show ?thesis using rest [OF Cons.prems(1)] Cons.prems by (simp add: Let_def)
  next
    case False
    show ?thesis
    proof (cases "sm_read_version s (versionKey p i ?n)")
      case (Inl e)
      then show ?thesis
        using False rest [OF Cons.prems(1) _ ok] Cons.prems(4) by (simp add: Let_def sm_wp_def)
    next
      case (Inr v)
      then have v: "ss_view s (versionKey p i ?n) = Some (SVersion v)" using read_version_iff [OF Cons.prems(1)] by simp
      show ?thesis
      proof (cases "sv_ScheduledDestroy v = zero_time \<or> sv_State v = VersionDestroyed")
        case True
        then show ?thesis
          using False Inr rest [OF Cons.prems(1) _ ok] Cons.prems(4) by (simp add: Let_def sm_wp_def)
      next
        case v2: False
        have "sm_wp (sm_then (destroyNowQuiet E p i v) (\<lambda>destroyed.
            sm_then (notify E ?sec ''SECRET_VERSION_DESTROY'' (Some destroyed) []) (\<lambda>_.
            due_versions E p i now ks (?sec, next, True)))) K s"
          using Cons.prems(1,2) version_number [OF Cons.prems(1) slash n v] v v2 Cons.prems(4) ok
          by (intro sm_rules rest) (auto intro!: Cons.prems(8) rest)
        then show ?thesis using False Inr v2 by (simp add: Let_def sm_wp_def)
      qed
    qed
  qed
qed

lemma secret_ok_rotated:
  "secret_ok p i sec \<Longrightarrow> sc_NextRotation sec \<noteq> zero_time \<Longrightarrow> secret_ok p i (sec\<lparr>sc_NextRotation := t\<rparr>)"
  by (simp add: secret_ok_def replication_ok_def schedule_ok_def)

lemma wp_due:
  assumes "sm_inv s" "names_ok p i" "ss_view s (secretKey p i) = Some (SSecret sec)"
    and "\<And>x s'. sm_inv s' \<Longrightarrow> shrinks (ss_view s) (ss_view s') \<Longrightarrow> K (Inr x) s'"
    and "\<And>e s'. sm_inv s' \<Longrightarrow> shrinks (ss_view s) (ss_view s') \<Longrightarrow> K (Inl e) s'"
  shows "sm_wp (due E sec now) K s"
proof -
  have ok: "secret_ok p i sec"
    using assms(1-3) view_secretD [of "ss_view s" p i "SSecret sec"] by (auto simp: sdb_ok_def names_ok_def)
  have keys: "\<forall>k \<in> set (sort (gokeys (sc_ScheduledDestroys sec))). \<exists>n. k = int_dec n \<and> 1 \<le> n"
    using ok by (auto simp: secret_ok_def schedule_ok_def)
  show ?thesis
    unfolding due_def secret_parts_ok [OF assms(2) ok] using assms(1-3) ok keys
    by (intro sm_rules wp_due_versions [where old = sec])
      (auto intro!: assms(4,5) secret_ok_rotated shrinks_intros elim!: shrinks_trans [rotated])
qed

lemma wp_sweep_keys:
  assumes "sm_inv s"
    and "\<And>x s'. sm_inv s' \<Longrightarrow> shrinks (ss_view s) (ss_view s') \<Longrightarrow> K (Inr x) s'"
    and "\<And>e s'. sm_inv s' \<Longrightarrow> shrinks (ss_view s) (ss_view s') \<Longrightarrow> K (Inl e) s'"
  shows "sm_wp (sweep_keys E now ks next) K s"
  using assms
proof (induction ks arbitrary: s "next")
  case Nil
  then show ?case by (auto intro!: sm_rules)
next
  case (Cons k ks)
  have rest: "sm_wp (sweep_keys E now ks next') K s'" if "sm_inv s'" "shrinks (ss_view s) (ss_view s')" for s' next'
    using that by (intro Cons.IH) (auto intro!: Cons.prems(2,3) elim!: shrinks_trans [rotated])
  show ?case
  proof (cases "sm_read_secret s k")
    case (Inl e)
    then show ?thesis using rest [OF Cons.prems(1)] by (simp add: sm_wp_def)
  next
    case (Inr sec)
    then have v: "ss_view s k = Some (SSecret sec)" using read_secret_iff [OF Cons.prems(1)] by simp
    with Cons.prems(1) obtain p i where k: "names_ok p i" "k = secretKey p i" "secret_ok p i sec"
      unfolding sdb_ok_def view_ok_def by blast
    note parts = secret_parts_ok [OF k(1,3)]
    have "sm_wp (sm_then (deleteSecret p i) (\<lambda>_.
        sm_then (notify E sec ''SECRET_DELETE'' None ''EXPIRATION'') (\<lambda>_. sweep_keys E now ks next))) K s"
      using Cons.prems(1) k(1,2) v by (intro sm_rules rest) (auto simp: names_ok_def intro!: rest)
    moreover have "sm_wp (sm_then (due E sec now) (\<lambda>later.
        sweep_keys E now ks (soonest (soonest next (sc_Expire sec)) later))) K s"
      using Cons.prems(1) k(1,2) v by (intro wp_then wp_due [of s p i]) (auto intro!: sm_rules rest Cons.prems(3))
    moreover have "sm_wp (sweep_keys E now ks next) K s" using rest [OF Cons.prems(1)] by simp
    ultimately show ?thesis using Inr parts by (simp add: sm_wp_def)
  qed
qed

lemma keeps_Sweep: "sm_inv s \<Longrightarrow> sm_keeps (Sweep E) s"
proof -
  assume "sm_inv s"
  then have "sm_wp (sm_then sm_now (\<lambda>now. sweep_keys E now (db_List (ss_db s) ''secret/'') zero_time))
      (\<lambda>_ s'. sm_inv s' \<and> shrinks (ss_view s) (ss_view s')) s"
    by (intro sm_rules wp_sweep_keys) auto
  then show ?thesis by (simp add: sm_wp_def Sweep_def Let_def)
qed

lemma keeps_Advance: "sm_inv s \<Longrightarrow> sm_keeps (sm_Advance E d) s"
  using keeps_Sweep [of "s\<lparr>ss_offset := to_int64 (ss_offset s + d)\<rparr>" E]
  by (auto simp: sm_Advance_def sm_wp_def sm_then_def sm_require_def sm_now_def split: prod.splits sum.splits)

text \<open>A reset leaves nothing.\<close>

lemma reset_outcome:
  assumes "sm_inv s"
  shows "\<exists>d. sm_Reset s = (Inr (), s\<lparr>ss_db := d\<rparr>) \<and> sdb_ok d \<and> db_view d = Map.empty"
proof -
  have inv: "db_inv (ss_db s)" "db_reliable (ss_db s)" "view_ok (ss_view s)" using assms by (auto simp: sdb_ok_def)
  obtain d where d: "sm_delete_all (db_List (ss_db s) ''secret/'') s = (Inr (), s\<lparr>ss_db := d\<rparr>)" "db_inv d" "db_reliable d"
      "db_view d = (\<lambda>k. if k \<in> set (db_List (ss_db s) ''secret/'') then None else ss_view s k)"
    using delete_all_outcome [OF inv(1,2) listed_safe [OF assms]] by blast
  have "list_all SafeKey (db_List d ''version/'')"
    using db.slist_set [OF d(2), of "''version/''"] d(4) inv(3)
    by (auto simp: list_all_iff view_ok_def dom_def split: if_splits)
  from delete_all_outcome [of "s\<lparr>ss_db := d\<rparr>", OF _ _ this] d(2,3)
  obtain d' where d': "sm_delete_all (db_List d ''version/'') (s\<lparr>ss_db := d\<rparr>) = (Inr (), s\<lparr>ss_db := d'\<rparr>)" "db_inv d'" "db_reliable d'"
      "\<And>k. db_view d' k = (if k \<in> set (db_List d ''version/'') then None else db_view d k)"
    by (auto simp: fun_eq_iff)
  have "db_view d' k = None" for k
  proof (cases "ss_view s k")
    case None
    then show ?thesis using d(4) d'(4) by simp
  next
    case (Some x)
    then have "prefix ''secret/'' k \<or> prefix ''version/'' k"
      using inv(3) by (cases x) (fastforce simp: view_ok_def secretKey_def versionKey_def versionsUnder_def)+
    then show ?thesis
      using Some d(4) d'(4) db.slist_set [OF inv(1), of "''secret/''"] db.slist_set [OF d(2), of "''version/''"]
      by (auto simp: dom_def)
  qed
  then show ?thesis
    using d(1) d' by (intro exI [of _ d']) (auto simp: sm_Reset_def sm_then_def sdb_ok_def view_ok_def)
qed

lemma keeps_Reset: "sm_inv s \<Longrightarrow> sm_keeps sm_Reset s"
  using reset_outcome [of s] by (auto simp: sm_wp_def shrinks_def)

section \<open>Adding a version\<close>

definition destroyed_kept :: "(string \<Rightarrow> sdoc option) \<Rightarrow> (string \<Rightarrow> sdoc option) \<Rightarrow> bool" where
  "destroyed_kept f g \<longleftrightarrow>
     (\<forall>k v. f k = Some (SVersion v) \<and> sv_State v = VersionDestroyed \<longrightarrow> (\<nexists>w. g k = Some (SVersion w)) \<or> g k = f k)"

lemma shrinks_destroyed_kept: "shrinks f g \<Longrightarrow> destroyed_kept f g"
  by (simp add: shrinks_def destroyed_kept_def)

lemma destroyed_kept_refl [simp]: "destroyed_kept f f"
  by (simp add: destroyed_kept_def)

lemma sealVersion_fields:
  "sealVersion E sec v payload = Inr w \<Longrightarrow>
   sv_Name w = sv_Name v \<and> sv_Number w = sv_Number v \<and> sv_State w = sv_State v \<and> sv_Created w = sv_Created v \<and>
   sv_Destroyed w = sv_Destroyed v \<and> sv_ScheduledDestroy w = sv_ScheduledDestroy v"
  by (auto simp: sealVersion_def Let_def split: if_splits option.splits sum.splits)

lemma version_ok_new:
  "secret_ok p i sec \<Longrightarrow> sealVersion E sec (new_version p i (sc_NextVersion sec) t e c) payload = Inr v \<Longrightarrow>
   version_ok p i v \<and> sv_Number v = sc_NextVersion sec"
  using sealVersion_fields [of E sec "new_version p i (sc_NextVersion sec) t e c" payload v]
  by (simp add: version_ok_def new_version_def secret_ok_def)

lemma secret_ok_next:
  "secret_ok p i sec \<Longrightarrow> secret_ok p i (sec\<lparr>sc_NextVersion := sc_NextVersion sec + 1, sc_Etag := e\<rparr>)"
proof -
  assume sec: "secret_ok p i sec"
  have "\<exists>n. k = int_dec n \<and> 1 \<le> n \<and> n < sc_NextVersion sec + 1" if "k \<in> set (gokeys (sc_ScheduledDestroys sec))" for k
  proof -
    from sec that obtain n where "k = int_dec n" "1 \<le> n" "n < sc_NextVersion sec"
      unfolding secret_ok_def schedule_ok_def by blast
    then show ?thesis by (intro exI [of _ n]) simp
  qed
  with sec show ?thesis by (simp add: secret_ok_def replication_ok_def schedule_ok_def)
qed

lemma fresh_version:
  assumes "sm_inv s" "names_ok p i" "ss_view s (secretKey p i) = Some (SSecret sec)"
  shows "ss_view s (versionKey p i (sc_NextVersion sec)) = None"
proof (cases "ss_view s (versionKey p i (sc_NextVersion sec))")
  case (Some d)
  have slash: "no_slash p" "no_slash i" and n: "1 \<le> sc_NextVersion sec"
    using assms view_secretD [of "ss_view s" p i "SSecret sec"] by (auto simp: names_ok_def sdb_ok_def secret_ok_def)
  have False
    by (rule view_versionD [of "ss_view s" p i "sc_NextVersion sec" d])
      (use assms(1,3) slash n Some in \<open>auto simp: sdb_ok_def\<close>)
  then show ?thesis ..
qed

lemma wp_addVersion:
  assumes "sm_inv s" "no_slash p" "no_slash i"
  shows "sm_wp (addVersion E p i payload c) (\<lambda>_ s'. sm_inv s' \<and> destroyed_kept (ss_view s) (ss_view s')) s"
proof -
  have kept: "destroyed_kept (ss_view s) ((ss_view s)(secretKey p i \<mapsto> SSecret x, versionKey p i n \<mapsto> SVersion v))"
      "destroyed_kept (ss_view s) ((ss_view s)(secretKey p i \<mapsto> SSecret x))"
    if "ss_view s (secretKey p i) = Some (SSecret sec)" "names_ok p i" "n = sc_NextVersion sec" for x v n sec
    using that fresh_version [OF assms(1) that(2,1)] by (auto simp: destroyed_kept_def)
  show ?thesis
    unfolding addVersion_def using assms
    by (intro sm_rules)
      (auto dest: version_ok_new intro!: shrinks_destroyed_kept [OF shrinks_without] secret_ok_next kept)
qed

section \<open>Every operation, in any order\<close>

lemma keeps_snd: "sm_keeps m s \<Longrightarrow> sm_inv (snd (m s)) \<and> destroyed_kept (ss_view s) (ss_view (snd (m s)))"
  by (simp add: sm_wp_def shrinks_destroyed_kept)

lemma sm_run_step:
  assumes "sm_inv s" "op_names_ok op"
  shows "sm_inv (sm_run E op s) \<and> destroyed_kept (ss_view s) (ss_view (sm_run E op s))"
proof (cases op)
  case (OpAddVersion p i payload c)
  then show ?thesis using wp_addVersion [of s p i E payload c] assms by (simp add: sm_wp_def)
qed (use assms in \<open>auto intro!: keeps_snd keeps_reads keeps_SetVersionState keeps_DeleteSecret keeps_SetIamPolicy
    keeps_SetReplicationKeys keeps_UpdateSecretFields keeps_CreateSecret keeps_ListSecrets keeps_ListRegionalSecrets
    keeps_ResolveSecretRef keeps_DestroyVersion keeps_Sweep keeps_Advance keeps_Reset
    simp del: split_paired_All\<close>)

text \<open>A run of operations, each in surroundings of its own.\<close>

definition sm_runs :: "(sm_env \<times> sm_op) list \<Rightarrow> secrets_state \<Rightarrow> secrets_state" where
  "sm_runs ops s = fold (\<lambda>(E, op) s. sm_run E op s) ops s"

lemma sm_runs_inv: "sm_inv s \<Longrightarrow> list_all (\<lambda>x. op_names_ok (snd x)) ops \<Longrightarrow> sm_inv (sm_runs ops s)"
  by (induction ops arbitrary: s) (auto simp: sm_runs_def sm_run_step)

text \<open>The store as \<open>NewStore\<close> returns it, over an empty metadata store.\<close>

definition sm_NewStore :: "sdoc db \<Rightarrow> time stream \<Rightarrow> secrets_state" where
  "sm_NewStore d clock = \<lparr>ss_db = d, ss_clock = clock, ss_offset = 0, ss_sent = []\<rparr>"

lemma sm_inv_NewStore: "db_inv d \<Longrightarrow> db_reliable d \<Longrightarrow> db_view d = Map.empty \<Longrightarrow> sm_inv (sm_NewStore d clock)"
  by (simp add: sm_NewStore_def sdb_ok_def view_ok_def)

end
