(* ===== verification/Secrets_Promises.thy ===== *)
theory Secrets_Promises
  imports Secrets_Laws
begin

text \<open>
  What Secret Manager's store promises its callers, as properties of its operations: the records
  stay together, a destroyed version is gone for good, an added version reads back, and names lead back to
  what they name, with two exceptions.
\<close>

section \<open>The records stay together\<close>


text \<open>A store with one secret that has one version, for the examples.\<close>

definition demo_env :: sm_env where
  "demo_env = \<lparr>env_Publish = None, env_Keys = None, env_sha256 = id, env_dek = replicate 32 (CHR ''k''),
     env_nonce = replicate 12 (CHR ''n''), env_policy_etag = [], env_Seal = (\<lambda>k n t a. t),
     env_Open = (\<lambda>k n t a. Some t), env_LogType = (\<lambda>n. None)\<rparr>"

definition demo_secret :: secret where
  "demo_secret = \<lparr>sc_Name = ''projects/p/secrets/s'', sc_Created = Hour, sc_Labels = [], sc_Annotations = [],
     sc_Replication = ''automatic'', sc_ReplicaLocations = [], sc_KMSKeys = [], sc_NextVersion = 2, sc_Etag = [],
     sc_IAMPolicy = None, sc_Expire = zero_time, sc_Topics = [], sc_NextRotation = zero_time, sc_RotationPeriod = 0,
     sc_VersionDestroyTTL = 0, sc_ScheduledDestroys = []\<rparr>"

definition demo_version :: "version_state \<Rightarrow> string \<Rightarrow> secret_version" where
  "demo_version st payload = \<lparr>sv_Name = ''projects/p/secrets/s/versions/1'', sv_Number = 1, sv_State = st, sv_Created = Hour,
     sv_Destroyed = zero_time, sv_ScheduledDestroy = zero_time, sv_Payload = payload, sv_PayloadSize = 0, sv_Etag = [],
     sv_Replicas = [], sv_ClientChecksum = False\<rparr>"

definition demo_store :: "secret \<Rightarrow> secret_version \<Rightarrow> secrets_state" where
  "demo_store x v = \<lparr>ss_db = MemDB \<lparr>mem_data = [(''secret/p/s'', SSecret x), (''version/p/s/0000000001'', SVersion v)]\<rparr>,
     ss_clock = sconst (2 * Hour), ss_offset = 0, ss_sent = []\<rparr>"

lemma demo_keys:
  "secretKey ''p'' ''s'' = ''secret/p/s''" "versionKey ''p'' ''s'' 1 = ''version/p/s/0000000001''"
  "SecretName ''p'' ''s'' = ''projects/p/secrets/s''" "VersionName ''p'' ''s'' 1 = ''projects/p/secrets/s/versions/1''"
  "SafeKey ''secret/p/s''" "SafeKey ''version/p/s/0000000001''" "ValidateSecretID ''s'' = Inr ()"
  "Atoi ''1'' = Some 1"
  by code_simp+

lemma demo_store_view:
  "ss_view (demo_store x v) = (\<lambda>k. if k = ''secret/p/s'' then Some (SSecret x)
     else if k = ''version/p/s/0000000001'' then Some (SVersion v) else None)"
  by (simp add: demo_store_def mem_view_def fun_eq_iff)

lemma demo_store_inv:
  assumes "secret_ok ''p'' ''s'' x" "version_ok ''p'' ''s'' v" "sv_Number v = 1" "1 < sc_NextVersion x"
  shows "sm_inv (demo_store x v)"
proof -
  have n: "names_ok ''p'' ''s''" by (simp add: names_ok_def demo_keys)
  have "view_ok (Map.empty(secretKey ''p'' ''s'' \<mapsto> SSecret x, versionKey ''p'' ''s'' (sv_Number v) \<mapsto> SVersion v))"
    using assms n by (intro view_ok_put_version view_ok_put_secret) (auto simp: demo_keys view_ok_def)
  also have "\<dots> = ss_view (demo_store x v)"
    by (auto simp: demo_store_view assms(3) demo_keys fun_eq_iff)
  finally show ?thesis
    by (simp add: sdb_ok_def demo_store_def mem_inv_def gomap_ok_def)
qed

lemma demo_secret_ok: "secret_ok ''p'' ''s'' demo_secret"
  by (simp add: secret_ok_def demo_secret_def demo_keys replication_ok_def schedule_ok_def gokeys_def)

lemma demo_version_ok: "st \<noteq> VersionDestroyed \<or> payload = [] \<Longrightarrow> version_ok ''p'' ''s'' (demo_version st payload)"
  by (auto simp: version_ok_def demo_version_def demo_keys destroyed_ok_def)

text \<open>C3: Secret Manager keeps its records together. Over a store that does not fail, whatever operations run in
  whatever order, every stored version belongs to a stored secret that has handed out its number, bears the name of
  its place, and holds no payload and no wrapped key once it is destroyed; and every stored secret rotates only with
  topics to tell and keeps its periods within the documented limits.\<close>

theorem secrets_stay_consistent:
  assumes "sm_inv s" "list_all (\<lambda>x. op_names_ok (snd x)) ops" "no_slash p" "no_slash i" "0 \<le> n"
  shows "(case ss_view (sm_runs ops s) (versionKey p i n) of
      None \<Rightarrow> True
    | Some (SSecret x) \<Rightarrow> False
    | Some (SVersion v) \<Rightarrow>
        sv_Name v = VersionName p i n \<and> sv_Number v = n \<and>
        (sv_State v = VersionDestroyed \<longrightarrow> sv_Payload v = [] \<and> list_all (\<lambda>r. rs_WrappedKey r = []) (sv_Replicas v)) \<and>
        (\<exists>sec. ss_view (sm_runs ops s) (secretKey p i) = Some (SSecret sec) \<and> 1 \<le> n \<and> n < sc_NextVersion sec)) \<and>
    (case ss_view (sm_runs ops s) (secretKey p i) of
      None \<Rightarrow> True
    | Some (SVersion v) \<Rightarrow> False
    | Some (SSecret sec) \<Rightarrow>
        sc_Name sec = SecretName p i \<and> (sc_NextRotation sec \<noteq> zero_time \<longrightarrow> sc_Topics sec \<noteq> []) \<and>
        (sc_RotationPeriod sec = 0 \<or> MinRotationPeriod \<le> sc_RotationPeriod sec \<and> sc_RotationPeriod sec \<le> MaxRotation))"
proof -
  have inv: "view_ok (ss_view (sm_runs ops s))" using sm_runs_inv [OF assms(1,2)] by (simp add: sdb_ok_def)
  have "case ss_view (sm_runs ops s) (versionKey p i n) of None \<Rightarrow> True | Some (SSecret x) \<Rightarrow> False
    | Some (SVersion v) \<Rightarrow>
        sv_Name v = VersionName p i n \<and> sv_Number v = n \<and>
        (sv_State v = VersionDestroyed \<longrightarrow> sv_Payload v = [] \<and> list_all (\<lambda>r. rs_WrappedKey r = []) (sv_Replicas v)) \<and>
        (\<exists>sec. ss_view (sm_runs ops s) (secretKey p i) = Some (SSecret sec) \<and> 1 \<le> n \<and> n < sc_NextVersion sec)"
  proof (cases "ss_view (sm_runs ops s) (versionKey p i n)")
    case (Some d)
    show ?thesis
      by (rule view_versionD [OF inv Some assms(3-5)]) (use Some in \<open>auto simp: version_ok_def destroyed_ok_def\<close>)
  qed simp
  moreover have "case ss_view (sm_runs ops s) (secretKey p i) of None \<Rightarrow> True | Some (SVersion v) \<Rightarrow> False
    | Some (SSecret sec) \<Rightarrow>
        sc_Name sec = SecretName p i \<and> (sc_NextRotation sec \<noteq> zero_time \<longrightarrow> sc_Topics sec \<noteq> []) \<and>
        (sc_RotationPeriod sec = 0 \<or> MinRotationPeriod \<le> sc_RotationPeriod sec \<and> sc_RotationPeriod sec \<le> MaxRotation)"
  proof (cases "ss_view (sm_runs ops s) (secretKey p i)")
    case (Some d)
    show ?thesis
      by (rule view_secretD [OF inv Some assms(3)]) (use Some in \<open>auto simp: secret_ok_def schedule_ok_def\<close>)
  qed simp
  ultimately show ?thesis ..
qed

text \<open>The calls of the operations on that store.\<close>

definition demo_etag :: "sm_env \<Rightarrow> string" where
  "demo_etag E = CHR 0x22 # take 16 (env_sha256 E (int_dec (to_int64 (2 * Hour - unix_epoch)))) @ [CHR 0x22]"

lemma demo_calls:
  "sm_now (demo_store x v) = (Inr (2 * Hour), demo_store x v)"
  "sm_etag E (demo_store x v) = (Inr (demo_etag E), demo_store x v)"
  "sm_read_secret (demo_store x v) ''secret/p/s'' = Inr x"
  "sm_read_version (demo_store x v) ''version/p/s/0000000001'' = Inr v"
  "sdoc_Marshal (SSecret y) = Some (SSecret y) \<Longrightarrow> sm_put ''secret/p/s'' (SSecret y) (demo_store x v) = (Inr (), demo_store y v)"
  "sdoc_Marshal (SVersion w) = Some (SVersion w) \<Longrightarrow>
   sm_put ''version/p/s/0000000001'' (SVersion w) (demo_store x v) = (Inr (), demo_store x w)"
  by (simp_all add: demo_store_def demo_etag_def sm_now_def sm_etag_def sm_then_def sm_ok_def sm_read_secret_def
      sm_read_version_def sm_put_def Memory_Get_def Memory_Put_def Memory_Commit_def checkKey_def demo_keys)

lemma demo_getSecret:
  "\<not> Expired x (2 * Hour) \<Longrightarrow> getSecret E ''p'' ''s'' (demo_store x v) = (Inr x, demo_store x v)"
  by (simp add: getSecret_def demo_keys demo_calls sm_then_def sm_ok_def)

lemma demo_destroyed:
  "sm_runs [(demo_env, OpDestroyVersion ''p'' ''s'' ''1'')] (demo_store demo_secret (demo_version VersionEnabled ''x'')) =
   demo_store demo_secret (destroyed_version (demo_version VersionEnabled ''x'') (2 * Hour) (demo_etag demo_env))"
proof -
  let ?v = "demo_version VersionEnabled ''x''"
  have live: "\<not> Expired demo_secret (2 * Hour)" by (simp add: Expired_def demo_secret_def)
  have "sdoc_Marshal (SVersion (destroyed_version ?v (2 * Hour) (demo_etag demo_env))) = Some (SVersion (destroyed_version ?v (2 * Hour) (demo_etag demo_env)))"
    by (simp add: destroyed_version_def demo_version_def time_json_ok_def nanos_per_day_def Hour_def)
  moreover have "sv_State ?v = VersionEnabled" "sv_ScheduledDestroy ?v = zero_time" "sv_Number ?v = 1" "sc_VersionDestroyTTL demo_secret = 0"
      "sv_Number (destroyed_version ?v (2 * Hour) (demo_etag demo_env)) = 1" "sc_Topics demo_secret = []"
    by (simp_all add: demo_version_def demo_secret_def destroyed_version_def)
  ultimately show ?thesis
    by (simp add: sm_runs_def DestroyVersion_def resolveVersion_def getVersion_def destroyNow_def destroyNowQuiet_def
        notifyVersion_def notify_def demo_getSecret [OF live] demo_calls demo_keys LatestAlias_def sm_then_def sm_ok_def
        sm_require_def Let_def)
qed

theorem secrets_stay_consistent_witness:
  "sv_Payload (destroyed_version (demo_version VersionEnabled ''x'') (2 * Hour) (demo_etag demo_env)) = [] \<and>
   ss_view (sm_runs [(demo_env, OpDestroyVersion ''p'' ''s'' ''1'')] (demo_store demo_secret (demo_version VersionEnabled ''x'')))
     (versionKey ''p'' ''s'' 1) =
     Some (SVersion (destroyed_version (demo_version VersionEnabled ''x'') (2 * Hour) (demo_etag demo_env)))"
proof -
  have "sm_inv (demo_store demo_secret (demo_version VersionEnabled ''x''))"
    by (rule demo_store_inv) (simp_all add: demo_secret_ok demo_version_ok, simp_all add: demo_version_def demo_secret_def)
  from secrets_stay_consistent [OF this, of "[(demo_env, OpDestroyVersion ''p'' ''s'' ''1'')]" "''p''" "''s''" 1]
  show ?thesis by (simp add: demo_destroyed demo_store_view demo_keys destroyed_version_def)
qed

section \<open>A destroyed version is gone for good\<close>

lemma Atoi_int_dec: "0 \<le> n \<Longrightarrow> n < 2 ^ 63 \<Longrightarrow> Atoi (int_dec n) = Some n"
proof -
  assume n: "0 \<le> n" "n < 2 ^ 63"
  have d: "list_all is_digit (nat_dec (nat n))" using nat_dec_digits by (simp add: list_all_iff)
  then have "is_digit (hd (nat_dec (nat n)))" by (simp add: list_all_iff)
  then have "hd (nat_dec (nat n)) \<noteq> CHR ''-''" "hd (nat_dec (nat n)) \<noteq> CHR ''+''"
    by (auto simp: is_digit_def less_eq_char_def)
  with n d show ?thesis by (simp add: Atoi_def int_dec_def Let_def)
qed

lemma destroyed_run:
  assumes "sm_inv s" "list_all (\<lambda>x. op_names_ok (snd x)) ops" "no_slash p" "no_slash i" "0 \<le> n"
    and "ss_view s (versionKey p i n) = Some (SVersion v)" "sv_State v = VersionDestroyed"
    and "\<And>j. ss_view (sm_runs (take j ops) s) (versionKey p i n) \<noteq> None"
  shows "ss_view (sm_runs ops s) (versionKey p i n) = Some (SVersion v)"
  using assms
proof (induction ops arbitrary: s)
  case Nil
  then show ?case by (simp add: sm_runs_def)
next
  case (Cons x xs)
  let ?s = "sm_run (fst x) (snd x) s" and ?k = "versionKey p i n"
  have step: "sm_inv ?s" "destroyed_kept (ss_view s) (ss_view ?s)"
    using sm_run_step [of s "snd x" "fst x"] Cons.prems(1,2) by auto
  have "ss_view ?s ?k \<noteq> None" using Cons.prems(8) [of 1] by (simp add: sm_runs_def case_prod_beta)
  then obtain d where d: "ss_view ?s ?k = Some d" by blast
  have "\<exists>w. d = SVersion w"
    by (rule view_versionD [of "ss_view ?s" p i n d]) (use step(1) d Cons.prems(3-5) in \<open>auto simp: sdb_ok_def\<close>)
  with d step(2) Cons.prems(6,7) have v: "ss_view ?s ?k = Some (SVersion v)"
    unfolding destroyed_kept_def by metis
  have "ss_view (sm_runs (take j xs) ?s) ?k \<noteq> None" for j
    using Cons.prems(8) [of "Suc j"] by (simp add: sm_runs_def case_prod_beta)
  from Cons.IH [OF step(1) _ Cons.prems(3-5) v Cons.prems(7) this] Cons.prems(2) show ?case
    by (simp add: sm_runs_def case_prod_beta)
qed

text \<open>An access that succeeds found an enabled version.\<close>

lemma access_enabled:
  assumes "sm_inv s" "no_slash p" "no_slash i" "0 \<le> n" "n < 2 ^ 63" "fst (AccessVersion E p i (int_dec n) s) = Inr w"
  shows "\<exists>v. ss_view s (versionKey p i n) = Some (SVersion v) \<and> sv_State v = VersionEnabled"
proof -
  have "int_dec n \<noteq> LatestAlias"
    using nat_dec_digits [of "CHR ''l''" "nat n"] assms(4)
    by (auto simp: int_dec_def LatestAlias_def is_digit_def less_eq_char_def)
  then have "sm_wp (AccessVersion E p i (int_dec n))
      (\<lambda>r s'. \<not> isl r \<longrightarrow> (\<exists>v. ss_view s (versionKey p i n) = Some (SVersion v) \<and> sv_State v = VersionEnabled)) s"
    unfolding AccessVersion_def resolveVersion_def Atoi_int_dec [OF assms(4,5)] option.case using assms(1-4)
    by (intro sm_rules) (auto simp: Accessible_def intro!: sm_rules)
  then show ?thesis using assms(6) by (simp add: sm_wp_def)
qed

text \<open>C8: A destroyed version is gone for good. As long as its record exists, no operation changes it: it stays
  destroyed and holds no payload, and no access to it succeeds, with whatever keys and messages around it.\<close>

theorem destroyed_version_is_final:
  assumes "sm_inv s" "list_all (\<lambda>x. op_names_ok (snd x)) ops" "no_slash p" "no_slash i" "0 \<le> n" "n < 2 ^ 63"
    and "ss_view s (versionKey p i n) = Some (SVersion v)" "sv_State v = VersionDestroyed"
    and "\<And>j. ss_view (sm_runs (take j ops) s) (versionKey p i n) \<noteq> None"
  shows "ss_view (sm_runs ops s) (versionKey p i n) = Some (SVersion v) \<and> sv_Payload v = [] \<and>
    isl (fst (AccessVersion E p i (int_dec n) (sm_runs ops s)))"
proof -
  have v: "ss_view (sm_runs ops s) (versionKey p i n) = Some (SVersion v)"
    by (rule destroyed_run) (use assms in auto)
  moreover have "sv_Payload v = []"
    by (rule view_versionD [of "ss_view s" p i n "SVersion v"])
      (use assms in \<open>auto simp: sdb_ok_def version_ok_def destroyed_ok_def\<close>)
  moreover have "isl (fst (AccessVersion E p i (int_dec n) (sm_runs ops s)))"
    using access_enabled [OF sm_runs_inv [OF assms(1,2)] assms(3-6), of E] v assms(8)
    by (cases "fst (AccessVersion E p i (int_dec n) (sm_runs ops s))") auto
  ultimately show ?thesis by blast
qed

theorem destroyed_version_is_final_witness:
  "isl (fst (AccessVersion demo_env ''p'' ''s'' (int_dec 1)
    (sm_runs [(demo_env, OpSetVersionState ''p'' ''s'' ''1'' VersionEnabled)] (demo_store demo_secret (demo_version VersionDestroyed [])))))"
proof -
  let ?s = "demo_store demo_secret (demo_version VersionDestroyed [])"
  let ?ops = "[(demo_env, OpSetVersionState ''p'' ''s'' ''1'' VersionEnabled)]"
  have inv: "sm_inv ?s"
    by (rule demo_store_inv) (simp_all add: demo_secret_ok demo_version_ok, simp_all add: demo_version_def demo_secret_def)
  have live: "\<not> Expired demo_secret (2 * Hour)" by (simp add: Expired_def demo_secret_def)
  have run: "sm_runs ?ops ?s = ?s"
    by (simp add: sm_runs_def SetVersionState_def resolveVersion_def getVersion_def demo_getSecret [OF live] demo_calls demo_keys
        LatestAlias_def sm_then_def sm_ok_def sm_require_def Let_def) (simp add: demo_version_def)
  have "sm_runs (take j ?ops) ?s = ?s" for j by (cases j) (simp_all add: run, simp add: sm_runs_def)
  then show ?thesis
    using destroyed_version_is_final [OF inv, of ?ops "''p''" "''s''" 1 "demo_version VersionDestroyed []" demo_env]
    by (simp add: run demo_store_view demo_keys) (simp add: demo_version_def)
qed

section \<open>An added version reads back\<close>

text \<open>
  What sealing and opening rely on: the data key and the nonce have their sizes, \<open>Open\<close> undoes \<open>Seal\<close>
  under the same key, nonce and additional data, and Cloud KMS decrypts what it encrypted.
\<close>

definition keys_work :: "sm_env \<Rightarrow> sm_env \<Rightarrow> bool" where
  "keys_work E E' \<longleftrightarrow>
     length (env_dek E) = 32 \<and> length (env_nonce E) = NonceSize \<and>
     (\<forall>k n t a. env_Open E' k n (env_Seal E k n t a) a = Some t) \<and>
     (\<forall>K. env_Keys E = Some K \<longrightarrow>
       (\<exists>K'. env_Keys E' = Some K' \<and>
         (\<forall>j key t a nm ct. ks_Encrypt K j key t a = Some (nm, ct) \<longrightarrow> ks_Decrypt K' key ct a = Some t)))"

lemma wrapped_keys:
  "wrap_replicas K dek aad keys j rs0 = Inr rs \<Longrightarrow> list_all (\<lambda>r. rs_KMSKey r = []) rs0 \<Longrightarrow>
   map rs_KMSKey rs = map (\<lambda>k. if j + k < length keys then keys ! (j + k) else []) [0..<length rs0]"
proof (induction rs0 arbitrary: j rs)
  case (Cons r rs0)
  have upt: "map f [0..<Suc m] = f 0 # map (\<lambda>k. f (Suc k)) [0..<m]" for f :: "nat \<Rightarrow> string" and m
    by (simp add: upt_conv_Cons map_Suc_upt [symmetric] del: upt_Suc)
  obtain r' rs' where rs: "rs = r' # rs'" "wrap_replicas K dek aad keys (Suc j) rs0 = Inr rs'"
      "rs_KMSKey r' = (if j < length keys then keys ! j else [])"
    using Cons.prems by (auto split: if_splits option.splits sum.splits simp: map_sum_def)
  with Cons.IH [OF rs(2)] Cons.prems(2) show ?case
    by (simp add: upt del: upt_Suc)
qed simp

lemma unwrapped_key:
  assumes "\<And>j key t a nm ct. ks_Encrypt K j key t a = Some (nm, ct) \<Longrightarrow> ks_Decrypt K' key ct a = Some t"
  shows "wrap_replicas K dek aad keys j rs0 = Inr rs \<Longrightarrow> list_all (\<lambda>r. rs_KMSKey r = []) rs0 \<Longrightarrow>
   unwrap_replicas K' aad d rs = Inr (if list_ex (\<lambda>r. rs_KMSKey r \<noteq> []) rs then dek else d)"
proof (induction rs0 arbitrary: j rs d)
  case (Cons r rs0)
  then show ?case
    by (auto split: if_splits option.splits sum.splits simp: map_sum_def dest: assms)
qed simp

lemma new_replicas_unkeyed: "list_all (\<lambda>r. rs_KMSKey r = []) (map new_replica ls)"
  by (simp add: list_all_iff new_replica_def)

lemma opened_version:
  assumes v: "sealVersion E sec v0 payload = Inr v" and sec: "replication_ok sec" and E: "keys_work E E'"
  shows "openVersion E' v = Inr (v\<lparr>sv_Payload := payload\<rparr>)"
proof (cases "hasKeys (sc_KMSKeys sec)")
  case False
  then have "v = v0\<lparr>sv_Replicas := map new_replica (if sc_Replication sec \<noteq> ''user-managed'' then [[]] else sc_ReplicaLocations sec),
      sv_Payload := payload\<rparr>"
    using v by (simp add: sealVersion_def Let_def split: if_splits)
  moreover from this have "\<not> encrypted v" by (auto simp: encrypted_def list_ex_iff new_replica_def)
  ultimately show ?thesis by (simp add: openVersion_def)
next
  case True
  let ?ls = "if sc_Replication sec \<noteq> ''user-managed'' then [[]] else sc_ReplicaLocations sec"
  from v True obtain K sealed rs where K: "env_Keys E = Some K" "sealPayload E (env_dek E) payload (sv_Name v0) = Some sealed"
      "wrap_replicas K (env_dek E) (sv_Name v0) (sc_KMSKeys sec) 0 (map new_replica ?ls) = Inr rs"
      "v = v0\<lparr>sv_Replicas := rs, sv_Payload := sealed, sv_PayloadSize := int (length payload)\<rparr>"
    by (auto simp: sealVersion_def Let_def split: option.splits sum.splits if_splits)
  from E K(1) obtain K' where K': "env_Keys E' = Some K'"
      "\<And>j key t a nm ct. ks_Encrypt K j key t a = Some (nm, ct) \<Longrightarrow> ks_Decrypt K' key ct a = Some t"
    unfolding keys_work_def by blast
  have len: "length (sc_KMSKeys sec) = length ?ls"
    using sec True by (auto simp: replication_ok_def replica_count_def hasKeys_def)
  have "map rs_KMSKey rs = sc_KMSKeys sec"
    using wrapped_keys [OF K(3) new_replicas_unkeyed] len by (auto intro!: nth_equalityI)
  then have enc: "list_ex (\<lambda>r. rs_KMSKey r \<noteq> []) rs"
    using True by (metis (no_types, lifting) hasKeys_def list_ex_iff in_set_conv_nth length_map nth_map)
  have "unwrap_replicas K' (sv_Name v0) [] rs = Inr (env_dek E)"
    using unwrapped_key [OF K'(2) K(3) new_replicas_unkeyed] enc by simp
  moreover have "openPayload E' (env_dek E) sealed (sv_Name v0) = Some payload"
    using K(2) E by (auto simp: sealPayload_def openPayload_def payloadAEAD_def keys_work_def split: if_splits)
  ultimately show ?thesis using K(4) K'(1) enc by (simp add: openVersion_def encrypted_def)
qed

text \<open>What a successful \<open>addVersion\<close> leaves.\<close>

lemma added_version:
  assumes "sm_inv s" "no_slash p" "no_slash i" "addVersion E p i payload c s = (Inr v, s')"
  obtains sec v0 where "sm_inv s'" "sealVersion E sec v0 payload = Inr v" "secret_ok p i sec" "names_ok p i"
    "sv_Number v = sc_NextVersion sec" "sv_State v = VersionEnabled"
    "\<exists>e. ss_view s' = (ss_view s)(secretKey p i \<mapsto> SSecret (sec\<lparr>sc_NextVersion := sc_NextVersion sec + 1, sc_Etag := e\<rparr>),
       versionKey p i (sc_NextVersion sec) \<mapsto> SVersion v)"
proof -
  let ?K = "\<lambda>r s'. \<forall>v. r = Inr v \<longrightarrow> (\<exists>sec v0. sm_inv s' \<and> sealVersion E sec v0 payload = Inr v \<and> secret_ok p i sec \<and> names_ok p i \<and>
    sv_Number v = sc_NextVersion sec \<and> sv_State v = VersionEnabled \<and>
    (\<exists>e. ss_view s' = (ss_view s)(secretKey p i \<mapsto> SSecret (sec\<lparr>sc_NextVersion := sc_NextVersion sec + 1, sc_Etag := e\<rparr>),
       versionKey p i (sc_NextVersion sec) \<mapsto> SVersion v)))"
  have new: "sv_State v = VersionEnabled" if "sealVersion E sec (new_version p i n t e c) payload = Inr v" for sec n t e v
    using sealVersion_fields [OF that] by (simp add: new_version_def)
  have "sm_wp (addVersion E p i payload c) ?K s"
    unfolding addVersion_def using assms(1-3)
    by (intro sm_rules) (auto dest: version_ok_new new intro: secret_ok_next)
  then show thesis using assms(4) that by (auto simp: sm_wp_def)
qed

text \<open>The highest number a secret has handed out is its latest version.\<close>

lemma wp_latest:
  assumes "sm_inv s" "names_ok p i" "ss_view s (secretKey p i) = Some (SSecret sec)"
    and "ss_view s (versionKey p i (sc_NextVersion sec - 1)) = Some (SVersion v)"
    and "\<And>s'. ss_db s' = ss_db s \<Longrightarrow> K (Inr (sc_NextVersion sec - 1)) s'"
    and "\<And>s'. Expired sec (shd (ss_clock s) + ss_offset s) \<Longrightarrow> K (Inl NotFound) s'"
  shows "sm_wp (resolveVersion E p i LatestAlias) K s"
proof -
  have slash: "no_slash p" "no_slash i" using assms(2) by (auto simp: names_ok_def)
  have n: "1 \<le> sc_NextVersion sec - 1" "sv_Number v = sc_NextVersion sec - 1"
  proof -
    have "1 \<le> sc_NextVersion sec"
      using assms(1,3) slash view_secretD [of "ss_view s" p i "SSecret sec"] by (auto simp: sdb_ok_def secret_ok_def)
    then show "1 \<le> sc_NextVersion sec - 1" "sv_Number v = sc_NextVersion sec - 1"
      using version_number [OF assms(1) slash _ assms(4)] by (auto simp: version_ok_def)
  qed
  have best: "vs \<noteq> [] \<and> sv_Number (best_version vs) = sc_NextVersion sec - 1"
    if vs: "set vs = {v. \<exists>n. 1 \<le> n \<and> ss_view s (versionKey p i n) = Some (SVersion v)}" for vs
  proof -
    have v: "v \<in> set vs" using vs assms(4) n by blast
    then have ne: "vs \<noteq> []" by auto
    note b = best_version_in [OF this]
    then obtain m where m: "1 \<le> m" "ss_view s (versionKey p i m) = Some (SVersion (best_version vs))" using vs by blast
    then have "sv_Number (best_version vs) \<le> sc_NextVersion sec - 1"
      using version_number [OF assms(1) slash _ m(2)] assms(3) by auto
    with b v n(2) ne show ?thesis by fastforce
  qed
  show ?thesis
  proof (cases "Expired sec (shd (ss_clock s) + ss_offset s)")
    case True
    have "sm_wp (getSecret E p i) (sm_rest f K) s" for f
      using assms(1,3) slash True assms(6) by (intro wp_getSecret) (auto intro!: sm_rules)
    then show ?thesis unfolding resolveVersion_def by (intro wp_then)
  next
    case False
    show ?thesis
      unfolding resolveVersion_def
    proof (intro wp_then, rule wp_eq [THEN iffD2])
      show "getSecret E p i s = (Inr sec, s\<lparr>ss_clock := stl (ss_clock s)\<rparr>)"
        using False assms(1,3)
        by (simp add: getSecret_def read_secret_iff [THEN iffD2] sm_then_def sm_now_def sm_ok_def)
    qed (use assms(1,4) slash n(1) in \<open>auto intro!: sm_rules assms(5) dest!: best\<close>)
  qed
qed

text \<open>C15: A version that was added reads back. Whether its payload is kept as it is or sealed under customer-managed
  keys, an access to the latest version right after \<open>AddSecretVersion\<close> returns the payload that was added, under the
  name and number the addition answered with; only a secret that has expired by then is not found.\<close>

theorem added_version_reads_back:
  assumes "sm_inv s" "no_slash p" "no_slash i" "addVersion E p i payload c s = (Inr v, s')" "keys_work E E'"
  shows "fst (AccessVersion E' p i LatestAlias s') = Inr (v\<lparr>sv_Payload := payload\<rparr>) \<or>
    fst (AccessVersion E' p i LatestAlias s') = Inl NotFound \<and>
    (\<exists>sec. ss_view s' (secretKey p i) = Some (SSecret sec) \<and> Expired sec (shd (ss_clock s') + ss_offset s'))"
proof -
  obtain sec v0 e where inv: "sm_inv s'" and v: "sealVersion E sec v0 payload = Inr v" "secret_ok p i sec" "names_ok p i"
      "sv_Number v = sc_NextVersion sec" "sv_State v = VersionEnabled"
    and view: "ss_view s' = (ss_view s)(secretKey p i \<mapsto> SSecret (sec\<lparr>sc_NextVersion := sc_NextVersion sec + 1, sc_Etag := e\<rparr>),
       versionKey p i (sc_NextVersion sec) \<mapsto> SVersion v)"
    using added_version [OF assms(1-4)] by metis
  let ?sec = "sec\<lparr>sc_NextVersion := sc_NextVersion sec + 1, sc_Etag := e\<rparr>"
  have opened: "openVersion E' v = Inr (v\<lparr>sv_Payload := payload\<rparr>)"
    using opened_version [OF v(1) _ assms(5)] v(2) by (simp add: secret_ok_def)
  have at_n: "ss_view s' (versionKey p i (sc_NextVersion ?sec - 1)) = Some (SVersion v)" "ss_view s' (secretKey p i) = Some (SSecret ?sec)"
    by (simp_all add: view)
  let ?K = "\<lambda>r s''. r = Inr (v\<lparr>sv_Payload := payload\<rparr>) \<or> r = Inl NotFound \<and> Expired ?sec (shd (ss_clock s') + ss_offset s')"
  have "sm_wp (AccessVersion E' p i LatestAlias) ?K s'"
    unfolding AccessVersion_def
  proof (intro wp_then wp_latest [OF inv v(3) at_n(2,1)] rest_intros)
    fix s'' :: secrets_state
    assume db: "ss_db s'' = ss_db s'"
    have "sm_read_version s'' (versionKey p i (sc_NextVersion sec)) = Inr v"
      using db inv at_n(1) by (simp add: read_version_iff)
    then show "sm_wp (getVersion p i (sc_NextVersion ?sec - 1)) (sm_rest (\<lambda>v. sm_then (sm_require (Accessible v) FailedPrecondition)
        (\<lambda>_. sm_lift (openVersion E' v))) ?K) s''"
      using v(5) opened
      by (simp add: sm_wp_def getVersion_def sm_rest_def sm_then_def sm_require_def sm_lift_def Accessible_def)
  qed simp
  then show ?thesis using at_n(2) by (auto simp: sm_wp_def)
qed

text \<open>The same secret with a customer-managed key and no version yet, and a key service that seals nothing.\<close>

definition demo_cmek_env :: sm_env where
  "demo_cmek_env = demo_env\<lparr>env_Keys := Some \<lparr>ks_Encrypt = (\<lambda>j key t a. Some (''1'', t)), ks_Decrypt = (\<lambda>key ct a. Some ct)\<rparr>\<rparr>"

definition demo_cmek_secret :: secret where
  "demo_cmek_secret = demo_secret\<lparr>sc_KMSKeys := [''k''], sc_NextVersion := 1\<rparr>"

definition demo_cmek_store :: "secret \<Rightarrow> secrets_state" where
  "demo_cmek_store x = \<lparr>ss_db = MemDB \<lparr>mem_data = [(''secret/p/s'', SSecret x)]\<rparr>,
     ss_clock = sconst (2 * Hour), ss_offset = 0, ss_sent = []\<rparr>"

definition demo_cmek_version :: secret_version where
  "demo_cmek_version = (new_version ''p'' ''s'' 1 (2 * Hour) (demo_etag demo_cmek_env) False)
     \<lparr>sv_Payload := replicate 12 (CHR ''n'') @ ''x'', sv_PayloadSize := 1,
      sv_Replicas := [\<lparr>rs_Location = [], rs_KMSKey = ''k'', rs_KeyVersion = ''1'', rs_WrappedKey = replicate 32 (CHR ''k'')\<rparr>]\<rparr>"

lemma demo_cmek_inv: "sm_inv (demo_cmek_store demo_cmek_secret)"
proof -
  have "secret_ok ''p'' ''s'' demo_cmek_secret"
    by (simp add: secret_ok_def demo_cmek_secret_def demo_secret_def demo_keys replication_ok_def schedule_ok_def gokeys_def
        hasKeys_def replica_count_def)
  then have "view_ok (Map.empty(secretKey ''p'' ''s'' \<mapsto> SSecret demo_cmek_secret))"
    by (intro view_ok_put_secret) (auto simp: names_ok_def demo_keys view_ok_def)
  also have "Map.empty(secretKey ''p'' ''s'' \<mapsto> SSecret demo_cmek_secret) = ss_view (demo_cmek_store demo_cmek_secret)"
    by (auto simp: demo_cmek_store_def mem_view_def demo_keys fun_eq_iff)
  finally show ?thesis
    by (simp add: sdb_ok_def demo_cmek_store_def mem_inv_def gomap_ok_def)
qed

lemma demo_cmek_calls:
  "sm_now (demo_cmek_store x) = (Inr (2 * Hour), demo_cmek_store x)"
  "sm_etag E (demo_cmek_store x) = (Inr (demo_etag E), demo_cmek_store x)"
  "sm_read_secret (demo_cmek_store x) ''secret/p/s'' = Inr x"
  "sdoc_Marshal (SSecret y) = Some (SSecret y) \<Longrightarrow> sm_put ''secret/p/s'' (SSecret y) (demo_cmek_store x) = (Inr (), demo_cmek_store y)"
  "sdoc_Marshal (SVersion w) = Some (SVersion w) \<Longrightarrow>
   sm_put ''version/p/s/0000000001'' (SVersion w) (demo_cmek_store x) = (Inr (), demo_store x w)"
  by (simp_all add: demo_store_def demo_cmek_store_def demo_etag_def sm_now_def sm_etag_def sm_then_def sm_ok_def
      sm_read_secret_def sm_put_def Memory_Get_def Memory_Put_def Memory_Commit_def checkKey_def demo_keys)

lemma demo_cmek_sealed:
  "sealVersion demo_cmek_env demo_cmek_secret (new_version ''p'' ''s'' 1 (2 * Hour) (demo_etag demo_cmek_env) False) ''x'' = Inr demo_cmek_version"
  by (simp add: sealVersion_def demo_cmek_env_def demo_env_def demo_cmek_secret_def demo_secret_def hasKeys_def sealPayload_def
      payloadAEAD_def new_replica_def demo_cmek_version_def new_version_def Let_def)

lemma demo_cmek_added:
  "addVersion demo_cmek_env ''p'' ''s'' ''x'' False (demo_cmek_store demo_cmek_secret) =
   (Inr demo_cmek_version,
    demo_store (demo_cmek_secret\<lparr>sc_NextVersion := 2, sc_Etag := demo_etag demo_cmek_env\<rparr>) demo_cmek_version)"
proof -
  have x: "\<not> Expired demo_cmek_secret (2 * Hour)" "sc_NextVersion demo_cmek_secret = 1" "sc_Topics demo_cmek_secret = []"
      "sdoc_Marshal (SSecret (demo_cmek_secret\<lparr>sc_NextVersion := 2, sc_Etag := e\<rparr>)) =
       Some (SSecret (demo_cmek_secret\<lparr>sc_NextVersion := 2, sc_Etag := e\<rparr>))" for e
    by (simp_all add: Expired_def demo_cmek_secret_def demo_secret_def time_json_ok_def nanos_per_day_def Hour_def)
  have v: "sdoc_Marshal (SVersion demo_cmek_version) = Some (SVersion demo_cmek_version)"
    by (simp add: demo_cmek_version_def new_version_def time_json_ok_def nanos_per_day_def Hour_def)
  have "getSecret demo_cmek_env ''p'' ''s'' (demo_cmek_store demo_cmek_secret) = (Inr demo_cmek_secret, demo_cmek_store demo_cmek_secret)"
    by (simp add: getSecret_def demo_keys demo_cmek_calls sm_then_def sm_ok_def x)
  then show ?thesis
    by (simp add: addVersion_def sm_then_def sm_require_def sm_ok_def sm_lift_def MaxPayloadBytes_def Let_def demo_cmek_calls
        demo_cmek_sealed x(2-) v demo_keys notify_def del: sdoc_Marshal.simps)
qed

theorem added_version_reads_back_witness:
  "fst (AccessVersion demo_cmek_env ''p'' ''s'' LatestAlias
     (snd (addVersion demo_cmek_env ''p'' ''s'' ''x'' False (demo_cmek_store demo_cmek_secret)))) =
   Inr (demo_cmek_version\<lparr>sv_Payload := ''x''\<rparr>)"
proof -
  have "keys_work demo_cmek_env demo_cmek_env"
    by (simp add: keys_work_def demo_cmek_env_def demo_env_def NonceSize_def)
  moreover have "no_slash ''p''" "no_slash ''s''" by simp_all
  ultimately show ?thesis
    using added_version_reads_back [OF demo_cmek_inv _ _ demo_cmek_added, of demo_cmek_env]
    by (simp add: demo_cmek_added demo_store_view demo_keys) (simp add: Expired_def demo_cmek_secret_def demo_secret_def)
qed

section \<open>Names that lead back\<close>

text \<open>A name finds its secret unless the identifier begins with a dash or an underscore.\<close>

lemma ValidID_no_at: "ValidID p \<Longrightarrow> CHR ''@'' \<notin> set p"
  by (auto simp: ValidID_def idRE_def list_all_iff id_char_def char_class_defs)

lemma secret_id_char_plain:
  "secret_id_char c \<Longrightarrow> id_char c \<and> c \<notin> {CHR ''%'', CHR ''.'', CHR 0x00, CHR ''/'', CHR 0x5C}"
  by (auto simp: secret_id_char_def id_char_def char_class_defs)

lemma ValidID_secret_id:
  assumes "ValidateSecretID i = Inr ()"
  shows "ValidID i \<longleftrightarrow> is_alnum (hd i)"
proof -
  have i: "i \<noteq> []" "length i \<le> 255" "\<And>c. c \<in> set i \<Longrightarrow> secret_id_char c"
    using assms by (auto simp: ValidateSecretID_def list_all_iff split: if_splits)
  have low: "c \<notin> {CHR ''%'', CHR ''.'', CHR 0x00}" if "c \<in> set (ToLower i)" for c
    using that i(3) secret_id_char_plain by (fastforce simp: ToLower_def)
  have "\<not> Contains (ToLower i) bad" if "bad \<in> set bad_id_parts" for bad
  proof
    assume "Contains (ToLower i) bad"
    then have "set bad \<subseteq> set (ToLower i)" by (rule set_mono_sublist)
    moreover have "hd bad \<in> set bad" "hd bad \<in> {CHR ''%'', CHR ''.'', CHR 0x00}" using that by (auto simp: bad_id_parts_def)
    ultimately show False using low by blast
  qed
  moreover have "list_all id_char i" "\<not> list_ex (\<lambda>c. c = CHR ''/'' \<or> c = CHR 0x5C) i" "CHR ''.'' \<notin> set i"
    using i(3) secret_id_char_plain by (auto simp: list_all_iff list_ex_iff)
  moreover from this(3) have "i \<noteq> ''.''" "i \<noteq> ''..''" by auto
  ultimately show ?thesis using i(1,2) by (simp add: ValidID_def idRE_def list_all_iff [of _ bad_id_parts])
qed

lemma SplitScope_of:
  assumes "ValidID p" "l = [] \<or> ValidID l"
  shows "SplitScope (if l = [] then p else RegionalScope p l) = (p, l)"
proof -
  have at: "x \<noteq> CHR ''@''" if "x \<in> set p" for x using that ValidID_no_at [OF assms(1)] by auto
  then have p: "takeWhile (\<lambda>x. x \<noteq> CHR ''@'') p = p" "dropWhile (\<lambda>x. x \<noteq> CHR ''@'') p = []"
    by (simp_all add: takeWhile_eq_all_conv)
  have "takeWhile (\<lambda>x. x \<noteq> CHR ''@'') (p @ ''@'' @ l) = p" "dropWhile (\<lambda>x. x \<noteq> CHR ''@'') (p @ ''@'' @ l) = ''@'' @ l"
    using takeWhile_append2 [of p "\<lambda>x. x \<noteq> CHR ''@''" "''@'' @ l", OF at] dropWhile_append2 [of p "\<lambda>x. x \<noteq> CHR ''@''" "''@'' @ l", OF at]
    by simp_all
  then show ?thesis by (simp add: SplitScope_def Cut_def RegionalScope_def p)
qed

lemma secret_id_no_slash: "ValidateSecretID i = Inr () \<Longrightarrow> no_slash i"
  using secret_id_char_plain by (auto simp: ValidateSecretID_def list_all_iff split: if_splits)

lemma scope_no_slash: "ValidID p \<Longrightarrow> l = [] \<or> ValidID l \<Longrightarrow> no_slash (if l = [] then p else RegionalScope p l)"
  by (auto simp: RegionalScope_def dest: ValidID_no_slash)

lemma parse_SecretName:
  assumes "ValidID p" "l = [] \<or> ValidID l" "ValidateSecretID i = Inr ()" "scope = (if l = [] then p else RegionalScope p l)"
  shows "ParseSecretName (SecretName scope i) = (if is_alnum (hd i) then Inr (scope, i) else Inl InvalidArgument)"
proof -
  note i = secret_id_no_slash [OF assms(3)]
  have scope: "SplitScope scope = (p, l)" unfolding assms(4) by (rule SplitScope_of [OF assms(1,2)])
  have "no_slash scope" unfolding assms(4) by (rule scope_no_slash [OF assms(1,2)])
  from split_SecretName [OF this i] have split: "split_on (CHR ''/'') (SecretName scope i) =
      (if l \<noteq> [] then [''projects'', p, ''locations'', l, ''secrets'', i] else [''projects'', scope, ''secrets'', i])"
    by (simp only: scope prod.sel)
  have joined: "l \<noteq> [] \<Longrightarrow> RegionalScope p l = scope" by (simp add: assms(4))
  have parts: "secret_parts4 (SecretName scope i) = Inr [''projects'', scope, ''secrets'', i]"
    unfolding secret_parts4_def split using assms(2) joined by (cases "l = []") simp_all
  show ?thesis
    by (simp add: ParseSecretName_def parts scope assms(1,3) ValidID_secret_id [OF assms(3)])
qed

text \<open>
  A version's name is cut at the first \<open>/versions/\<close>. A part that is \<open>versions\<close> itself is cut there, and
  what remains has a slash.
\<close>

lemma prefix_part: "no_slash q \<Longrightarrow> no_slash t \<Longrightarrow> prefix (t @ ''/'') (q @ CHR ''/'' # r) \<longleftrightarrow> q = t"
  by (auto simp: prefix_def append_sep_eq)

lemma Index_part:
  "no_slash q \<Longrightarrow> Index (q @ CHR ''/'' # r) (CHR ''/'' # t) =
     (if prefix t r then Some (length q) else map_option (\<lambda>k. length q + Suc k) (Index r (CHR ''/'' # t)))"
  by (induction q) (auto simp: option.map_comp comp_def)

lemma Index_parts:
  assumes "\<And>q. q \<in> set qs \<Longrightarrow> no_slash q" "qs \<noteq> []" "hd qs \<noteq> ''versions''"
  shows "\<exists>k. Index (join ''/'' qs @ ''/versions/'' @ w) ''/versions/'' = Some k \<and>
    (if ''versions'' \<in> set qs then CHR ''/'' \<in> set (drop (k + 10) (join ''/'' qs @ ''/versions/'' @ w))
     else k = length (join ''/'' qs))"
  using assms
proof (induction qs)
  case (Cons q qs)
  note Index_q = Index_part [of q _ "''versions/''"]
  show ?case
  proof (cases qs)
    case Nil
    then show ?thesis using Cons.prems Index_q [of "''versions/'' @ w"] by simp
  next
    case (Cons q' qs')
    define r where "r = join ''/'' qs @ ''/versions/'' @ w"
    have step: "join ''/'' (q # qs) @ ''/versions/'' @ w = q @ CHR ''/'' # r"
      and len: "length (join ''/'' (q # qs)) = length q + Suc (length (join ''/'' qs))" using Cons by (simp_all add: r_def)
    obtain r' where r': "r = q' @ CHR ''/'' # r'" "CHR ''/'' \<in> set r'"
      unfolding r_def using Cons by (cases qs') auto
    have ns: "no_slash q" "no_slash q'" using Cons.prems(1) Cons by auto
    have first: "prefix ''versions/'' r \<longleftrightarrow> q' = ''versions''"
      unfolding r'(1) using prefix_part [of q' "''versions''" r'] ns by simp
    show ?thesis
    proof (cases "q' = ''versions''")
      case True
      then have "Index (q @ CHR ''/'' # r) ''/versions/'' = Some (length q)" using Index_q [of r] ns first by simp
      moreover have "drop (length q + 10) (q @ CHR ''/'' # r) = r'" unfolding r'(1) True by simp
      ultimately show ?thesis unfolding step using True Cons r'(2) by simp
    next
      case False
      with Cons.IH Cons.prems(1) Cons obtain k where k: "Index r ''/versions/'' = Some k"
        "if ''versions'' \<in> set qs then CHR ''/'' \<in> set (drop (k + 10) r) else k = length (join ''/'' qs)"
        unfolding r_def by auto
      have "Index (q @ CHR ''/'' # r) ''/versions/'' = Some (length q + Suc k)" using Index_q [of r] ns first False k(1) by simp
      moreover have "drop (length q + Suc k + 10) (q @ CHR ''/'' # r) = drop (k + 10) r" by (simp add: drop_Cons' add.commute)
      ultimately show ?thesis
        unfolding step len using k(2) Cons.prems(3) by (intro exI [of _ "length q + Suc k"]) (simp split: if_splits)
    qed
  qed
qed simp

lemma parse_cut:
  assumes "Index nm ''/versions/'' = Some k" "w = drop (k + 10) nm"
  shows "ParseVersionName nm =
      (if w = [] \<or> Contains w ''/'' then Inl InvalidArgument
       else case ParseSecretName (take k nm) of
         Inl e \<Rightarrow> Inl e
       | Inr (project, secret) \<Rightarrow>
           if w \<noteq> LatestAlias \<and> (case Atoi w of None \<Rightarrow> True | Some n \<Rightarrow> n < 1) then Inl InvalidArgument
           else Inr (project, secret, w))"
proof -
  have cut: "''/'' @ versionPrefix = ''/versions/''" "length ''/versions/'' = 10" by (simp_all add: versionPrefix_def)
  show ?thesis by (simp only: ParseVersionName_def Let_def cut assms option.case)
qed

text \<open>C40: The names the store gives its secrets and versions lead back to them, with two exceptions. A name parses to
  the scope and identifier it was made from unless the identifier begins with a dash or an underscore, which creation
  accepts; and a version's name does so as well unless the project, the location or the identifier is \<open>versions\<close>.\<close>

theorem names_lead_back:
  assumes "ValidID p" "l = [] \<or> ValidID l" "ValidateSecretID i = Inr ()" "1 \<le> n" "n < 2 ^ 63"
    and "scope = (if l = [] then p else RegionalScope p l)"
  shows "ParseSecretName (SecretName scope i) = (if is_alnum (hd i) then Inr (scope, i) else Inl InvalidArgument) \<and>
    ParseVersionName (VersionName scope i n) =
      (if is_alnum (hd i) \<and> ''versions'' \<notin> {p, l, i} then Inr (scope, i, int_dec n) else Inl InvalidArgument)"
proof -
  note secret = parse_SecretName [OF assms(1-3,6)]
  note i = secret_id_no_slash [OF assms(3)]
  have scope: "SplitScope scope = (p, l)" unfolding assms(6) by (rule SplitScope_of [OF assms(1,2)])
  have slash: "no_slash scope" unfolding assms(6) by (rule scope_no_slash [OF assms(1,2)])
  define qs where "qs = split_on (CHR ''/'') (SecretName scope i)"
  have qs: "qs = (if l \<noteq> [] then [''projects'', p, ''locations'', l, ''secrets'', i] else [''projects'', scope, ''secrets'', i])"
    unfolding qs_def split_SecretName [OF slash i] scope by simp
  have parts: "''versions'' \<in> set qs \<longleftrightarrow> ''versions'' \<in> {p, l, i}" unfolding qs by (auto simp: assms(6))
  have nm: "SecretName scope i = join ''/'' qs" by (simp add: qs_def)
  have vn: "VersionName scope i n = join ''/'' qs @ ''/versions/'' @ int_dec n" by (simp add: VersionName_def nm versionPrefix_def)
  have num: "no_slash (int_dec n)" "int_dec n \<noteq> []"
    using assms(4) nat_dec_digits [of "CHR ''/''" "nat n"] by (auto simp: int_dec_def is_digit_def less_eq_char_def)
  have Atoi: "Atoi (int_dec n) = Some n" using Atoi_int_dec assms(4,5) by simp
  have "\<exists>k. Index (join ''/'' qs @ ''/versions/'' @ int_dec n) ''/versions/'' = Some k \<and>
    (if ''versions'' \<in> set qs then CHR ''/'' \<in> set (drop (k + 10) (join ''/'' qs @ ''/versions/'' @ int_dec n))
     else k = length (join ''/'' qs))"
  proof (rule Index_parts)
    show "no_slash q" if "q \<in> set qs" for q using that split_on_parts unfolding qs_def by fast
  qed (simp_all add: qs)
  then obtain k where k: "Index (VersionName scope i n) ''/versions/'' = Some k"
    "if ''versions'' \<in> set qs then CHR ''/'' \<in> set (drop (k + 10) (VersionName scope i n)) else k = length (SecretName scope i)"
    unfolding vn nm by blast
  let ?w = "drop (k + 10) (VersionName scope i n)"
  note parse = parse_cut [OF k(1) refl]
  have "ParseVersionName (VersionName scope i n) =
      (if is_alnum (hd i) \<and> ''versions'' \<notin> {p, l, i} then Inr (scope, i, int_dec n) else Inl InvalidArgument)"
  proof (cases "''versions'' \<in> set qs")
    case True
    then have "Contains ?w ''/''" using k(2) by (simp add: Contains_char)
    then show ?thesis unfolding parse using True parts by simp
  next
    case False
    then have "take k (VersionName scope i n) = SecretName scope i" "?w = int_dec n"
      using k(2) by (simp_all add: VersionName_def versionPrefix_def)
    then show ?thesis unfolding parse using False parts num Atoi assms(4) by (simp add: Contains_char secret)
  qed
  with secret show ?thesis by blast
qed

theorem names_lead_back_witness:
  "ParseVersionName (VersionName (RegionalScope ''p'' ''l'') ''db_key'' 7) = Inr (RegionalScope ''p'' ''l'', ''db_key'', ''7'') \<and>
   ParseSecretName (SecretName ''p'' ''_x'') = Inl InvalidArgument \<and>
   ParseVersionName (VersionName ''p'' ''versions'' 1) = Inl InvalidArgument"
proof -
  have ids: "ValidID ''p''" "ValidID ''l''" "ValidateSecretID ''db_key'' = Inr ()" "ValidateSecretID ''_x'' = Inr ()"
      "ValidateSecretID ''versions'' = Inr ()" "int_dec 7 = ''7''" "is_alnum (CHR ''d'')" "\<not> is_alnum (CHR ''_'')"
    by code_simp+
  from names_lead_back [of "''p''" "''l''" "''db_key''" 7] names_lead_back [of "''p''" "[]" "''_x''" 1]
    names_lead_back [of "''p''" "[]" "''versions''" 1] ids
  show ?thesis by simp
qed

end
