(* ===== verification/Spec2Isabelle.thy ===== *)
theory Spec2Isabelle
  imports Apierror Resource StoreDB DirLock Paging Lro Sched Iampolicy Tasks_Server Secrets_Promises
begin

text \<open>
  \<^bold>\<open>CloudBurrow\<close> serves Google Cloud APIs on one machine for local development. Most of the
  repository starts programs that exist elsewhere (a Kubernetes cluster, Google's emulators) and puts
  fronts before them. What it implements itself rests on a few core packages under \<open>src/internal\<close>: errors, resource
  names, the metadata store, paging, long-running operations, clocks and retries, IAM policies. The
  services built on them keep all their state in the metadata store. This development models those
  packages, the Cloud Tasks service from the system calls of the store up to the gRPC handlers, and the
  store of Secret Manager.

  \<^bold>\<open>Conventions.\<close> A Go string is the \<^typ>\<open>string\<close> of its bytes, a Go map an association list with distinct
  keys, an instant an integer number of nanoseconds since Go's zero time, a duration an integer number
  of nanoseconds. A method that changes state takes the state and returns its result with the new
  state; a mutex held over a whole method makes the method one step, and where a lock is not held over
  a whole operation the model is a step relation. An error is its gRPC status code, a panic is
  \<^const>\<open>None\<close>. A reading of the clock and bytes of \<open>rand.Read\<close> are arguments. Generated protocol
  buffer code, \<open>net/url\<close> as far as the sources only pass its results on, HTTP transports and token
  minters are parameters; what a property needs of them is a hypothesis of that property.

  \<^bold>\<open>Theories.\<close>

  \<^item> \<open>Prelude\<close>: Go's string functions, decimal numbers, time, fixed-width integers, maps.

  \<^item> \<open>Apierror\<close> (\<open>apierror/apierror.go\<close>): status codes, \<open>From\<close>, \<open>Wrap\<close>, the gRPC status and the two
    JSON renderings. The renderings of one error agree.

  \<^item> \<open>Resource\<close> (\<open>resource/\<close>): names, scopes, storage keys; the regular expressions are written as
    recognisers and proved to accept their languages. Parsing and printing are inverse, and storage keys
    keep projects and locations apart.

  \<^item> \<open>KVStore\<close>, \<open>GoJson\<close>, \<open>Durable\<close>, \<open>StoreDB\<close> (\<open>store/\<close>): the interface \<open>Store\<close> as the locale
    \<open>metadata_store\<close>, its implementation in memory, Go's JSON strings, and the durable
    implementation over a file system whose unsynced writes and renames may be lost at a power loss.
    The locale is interpreted for both implementations and for the value a service holds. A commit is
    atomic under crashes, committed data is there after a reopen, memory and disk agree, and a live
    owner excludes others.

  \<^item> \<open>DirLock\<close> (\<open>store/durable.go\<close>): processes opening one directory, a system call at a time. There is
    one owner while no process dies; two can reclaim a dead owner's lock.

  \<^item> \<open>Paging\<close> (\<open>paging/paging.go\<close>): tokens and page walks. A walk shows every key once and ends, also
    on a listing that changes.

  \<^item> \<open>Lro\<close> (\<open>lro/lro.go\<close>): long-running operations; terminal states are final.

  \<^item> \<open>Float64\<close>, \<open>Backoff\<close>, \<open>Sched\<close> (\<open>sched/\<close>): IEEE 754 double precision on rationals with rounding to
    even, the retry schedules computed with it, the fake clock and the scheduler of retried jobs as a
    step relation.

  \<^item> \<open>Iampolicy\<close> (\<open>iampolicy/iampolicy.go\<close>): stored policies and their etags.

  \<^item> \<open>Tasks_Types\<close>, \<open>Tasks_Target\<close>, \<open>Tasks_Store\<close> (\<open>service/tasks/\<close>: \<open>store.go\<close>, \<open>httptarget1282.go\<close>,
    \<open>appengine1447.go\<close>, the stored parts of \<open>grpc1215.go\<close>): queues, tasks and tombstones over the
    store. Every operation keeps the store typed; a deleted task stays deleted while an attempt of it
    runs; \<open>DueTasks\<close> returns what is due and nothing else.

  \<^item> \<open>Tasks_Dispatch\<close>, \<open>Tasks_Retry\<close>, \<open>Tasks_Worker\<close> (\<open>dispatch.go\<close>): one attempt, the life of a task
    over its attempts, and the worker, whose passes, attempts and the API interleave in the step
    relation \<open>worker_step\<close>. A delivered task is not sent again, tasks leave their queue, the token bucket
    keeps the rate and the counts keep the limit.

  \<^item> \<open>Tasks_Filter\<close>, \<open>Tasks_Server\<close> (\<open>filter.go\<close>, \<open>grpcserver.go\<close>, \<open>grpc1215.go\<close>): the filter
    language and the gRPC handlers. Filters mean what they say, created queues read back, updates touch
    what their mask names, batches account for every request.

  \<^item> \<open>Secrets_Types\<close>, \<open>Secrets_Store\<close> (\<open>service/secrets/\<close>: \<open>store.go\<close>, \<open>expiry.go\<close>, \<open>schedule.go\<close>,
    \<open>notify.go\<close>, \<open>cmek.go\<close>): secrets and versions over the store. The methods are written with
    combinators for calls that return an error; the state holds the readings the clock will give and
    the messages handed to Pub/Sub. Pub/Sub, Cloud KMS, SHA-256 and AES-GCM are parameters.

  \<^item> \<open>Secrets_Laws\<close>, \<open>Secrets_Promises\<close>: the invariant of the stored records, a weakest precondition
    with a rule for every operation (the collection \<open>sm_rules\<close>), and what callers rely on. The records
    stay together whatever operations run, a destroyed version is gone for good, an added version reads
    back, sealed or not, and names lead back to what they name, with two exceptions.

  \<^bold>\<open>Fuel and bounds.\<close> The filter parser carries fuel; \<open>parse_fuel\<close> gives it a number that grows with
  the tokens, and \<open>parse_returns\<close> shows that it never runs out. The walk over pages, the loops over
  attempts and the loop that moves a missed rotation are total functions with termination proofs. Floating point keeps the exponent range of
  \<open>float64\<close>, so overflow to infinity happens where it does in the code, and conversions to \<open>int64\<close> and
  \<open>int32\<close> wrap around.

  \<^bold>\<open>Not modelled.\<close> The command line, the console, the fronts before Google's emulators and the
  adapters to Kubernetes and Knative only move requests between programs whose state is not in the
  repository. The transports (\<open>transport/grpc\<close>, \<open>transport/rest\<close>, the REST routes of Cloud Tasks) are
  calls into \<open>net/http\<close>, \<open>google.golang.org/grpc\<close> and \<open>protojson\<close>. Of Secret Manager the servers
  (\<open>grpcserver.go\<close>, \<open>rest.go\<close>), the list filters (\<open>filter.go\<close>) and the store over Kubernetes (\<open>kube.go\<close>,
  \<open>mount.go\<close>) are left out. The other services of
  \<open>internal/service\<close> (Cloud Storage, KMS, Logging, SQL, Resource Manager and so on) are implementations of
  their own, each as large as what is modelled here, and are left out.
\<close>

end
